(* ===== verification/Prelude.thy ===== *)
theory Prelude
  imports Main "HOL-Library.Word"
begin

text \<open>
  Shared vocabulary of the development: names for the machine integers of the emulator and
  of the JNI library, generic facts on bounded unsigned arithmetic, and circular buffers
  seen as lists (\<open>ring_read\<close>, \<open>ring_write\<close>).  Both rings of the program, the
  per-thread local queue and the shared-memory queue, are instances of the latter.
\<close>

type_synonym u32 = "32 word"
type_synonym u64 = "64 word"

named_theorems ring_simps \<open>rewriting of circular buffers\<close>

section \<open>Bounded unsigned arithmetic\<close>

text \<open>An index computed in unsigned arithmetic, \<open>(p + i) % n\<close>, is the one over the naturals
  as long as the sum stays inside the word.\<close>

lemma unat_of_nat_small:
  "i < 2 ^ LENGTH('a) \<Longrightarrow> unat (of_nat i :: 'a::len word) = i"
  by (simp add: unat_of_nat take_bit_nat_eq_self)

lemma of_nat_unat: "(of_nat (unat w) :: 'a::len word) = w"
  by simp

lemma word_unat_eqI: "unat v = unat w \<Longrightarrow> v = (w :: 'a::len word)"
  by (simp add: word_unat_eq_iff)

lemma unat_add_small:
  fixes a b :: "'a::len word"
  assumes "unat a + unat b < 2 ^ LENGTH('a)"
  shows "unat (a + b) = unat a + unat b"
  using assms by (simp add: unat_word_ariths)

lemma unat_ring_index:
  fixes p m :: "'a::len word"
  assumes "unat p + i < 2 ^ LENGTH('a)"
  shows "unat ((p + of_nat i) mod m) = (unat p + i) mod unat m"
proof -
  have "unat (of_nat i :: 'a word) = i"
    using assms by (intro unat_of_nat_small) simp
  then show ?thesis
    using assms by (simp add: unat_mod_distrib unat_add_small)
qed

lemma unat_ring_advance:
  fixes p n m :: "'a::len word"
  assumes "unat p + unat n < 2 ^ LENGTH('a)"
  shows "unat ((p + n) mod m) = (unat p + unat n) mod unat m"
  using assms by (simp add: unat_mod_distrib unat_add_small)

lemma unat_diff_le:
  fixes a b :: "'a::len word"
  shows "b \<le> a \<Longrightarrow> unat (a - b) = unat a - unat b"
  by (simp add: unat_sub)

lemma unat_ucast_small:
  fixes v :: "'a::len word"
  assumes "unat v < 2 ^ LENGTH('b)"
  shows "unat (ucast v :: 'b::len word) = unat v"
  using assms by (simp add: unsigned_ucast_eq take_bit_nat_eq_self)

lemma sint_small:
  fixes x :: "'a::len word"
  assumes "unat x < 2 ^ (LENGTH('a) - 1)"
  shows "sint x = int (unat x)"
proof -
  have "int (unat x) < 2 ^ (LENGTH('a) - 1)" using assms by (metis of_nat_less_iff of_nat_numeral of_nat_power)
  moreover have "- (2 ^ (LENGTH('a) - Suc 0)) \<le> uint x" by (rule order_trans [of _ 0]) simp_all
  ultimately show ?thesis by (simp add: sint_uint signed_take_bit_int_eq_self)
qed

lemma sint_of_nat_small:
  assumes "N < 2 ^ 31"
  shows "sint (of_nat N :: u32) = int N"
proof -
  have "unat (of_nat N :: u32) = N" using assms by (intro unat_of_nat_small) simp
  then show ?thesis using sint_small [of "of_nat N :: u32"] assms by simp
qed

lemma unat_scast_small:
  fixes x :: u32
  assumes "unat x < 2 ^ 31"
  shows "unat (scast x :: u64) = unat x"
proof -
  have "(scast x :: u64) = of_nat (unat x)"
    using assms by (simp add: scast_eq sint_small)
  then show ?thesis using assms by (simp add: unat_ucast_small)
qed

section \<open>Circular buffers\<close>

definition ring_read :: "nat \<Rightarrow> (nat \<Rightarrow> 'a) \<Rightarrow> nat \<Rightarrow> nat \<Rightarrow> 'a list" where
  "ring_read n f s l = map (\<lambda>i. f ((s + i) mod n)) [0..<l]"

definition ring_write :: "nat \<Rightarrow> (nat \<Rightarrow> 'a) \<Rightarrow> nat \<Rightarrow> 'a list \<Rightarrow> (nat \<Rightarrow> 'a)" where
  "ring_write n f s xs = fold (\<lambda>i g. g((s + i) mod n := xs ! i)) [0..<length xs] f"

lemma length_ring_read [simp, ring_simps]: "length (ring_read n f s l) = l"
  by (simp add: ring_read_def)

lemma ring_read_nth [ring_simps]: "i < l \<Longrightarrow> ring_read n f s l ! i = f ((s + i) mod n)"
  by (simp add: ring_read_def)

lemma ring_read_0 [simp, ring_simps]: "ring_read n f s 0 = []"
  by (simp add: ring_read_def)

lemma ring_read_mod_start [ring_simps]: "ring_read n f (s mod n) l = ring_read n f s l"
  by (simp add: ring_read_def mod_simps)

lemma ring_read_add:
  "ring_read n f s (a + b) = ring_read n f s a @ ring_read n f (s + a) b"
  by (rule nth_equalityI) (auto simp: ring_simps nth_append add.assoc)

lemma ring_read_Suc: "ring_read n f s (Suc l) = ring_read n f s l @ [f ((s + l) mod n)]"
  by (simp add: ring_read_def)

lemma drop_ring_read [ring_simps]:
  "drop k (ring_read n f s l) = ring_read n f (s + k) (l - k)"
  by (rule nth_equalityI) (auto simp: ring_simps add.assoc)

lemma take_ring_read [ring_simps]:
  "take k (ring_read n f s l) = ring_read n f s (min k l)"
  by (rule nth_equalityI) (auto simp: ring_simps)

lemma ring_read_cong:
  "(\<And>i. i < l \<Longrightarrow> f ((s + i) mod n) = g ((s + i) mod n)) \<Longrightarrow> ring_read n f s l = ring_read n g s l"
  by (simp add: ring_read_def)

text \<open>Two positions of a window no longer than the ring are different cells.\<close>

lemma ring_index_inj:
  fixes i j n s :: nat
  assumes "i < n" "j < n" "(s + i) mod n = (s + j) mod n"
  shows "i = j"
proof -
  have "\<And>i j. \<lbrakk>i < n; j < n; i \<le> j; (s + i) mod n = (s + j) mod n\<rbrakk> \<Longrightarrow> i = j"
  proof -
    fix i j assume "i < n" "j < n" "i \<le> j" "(s + i) mod n = (s + j) mod n"
    then have "n dvd (s + j) - (s + i)"
      by (metis add_le_cancel_left mod_eq_dvd_iff_nat)
    then have "n dvd j - i" by simp
    with \<open>j < n\<close> \<open>i \<le> j\<close> show "i = j"
      by (metis diff_is_0_eq' diff_less_mono2 dvd_imp_le le_antisym less_imp_diff_less not_le zero_less_diff)
  qed
  with assms show ?thesis by (metis nat_le_linear)
qed

lemma ring_write_Nil [simp]: "ring_write n f s [] = f"
  by (simp add: ring_write_def)

lemma ring_write_snoc:
  "ring_write n f s (xs @ [x]) = (ring_write n f s xs)((s + length xs) mod n := x)"
proof -
  have "fold (\<lambda>i g. g((s + i) mod n := (xs @ [x]) ! i)) [0..<length xs] f
      = fold (\<lambda>i g. g((s + i) mod n := xs ! i)) [0..<length xs] f"
    by (rule fold_cong) (auto simp: nth_append)
  then show ?thesis by (simp add: ring_write_def)
qed

lemma ring_write_other:
  "(\<And>i. i < length xs \<Longrightarrow> c \<noteq> (s + i) mod n) \<Longrightarrow> ring_write n f s xs c = f c"
  by (induction xs rule: rev_induct) (simp_all add: ring_write_snoc)

lemma ring_write_cong:
  "f c = g c \<Longrightarrow> ring_write n f s xs c = ring_write n g s xs c"
  by (induction xs rule: rev_induct) (simp_all add: ring_write_snoc)

lemma ring_write_nth:
  assumes "length xs \<le> n" "i < length xs"
  shows "ring_write n f s xs ((s + i) mod n) = xs ! i"
  using assms
proof (induction xs rule: rev_induct)
  case Nil
  then show ?case by simp
next
  case (snoc x xs)
  show ?case
  proof (cases "i = length xs")
    case True
    then show ?thesis by (simp add: ring_write_snoc)
  next
    case False
    with snoc.prems have i: "i < length xs" and n: "length xs < n" by auto
    then have "(s + i) mod n \<noteq> (s + length xs) mod n"
      using ring_index_inj [of i n "length xs" s] by auto
    then have "ring_write n f s (xs @ [x]) ((s + i) mod n) = ring_write n f s xs ((s + i) mod n)"
      by (simp add: ring_write_snoc)
    also have "\<dots> = xs ! i" using snoc.IH i n by simp
    finally show ?thesis using i by (simp add: nth_append)
  qed
qed

text \<open>The law of a ring used as a queue: writing behind the current contents appends.\<close>

lemma ring_read_write:
  assumes "l + length xs \<le> n"
  shows "ring_read n (ring_write n f (s + l) xs) s (l + length xs) = ring_read n f s l @ xs"
proof -
  have old: "ring_read n (ring_write n f (s + l) xs) s l = ring_read n f s l"
  proof (rule ring_read_cong)
    fix i assume i: "i < l"
    show "ring_write n f (s + l) xs ((s + i) mod n) = f ((s + i) mod n)"
    proof (rule ring_write_other)
      fix j assume j: "j < length xs"
      show "(s + i) mod n \<noteq> (s + l + j) mod n"
      proof
        assume "(s + i) mod n = (s + l + j) mod n"
        then have "i = l + j"
          using ring_index_inj [of i n "l + j" s] i j assms by (simp add: add.assoc)
        with i show False by simp
      qed
    qed
  qed
  have new: "ring_read n (ring_write n f (s + l) xs) (s + l) (length xs) = xs"
    using assms by (intro nth_equalityI) (auto simp: ring_simps intro!: ring_write_nth)
  show ?thesis by (simp add: ring_read_add old new)
qed

lemma ring_write_mod_start [ring_simps]: "ring_write n f (s mod n) xs = ring_write n f s xs"
  by (simp add: ring_write_def mod_simps)

lemma ring_write_bounded: "0 < n \<Longrightarrow> n \<le> c \<Longrightarrow> ring_write n f s xs c = f c"
  by (rule ring_write_other) (metis mod_less_divisor not_le)

end
