(* ===== verification/Encoding.thy ===== *)
theory Encoding
  imports Prelude
begin

text \<open>
  The packet encodings of \<open>src/emulator/pin/encoding.h\<close> and the packet of
  \<open>communication/common.h\<close> (repeated in \<open>commonJNI.h\<close>).  An encoding travels in the
  64-bit field \<open>value\<close> of a packet; \<open>enc\<close> is the conversion the C++ call does
  (\<open>int\<close> to \<open>uint64_t\<close>), so that \<open>THREADCOMPLETE\<close> is the all-ones word there.
\<close>

section \<open>encoding.h\<close>

definition THREADCOMPLETE :: int where "THREADCOMPLETE = -1"
definition SUBSETSIMCOMPLETE :: int where "SUBSETSIMCOMPLETE = -2"
definition MEMREAD :: int where "MEMREAD = 2"
definition MEMWRITE :: int where "MEMWRITE = 3"
definition TAKEN :: int where "TAKEN = 4"
definition NOTTAKEN :: int where "NOTTAKEN = 5"
definition REGREAD :: int where "REGREAD = 6"
definition REGWRITE :: int where "REGWRITE = 7"
definition TIMER :: int where "TIMER = 8"
definition BCAST :: int where "BCAST = 10"
definition SIGNAL :: int where "SIGNAL = 12"
definition LOCK :: int where "LOCK = 14"
definition UNLOCK :: int where "UNLOCK = 16"
definition JOIN :: int where "JOIN = 18"
definition CONDWAIT :: int where "CONDWAIT = 20"
definition BARRIERWAIT :: int where "BARRIERWAIT = 22"
definition BARRIERINIT :: int where "BARRIERINIT = 26"
definition ASSEMBLY :: int where "ASSEMBLY = 27"
definition INSTRUCTION :: int where "INSTRUCTION = 28"
definition FUNC_START :: int where "FUNC_START = 29"
definition INTERRUPT :: int where "INTERRUPT = 30"
definition PROCESS_SWITCH :: int where "PROCESS_SWITCH = 31"
definition DOM_SWITCH :: int where "DOM_SWITCH = 32"
definition CPL_SWITCH :: int where "CPL_SWITCH = 34"
definition PARENT_SPAWN :: int where "PARENT_SPAWN = 35"
definition CHILD_START :: int where "CHILD_START = 36"

lemmas encoding_defs =
  THREADCOMPLETE_def SUBSETSIMCOMPLETE_def MEMREAD_def MEMWRITE_def TAKEN_def NOTTAKEN_def
  REGREAD_def REGWRITE_def TIMER_def BCAST_def SIGNAL_def LOCK_def UNLOCK_def JOIN_def
  CONDWAIT_def BARRIERWAIT_def BARRIERINIT_def ASSEMBLY_def INSTRUCTION_def FUNC_START_def
  INTERRUPT_def PROCESS_SWITCH_def DOM_SWITCH_def CPL_SWITCH_def PARENT_SPAWN_def CHILD_START_def

text \<open>The conversion of an encoding to the packet field.\<close>

definition enc :: "int \<Rightarrow> u64" where
  "enc c = word_of_int c"

text \<open>The codes a function entry uses; the matching exit is the code plus one.\<close>

definition entry_codes :: "int list" where
  "entry_codes = [BCAST, SIGNAL, LOCK, UNLOCK, JOIN, CONDWAIT, BARRIERWAIT]"

text \<open>Every code that the emulator puts in a packet.\<close>

definition all_codes :: "int list" where
  "all_codes = [THREADCOMPLETE, SUBSETSIMCOMPLETE, MEMREAD, MEMWRITE, TAKEN, NOTTAKEN, REGREAD,
     REGWRITE, TIMER, BARRIERINIT, ASSEMBLY, INSTRUCTION, FUNC_START, INTERRUPT, PROCESS_SWITCH,
     DOM_SWITCH, CPL_SWITCH, PARENT_SPAWN, CHILD_START]
     @ entry_codes @ map (\<lambda>c. c + 1) entry_codes"

section \<open>findType of causalityTool.cpp\<close>

text \<open>The C++ switch, whose labels are the encodings, as a chain of tests in source order.\<close>

definition findType :: "int \<Rightarrow> string" where
  "findType type =
    (if type = MEMREAD then ''MEMREAD''
     else if type = MEMWRITE then ''MEMWRITE''
     else if type = TAKEN then ''TAKEN''
     else if type = NOTTAKEN then ''NOTTAKEN''
     else if type = REGREAD then ''REGREAD''
     else if type = REGWRITE then ''REGWRITE''
     else if type = BCAST then ''BCAST ENTER''
     else if type = BCAST + 1 then ''BCAST EXIT''
     else if type = SIGNAL then ''SIGNAL ENTER''
     else if type = SIGNAL + 1 then ''SIGNAL EXIT''
     else if type = LOCK then ''LOCK ENTER''
     else if type = LOCK + 1 then ''LOCK EXIT''
     else if type = UNLOCK then ''UNLOCK ENTER''
     else if type = UNLOCK + 1 then ''UNLOCK EXIT''
     else if type = JOIN then ''JOIN ENTER''
     else if type = JOIN + 1 then ''JOIN EXIT''
     else if type = CONDWAIT then ''WAIT ENTER''
     else if type = CONDWAIT + 1 then ''WAIT EXIT''
     else if type = BARRIERWAIT then ''BARRIER ENTER''
     else if type = BARRIERWAIT + 1 then ''BARRIER EXIT''
     else if type = TIMER then ''Timer packet''
     else if type = BARRIERINIT then ''BARRIER INIT''
     else ''ADD THIS IN encoding.h'')"

section \<open>The packet\<close>

record packet =
  pk_ip :: u64
  pk_value :: u64
  pk_tgt :: u64

text \<open>What a call \<open>analysisFn(tid, ip, value, tgt)\<close> puts on the wire.\<close>

definition mk_packet :: "u64 \<Rightarrow> u64 \<Rightarrow> u64 \<Rightarrow> packet" where
  "mk_packet i v t = \<lparr>pk_ip = i, pk_value = v, pk_tgt = t\<rparr>"

lemma mk_packet_sel [simp]:
  "pk_ip (mk_packet i v t) = i" "pk_value (mk_packet i v t) = v" "pk_tgt (mk_packet i v t) = t"
  by (simp_all add: mk_packet_def)

lemma mk_packet_inject [simp]:
  "mk_packet i v t = mk_packet i' v' t' \<longleftrightarrow> i = i' \<and> v = v' \<and> t = t'"
  by (simp add: mk_packet_def)

section \<open>The encodings do not collide\<close>

lemma distinct_all_codes: "distinct all_codes"
  by (simp add: all_codes_def entry_codes_def encoding_defs)

lemma enc_eq_iff:
  assumes "- 2 \<le> a" "a < 2 ^ 63" "- 2 \<le> b" "b < 2 ^ 63"
  shows "enc a = enc b \<longleftrightarrow> a = b"
proof
  assume "enc a = enc b"
  then have "(2::int) ^ 64 dvd a - b"
    by (simp add: enc_def word_of_int_eq_iff take_bit_eq_mod mod_eq_dvd_iff)
  moreover have "\<bar>a - b\<bar> < 2 ^ 64" using assms by simp
  ultimately show "a = b"
    using dvd_imp_le_int [of "a - b" "2 ^ 64"] by force
qed simp

lemma all_codes_range: "c \<in> set all_codes \<Longrightarrow> - 2 \<le> c \<and> c < 2 ^ 63"
  by (auto simp: all_codes_def entry_codes_def encoding_defs)


text \<open>The names \<open>findType\<close> prints for a function's entry and exit.\<close>

lemma findType_entry_names:
  "findType BCAST = ''BCAST'' @ '' ENTER''" "findType (BCAST + 1) = ''BCAST'' @ '' EXIT''"
  "findType SIGNAL = ''SIGNAL'' @ '' ENTER''" "findType (SIGNAL + 1) = ''SIGNAL'' @ '' EXIT''"
  "findType LOCK = ''LOCK'' @ '' ENTER''" "findType (LOCK + 1) = ''LOCK'' @ '' EXIT''"
  "findType UNLOCK = ''UNLOCK'' @ '' ENTER''" "findType (UNLOCK + 1) = ''UNLOCK'' @ '' EXIT''"
  "findType JOIN = ''JOIN'' @ '' ENTER''" "findType (JOIN + 1) = ''JOIN'' @ '' EXIT''"
  "findType CONDWAIT = ''WAIT'' @ '' ENTER''" "findType (CONDWAIT + 1) = ''WAIT'' @ '' EXIT''"
  "findType BARRIERWAIT = ''BARRIER'' @ '' ENTER''" "findType (BARRIERWAIT + 1) = ''BARRIER'' @ '' EXIT''"
  by (simp_all add: findType_def encoding_defs)

lemma findType_entry_exit:
  assumes "c \<in> set entry_codes"
  shows "\<exists>n. findType c = n @ '' ENTER'' \<and> findType (c + 1) = n @ '' EXIT''"
proof -
  from assms consider "c = BCAST" | "c = SIGNAL" | "c = LOCK" | "c = UNLOCK" | "c = JOIN"
    | "c = CONDWAIT" | "c = BARRIERWAIT"
    by (auto simp: entry_codes_def)
  then show ?thesis
    by cases (metis findType_entry_names)+
qed

end
