(* ===== verification/Shm.thy ===== *)
theory Shm
  imports Encoding
begin

text \<open>
  The emulator side of the shared-memory channel: \<open>communication/shm/shmem.h\<close> and
  \<open>shmem.cc\<close>.  A \<open>segment\<close> is the System V segment, indexed in packets from the
  address \<open>shmat\<close> returned; thread \<open>t\<close> owns the \<open>COUNT + 5\<close> packets from
  \<open>(COUNT + 5) * t\<close> on: \<open>COUNT\<close> ring cells, then the queue size, the two flags and the
  turn of the Peterson lock, and the number of packets produced.  The record \<open>shm\<close> is the
  object \<open>Shm\<close> together with the segment it is attached to.

  A critical section is one step here: \<open>get_lock\<close> and \<open>release_lock\<close> are the stores the
  functions leave in the segment once the busy-wait has ended.  The busy-wait itself, one memory access
  at a time, and why the sections of the two sides do not overlap, is the theory
  \<open>Peterson\<close>.  The tracing and debugging branches guarded by \<open>printIPTrace\<close> and
  \<open>shm_debug_queue\<close> only print; both switches are compile-time false.
\<close>

section \<open>shmem.h: constants and state\<close>

definition COUNT :: nat where "COUNT = 1000"
definition locQ :: nat where "locQ = 50"
definition shm_debug_queue :: bool where "shm_debug_queue = False"

text \<open>\<open>sizeof(packet)\<close>: three 64-bit words.\<close>

definition sizeof_packet :: nat where "sizeof_packet = 24"

type_synonym segment = "nat \<Rightarrow> packet"

record thread_data =
  tlqsize :: u32
  td_in :: u32
  td_out :: u32
  td_shm :: nat
  tlq :: "nat \<Rightarrow> packet"
  prod_ptr :: u32
  tot_prod :: u64
  td_sum :: u64

record shm =
  isSubsetsimComplete :: bool
  ap_bh_counter :: u32
  tldata :: "nat \<Rightarrow> thread_data"
  MaxNumActiveThreads :: nat
  seg :: segment

text \<open>Cells of a thread's region that are not packets.\<close>

definition set_value :: "segment \<Rightarrow> nat \<Rightarrow> u64 \<Rightarrow> segment" where
  "set_value g i v = g(i := (g i)\<lparr>pk_value := v\<rparr>)"

section \<open>shmem.cc: the lock as seen by the memory\<close>

definition get_lock :: "segment \<Rightarrow> nat \<Rightarrow> segment" where
  "get_lock g m = set_value (set_value g (m + COUNT + 1) 1) (m + COUNT + 3) 1"

definition release_lock :: "segment \<Rightarrow> nat \<Rightarrow> segment" where
  "release_lock g m = set_value g (m + COUNT + 1) 0"

section \<open>shmem.cc: writing to the shared queue\<close>

text \<open>\<open>queue_size = shmem[COUNT].value\<close>: an \<open>int\<close> read from a 64-bit field.\<close>

definition read_qsize :: "segment \<Rightarrow> nat \<Rightarrow> u32" where
  "read_qsize g m = ucast (pk_value (g (m + COUNT)))"

text \<open>The copying loop of \<open>shmwrite\<close>: checksum and \<open>memcpy\<close>, packet by packet.\<close>

definition copy_loop :: "thread_data \<Rightarrow> nat \<Rightarrow> segment \<Rightarrow> segment \<times> u64" where
  "copy_loop myData numWrite g =
     fold (\<lambda>i (g, sum).
       let p = tlq myData (unat ((td_out myData + of_nat i) mod of_nat locQ)) in
       (g(td_shm myData + unat ((prod_ptr myData + of_nat i) mod of_nat COUNT) := p),
        sum + pk_value p))
     [0..<numWrite] (g, td_sum myData)"

text \<open>The final packet of a thread or of the subset: \<open>value\<close> and \<open>ip\<close> are written, the old
  \<open>tgt\<close> of the cell stays.\<close>

definition write_last :: "thread_data \<Rightarrow> int \<Rightarrow> u64 \<Rightarrow> segment \<Rightarrow> segment" where
  "write_last myData code numCISC g =
     (let c = td_shm myData + unat (prod_ptr myData mod of_nat COUNT) in
      g(c := (g c)\<lparr>pk_value := enc code, pk_ip := numCISC\<rparr>))"

definition shmwrite :: "shm \<Rightarrow> nat \<Rightarrow> int \<Rightarrow> u64 \<Rightarrow> shm \<times> int" where
  "shmwrite s tid fin numCISC =
     (if isSubsetsimComplete s then (s, -1)
      else
        let myData = tldata s tid;
            b = td_shm myData;
            g = get_lock (seg s) b;
            queue_size = read_qsize g b;
            numWrite = of_nat COUNT - queue_size
        in
        if numWrite = 0 then (s\<lparr>seg := release_lock g b\<rparr>, -1)
        else
          let (g, myData, numWrite) =
                (if fin = 0 then
                   let numWrite = (if numWrite < tlqsize myData then numWrite else tlqsize myData);
                       (g', sum') = copy_loop myData (unat numWrite) g
                   in (g', myData\<lparr>td_sum := sum',
                                  td_out := (td_out myData + numWrite) mod of_nat locQ,
                                  tlqsize := tlqsize myData - numWrite\<rparr>, numWrite)
                 else if fin = 1 then (write_last myData THREADCOMPLETE numCISC g, myData, 1)
                 else if fin = 2 then (write_last myData SUBSETSIMCOMPLETE numCISC g, myData, 1)
                 else (g, myData, numWrite));
              myData = myData\<lparr>prod_ptr := (prod_ptr myData + numWrite) mod of_nat COUNT,
                              tot_prod := tot_prod myData + ucast numWrite\<rparr>;
              queue_size = read_qsize g b + numWrite;
              g = set_value g (b + COUNT) (scast queue_size);
              g = set_value g (b + COUNT + 4) (tot_prod myData)
          in (s\<lparr>seg := release_lock g b, tldata := (tldata s)(tid := myData)\<rparr>, 0))"

text \<open>Appending one packet to the local queue.\<close>

definition log_packet :: "shm \<Rightarrow> nat \<Rightarrow> u64 \<Rightarrow> u64 \<Rightarrow> u64 \<Rightarrow> shm" where
  "log_packet s tid ip val addr =
     (let s = (if shm_debug_queue then s\<lparr>ap_bh_counter := ap_bh_counter s + 1\<rparr> else s);
          addr = (if shm_debug_queue then scast (ap_bh_counter s) else addr);
          myData = tldata s tid;
          i = td_in myData
      in s\<lparr>tldata := (tldata s)(tid := myData\<lparr>
             tlq := (tlq myData)(unat i := mk_packet ip val addr),
             td_in := (i + 1) mod of_nat locQ,
             tlqsize := tlqsize myData + 1\<rparr>)\<rparr>)"

definition analysisFn :: "shm \<Rightarrow> nat \<Rightarrow> u64 \<Rightarrow> u64 \<Rightarrow> u64 \<Rightarrow> shm \<times> int" where
  "analysisFn s tid ip val addr =
     (if tlqsize (tldata s tid) = of_nat locQ then
        (case shmwrite s tid 0 (-1) of (s', r) \<Rightarrow>
           if r = -1 then (s', -1) else (log_packet s' tid ip val addr, 0))
      else (log_packet s tid ip val addr, 0))"

text \<open>\<open>printf\<close> and \<open>exit(1)\<close>: the exit code is all that is left.\<close>

definition analysisFnAssembly :: "shm \<Rightarrow> nat \<Rightarrow> u64 \<Rightarrow> u64 \<Rightarrow> string \<Rightarrow> int + (shm \<times> int)" where
  "analysisFnAssembly s tid ip val asmString = Inl 1"

definition onThread_start :: "shm \<Rightarrow> nat \<Rightarrow> shm" where
  "onThread_start s tid =
     (let shmem = td_shm (tldata s tid);
          g = set_value (seg s) (shmem + COUNT) 0;
          g = set_value g (shmem + COUNT + 1) 0;
          g = set_value g (shmem + COUNT + 2) 0
      in s\<lparr>seg := g\<rparr>)"

definition setSubsetsimComplete :: "shm \<Rightarrow> bool \<Rightarrow> shm \<times> bool" where
  "setSubsetsimComplete s val = (let s' = s\<lparr>isSubsetsimComplete := val\<rparr> in (s', isSubsetsimComplete s'))"

definition isSubsetsimCompleted :: "shm \<Rightarrow> bool" where
  "isSubsetsimCompleted s = isSubsetsimComplete s"

section \<open>shmem.cc: the end of a thread and of the subset\<close>

text \<open>\<open>while (myData->tlqsize != 0) if (shmwrite(tid,0,-1) == -1) return -1;\<close> with the flag
  telling whether the loop ran to its end.  Every write that succeeds moves at least one packet, so
  the loop ends in every state.\<close>

lemma word_diff_less:
  fixes a k :: "'a::len word"
  shows "k \<noteq> 0 \<Longrightarrow> k \<le> a \<Longrightarrow> a - k < a"
  using unat_gt_0 [of k] by (simp add: word_less_nat_alt word_le_nat_alt unat_diff_le)

lemma shmwrite_decreases:
  assumes w: "shmwrite s tid 0 n = (s', r)" and r: "r \<noteq> -1" and t: "tlqsize (tldata s tid) \<noteq> 0"
  shows "tlqsize (tldata s' tid) < tlqsize (tldata s tid)"
proof -
  define a where "a = tlqsize (tldata s tid)"
  define f where "f = of_nat COUNT -
    read_qsize (get_lock (seg s) (td_shm (tldata s tid))) (td_shm (tldata s tid))"
  have "f \<noteq> 0"
    using w r by (auto simp: shmwrite_def f_def Let_def split: if_splits)
  moreover have "tlqsize (tldata s' tid) = a - (if f < a then f else a)"
    using w r unfolding a_def f_def
    by (simp add: shmwrite_def Let_def split: if_splits prod.splits) auto
  ultimately show ?thesis
    using t word_diff_less [of f a] word_diff_less [of a a] by (auto simp: a_def)
qed

function drain :: "shm \<Rightarrow> nat \<Rightarrow> shm \<times> bool" where
  "drain s tid =
     (if tlqsize (tldata s tid) \<noteq> 0 then
        (case shmwrite s tid 0 (-1) of (s', r) \<Rightarrow>
           if r = -1 then (s', False) else drain s' tid)
      else (s, True))"
  by pat_completeness auto
termination
  by (relation "measure (\<lambda>(s, tid). unat (tlqsize (tldata s tid)))")
     (auto simp: word_less_nat_alt [symmetric] dest: shmwrite_decreases [OF sym])

declare drain.simps [simp del]

definition clear_local :: "shm \<Rightarrow> nat \<Rightarrow> shm" where
  "clear_local s tid = s\<lparr>tldata := (tldata s)(tid := (tldata s tid)\<lparr>tlqsize := 0\<rparr>)\<rparr>"

definition onThread_finish :: "shm \<Rightarrow> nat \<Rightarrow> u64 \<Rightarrow> shm \<times> int" where
  "onThread_finish s tid numCISC =
     (case drain s tid of
        (s, False) \<Rightarrow> (s, -1)
      | (s, True) \<Rightarrow>
          (case shmwrite s tid 1 numCISC of (s, ret) \<Rightarrow>
             (if ret \<noteq> -1 then clear_local s tid else s, ret)))"

text \<open>Between two tries of a busy loop the other side may run; \<open>env\<close> is what it does to the
  state.  \<open>None\<close> is a loop that never ends.\<close>

partial_function (option) spin_send ::
    "(shm \<Rightarrow> shm) \<Rightarrow> nat \<Rightarrow> u64 \<Rightarrow> u64 \<Rightarrow> u64 \<Rightarrow> shm \<Rightarrow> shm option" where
  "spin_send env tid ip val addr s =
     (case analysisFn s tid ip val addr of (s', r) \<Rightarrow>
        if r = -1 then spin_send env tid ip val addr (env s') else Some s')"

text \<open>\<open>while (true) { while (analysisFn(...) == -1) continue; }\<close>\<close>

partial_function (option) send_forever ::
    "(shm \<Rightarrow> shm) \<Rightarrow> nat \<Rightarrow> u64 \<Rightarrow> u64 \<Rightarrow> u64 \<Rightarrow> shm \<Rightarrow> shm option" where
  "send_forever env tid ip val addr s =
     Option.bind (spin_send env tid ip val addr s) (send_forever env tid ip val addr)"

definition onSubset_finish ::
    "(shm \<Rightarrow> shm) \<Rightarrow> shm \<Rightarrow> nat \<Rightarrow> u64 \<Rightarrow> (shm \<times> int) option" where
  "onSubset_finish env s tid numCISC =
     (case drain s tid of
        (s, False) \<Rightarrow> Some (s, -1)
      | (s, True) \<Rightarrow>
          Option.bind (send_forever env tid 0 (enc SUBSETSIMCOMPLETE) numCISC s) (\<lambda>s.
            case shmwrite s tid 2 numCISC of (s, ret) \<Rightarrow>
              Some (if ret \<noteq> -1 then clear_local s tid else s, ret)))"

section \<open>shmem.cc: constructors, destructor\<close>

text \<open>
  The operating system is a parameter: \<open>ftok\<close> and \<open>shmget\<close> return a number,
  negative on failure, \<open>shmat\<close> the attached segment or \<open>None\<close> for \<open>(packet *)-1\<close>,
  \<open>shmdt\<close> a status.  \<open>new\<close> does not initialise: the arrays start as whatever the heap
  holds (\<open>heap\<close>, \<open>tlqs\<close>, \<open>junk\<close>).
\<close>

datatype exit_cause = Ftok_failed | Shmget_failed | Shmat_failed

definition segment_size :: "nat \<Rightarrow> int" where
  "segment_size n = sint (of_nat ((COUNT + 5) * sizeof_packet * n) :: u32)"

definition init_threads ::
    "nat \<Rightarrow> (nat \<Rightarrow> nat \<Rightarrow> packet) \<Rightarrow> (nat \<Rightarrow> thread_data) \<Rightarrow> nat \<Rightarrow> thread_data" where
  "init_threads n tlqs heap =
     fold (\<lambda>t td. td(t := (td t)\<lparr>tlqsize := 0, td_in := 0, td_out := 0, td_sum := 0,
                                  tlq := tlqs t, td_shm := td_shm (td 0) + (COUNT + 5) * t\<rparr>))
       [0..<n] (heap(0 := (heap 0)\<lparr>td_shm := 0\<rparr>))"

text \<open>\<open>Shm(int)\<close>: the key comes from \<open>ftok_id\<close>, and \<open>ap_bh_counter\<close> is not initialised.\<close>

definition ftok_id :: u64 where "ftok_id = 6"

definition Shm_new ::
    "(u64 \<Rightarrow> int) \<Rightarrow> (int \<Rightarrow> int \<Rightarrow> int) \<Rightarrow> (int \<Rightarrow> segment option) \<Rightarrow>
     (nat \<Rightarrow> thread_data) \<Rightarrow> (nat \<Rightarrow> nat \<Rightarrow> packet) \<Rightarrow> u32 \<Rightarrow> nat \<Rightarrow> exit_cause + shm" where
  "Shm_new ftok shmget shmat heap tlqs junk n =
     (let key = ftok ftok_id in
      if key = -1 then Inl Ftok_failed
      else let shmid = shmget key (segment_size n) in
      if shmid < 0 then Inl Shmget_failed
      else case shmat shmid of
        None \<Rightarrow> Inl Shmat_failed
      | Some g \<Rightarrow> Inr \<lparr>isSubsetsimComplete = False, ap_bh_counter = junk,
          tldata = init_threads n tlqs heap, MaxNumActiveThreads = n, seg = g\<rparr>)"

text \<open>\<open>Shm(uint64_t, int)\<close>: the one the tools call, with the id the simulator chose.\<close>

definition Shm_new_pid ::
    "(u64 \<Rightarrow> int) \<Rightarrow> (int \<Rightarrow> int \<Rightarrow> int) \<Rightarrow> (int \<Rightarrow> segment option) \<Rightarrow>
     (nat \<Rightarrow> thread_data) \<Rightarrow> (nat \<Rightarrow> nat \<Rightarrow> packet) \<Rightarrow> u64 \<Rightarrow> nat \<Rightarrow> exit_cause + shm" where
  "Shm_new_pid ftok shmget shmat heap tlqs pid n =
     (let key = ftok pid in
      if key = -1 then Inl Ftok_failed
      else let shmid = shmget key (segment_size n) in
      if shmid < 0 then Inl Shmget_failed
      else case shmat shmid of
        None \<Rightarrow> Inl Shmat_failed
      | Some g \<Rightarrow> Inr \<lparr>isSubsetsimComplete = False, ap_bh_counter = 0,
          tldata = init_threads n tlqs heap, MaxNumActiveThreads = n, seg = g\<rparr>)"

definition unload :: "(segment \<Rightarrow> int) \<Rightarrow> shm \<Rightarrow> bool" where
  "unload shmdt s = (shmdt (seg s) > -1)"

text \<open>The destructor frees the local queues of all threads, then detaches: the list of frees
  and the status it ignores.\<close>

definition Shm_delete :: "(segment \<Rightarrow> int) \<Rightarrow> shm \<Rightarrow> nat list \<times> int" where
  "Shm_delete shmdt s = ([0..<MaxNumActiveThreads s], shmdt (seg s))"

lemma fold_init_threads:
  "k \<le> n \<Longrightarrow> fold (\<lambda>t td. td(t := (td t)\<lparr>tlqsize := 0, td_in := 0, td_out := 0, td_sum := 0,
      tlq := tlqs t, td_shm := td_shm (td 0) + (COUNT + 5) * t\<rparr>)) [0..<k]
      (heap(0 := (heap 0)\<lparr>td_shm := 0\<rparr>))
   = (\<lambda>t. if t < k then (heap t)\<lparr>tlqsize := 0, td_in := 0, td_out := 0, td_sum := 0,
            tlq := tlqs t, td_shm := (COUNT + 5) * t\<rparr>
          else (heap(0 := (heap 0)\<lparr>td_shm := 0\<rparr>)) t)"
  by (induction k) (auto simp: fun_eq_iff less_Suc_eq)

lemma init_threads_eq:
  "t < n \<Longrightarrow> init_threads n tlqs heap t =
     (heap t)\<lparr>tlqsize := 0, td_in := 0, td_out := 0, td_sum := 0, tlq := tlqs t,
              td_shm := (COUNT + 5) * t\<rparr>"
  unfolding init_threads_def by (subst fold_init_threads [OF order_refl]) simp

end
