(* ===== verification/ShmQueue.thy ===== *)
theory ShmQueue
  imports Shm
begin

text \<open>
  What the emulator side of the channel does, seen as operations on two lists: the packets waiting
  in a thread's local queue and the packets in its shared ring.  \<open>chan\<close> is the abstract
  channel with the operations \<open>spec_flush\<close>, \<open>spec_send\<close>, \<open>spec_finish\<close>;
  \<open>chan_inv\<close> ties the indices of \<open>thread_data\<close>, the queue size in the segment and
  the reader's position together; the refinement lemmas say that each operation of
  \<open>shmem.cc\<close> is its specification under the abstraction \<open>abs_chan\<close>.
\<close>

section \<open>The abstract channel\<close>

record chan =
  ch_done :: bool
  ch_local :: "packet list"
  ch_shared :: "packet list"
  ch_total :: u64
  ch_sum :: u64

definition spec_flush :: "chan \<Rightarrow> chan \<times> int" where
  "spec_flush c =
     (if ch_done c \<or> length (ch_shared c) = COUNT then (c, -1)
      else let k = min (COUNT - length (ch_shared c)) (length (ch_local c)) in
        (c\<lparr>ch_local := drop k (ch_local c),
           ch_shared := ch_shared c @ take k (ch_local c),
           ch_total := ch_total c + of_nat k,
           ch_sum := ch_sum c + sum_list (map pk_value (take k (ch_local c)))\<rparr>, 0))"

definition spec_push :: "packet \<Rightarrow> chan \<Rightarrow> chan" where
  "spec_push p c = c\<lparr>ch_local := ch_local c @ [p]\<rparr>"

definition spec_send :: "packet \<Rightarrow> chan \<Rightarrow> chan \<times> int" where
  "spec_send p c =
     (if length (ch_local c) = locQ then
        (case spec_flush c of (c', r) \<Rightarrow> if r = -1 then (c', -1) else (spec_push p c', 0))
      else (spec_push p c, 0))"

section \<open>Abstraction and invariant\<close>

abbreviation region :: "segment \<Rightarrow> nat \<Rightarrow> (nat \<Rightarrow> packet)" where
  "region g b \<equiv> (\<lambda>i. g (b + i))"

definition qsize :: "shm \<Rightarrow> nat \<Rightarrow> nat" where
  "qsize s tid = unat (pk_value (seg s (td_shm (tldata s tid) + COUNT)))"

definition local_view :: "thread_data \<Rightarrow> packet list" where
  "local_view td = ring_read locQ (tlq td) (unat (td_out td)) (unat (tlqsize td))"

definition shared_view :: "shm \<Rightarrow> nat \<Rightarrow> nat \<Rightarrow> packet list" where
  "shared_view s tid rl = ring_read COUNT (region (seg s) (td_shm (tldata s tid))) rl (qsize s tid)"

definition abs_chan :: "shm \<Rightarrow> nat \<Rightarrow> nat \<Rightarrow> chan" where
  "abs_chan s tid rl = \<lparr>ch_done = isSubsetsimComplete s, ch_local = local_view (tldata s tid),
     ch_shared = shared_view s tid rl, ch_total = tot_prod (tldata s tid),
     ch_sum = td_sum (tldata s tid)\<rparr>"

text \<open>The local queue: at most \<open>locQ\<close> packets, \<open>in\<close> that many places after \<open>out\<close>.\<close>

definition td_inv :: "thread_data \<Rightarrow> bool" where
  "td_inv td \<longleftrightarrow> unat (tlqsize td) \<le> locQ \<and> unat (td_out td) < locQ
     \<and> unat (td_in td) = (unat (td_out td) + unat (tlqsize td)) mod locQ"

text \<open>The shared ring: \<open>prod_ptr\<close> is the queue size after the reader's position \<open>rl\<close>.\<close>

definition chan_inv :: "shm \<Rightarrow> nat \<Rightarrow> nat \<Rightarrow> bool" where
  "chan_inv s tid rl \<longleftrightarrow> td_inv (tldata s tid) \<and> qsize s tid \<le> COUNT \<and> rl < COUNT
     \<and> unat (prod_ptr (tldata s tid)) = (rl + qsize s tid) mod COUNT"

lemma COUNT_pos [simp]: "0 < COUNT" by (simp add: COUNT_def)
lemma locQ_pos [simp]: "0 < locQ" by (simp add: locQ_def)
lemma unat_COUNT [simp]: "unat (of_nat COUNT :: u32) = COUNT" by (simp add: COUNT_def)
lemma unat_locQ [simp]: "unat (of_nat locQ :: u32) = locQ" by (simp add: locQ_def)
lemma COUNT_less: "COUNT < 2 ^ 31" by (simp add: COUNT_def)
lemma locQ_less: "locQ < 2 ^ 31" by (simp add: locQ_def)

lemma length_local_view [simp]: "length (local_view td) = unat (tlqsize td)"
  by (simp add: local_view_def)

lemma length_shared_view [simp]: "length (shared_view s tid rl) = qsize s tid"
  by (simp add: shared_view_def)

section \<open>Cells\<close>

named_theorems cells \<open>reading a cell after a store\<close>

lemma set_value_cell [cells]:
  "set_value g i v c = (if c = i then (g c)\<lparr>pk_value := v\<rparr> else g c)"
  by (simp add: set_value_def)

lemma get_lock_cell [cells]:
  "c \<noteq> b + COUNT + 1 \<Longrightarrow> c \<noteq> b + COUNT + 3 \<Longrightarrow> get_lock g b c = g c"
  by (simp add: get_lock_def cells)

lemma release_lock_cell [cells]: "c \<noteq> b + COUNT + 1 \<Longrightarrow> release_lock g b c = g c"
  by (simp add: release_lock_def cells)

lemma region_cong:
  "(\<And>i. i < COUNT \<Longrightarrow> g (b + i) = g' (b + i)) \<Longrightarrow>
     ring_read COUNT (region g b) rl n = ring_read COUNT (region g' b) rl n"
  by (rule ring_read_cong) simp

section \<open>The copying loop is a ring write\<close>

lemma copy_loop_0: "copy_loop td 0 g = (g, td_sum td)"
  by (simp add: copy_loop_def)

lemma copy_loop_Suc:
  "copy_loop td (Suc k) g =
    (let p = tlq td (unat ((td_out td + of_nat k) mod of_nat locQ)) in
     ((fst (copy_loop td k g))
        (td_shm td + unat ((prod_ptr td + of_nat k) mod of_nat COUNT) := p),
      snd (copy_loop td k g) + pk_value p))"
  by (simp add: copy_loop_def Let_def split: prod.splits)

lemma copy_loop_eq:
  assumes "unat (td_out td) < locQ" "unat (prod_ptr td) < COUNT" "k \<le> locQ"
  shows "region (fst (copy_loop td k g)) (td_shm td) =
           ring_write COUNT (region g (td_shm td)) (unat (prod_ptr td))
             (ring_read locQ (tlq td) (unat (td_out td)) k)
       \<and> (\<forall>c. c < td_shm td \<or> td_shm td + COUNT \<le> c \<longrightarrow> fst (copy_loop td k g) c = g c)
       \<and> snd (copy_loop td k g) =
           td_sum td + sum_list (map pk_value (ring_read locQ (tlq td) (unat (td_out td)) k))"
  using assms(3)
proof (induction k)
  case 0
  then show ?case by (simp add: copy_loop_0)
next
  case (Suc k)
  have o: "unat ((td_out td + of_nat k) mod of_nat locQ) = (unat (td_out td) + k) mod locQ"
    using assms(1) Suc.prems by (subst unat_ring_index) (auto simp: locQ_def)
  have p: "unat ((prod_ptr td + of_nat k) mod of_nat COUNT) = (unat (prod_ptr td) + k) mod COUNT"
    using assms(2) Suc.prems by (subst unat_ring_index) (auto simp: COUNT_def locQ_def)
  have b: "\<not> COUNT \<le> (unat (prod_ptr td) + k) mod COUNT" by (simp add: not_le)
  from Suc show ?case
    by (auto simp: copy_loop_Suc Let_def o p ring_read_Suc ring_write_snoc fun_eq_iff b)
qed

section \<open>shmwrite refines spec\_flush\<close>

text \<open>The number of free cells, as the code computes it in 32 bits.\<close>

lemma read_qsize_get_lock:
  assumes "qsize s tid \<le> COUNT"
  defines "b \<equiv> td_shm (tldata s tid)"
  shows "unat (read_qsize (get_lock (seg s) b) b) = qsize s tid"
    and "unat (of_nat COUNT - read_qsize (get_lock (seg s) b) b) = COUNT - qsize s tid"
    and "of_nat COUNT = read_qsize (get_lock (seg s) b) b \<longleftrightarrow> qsize s tid = COUNT"
proof -
  show q: "unat (read_qsize (get_lock (seg s) b) b) = qsize s tid"
    using assms by (simp add: qsize_def read_qsize_def cells unat_ucast_small COUNT_def)
  show "unat (of_nat COUNT - read_qsize (get_lock (seg s) b) b) = COUNT - qsize s tid"
    using assms(1) by (subst unat_diff_le) (simp_all add: word_le_nat_alt q)
  show "of_nat COUNT = read_qsize (get_lock (seg s) b) b \<longleftrightarrow> qsize s tid = COUNT"
    using q by (metis unat_COUNT of_nat_unat)
qed

text \<open>No room, or the subset is complete: only the lock cells change.\<close>

lemma shmwrite_refused:
  assumes "qsize s tid \<le> COUNT" "isSubsetsimComplete s \<or> qsize s tid = COUNT"
  shows "shmwrite s tid fin n =
    (if isSubsetsimComplete s then s
     else s\<lparr>seg := release_lock (get_lock (seg s) (td_shm (tldata s tid))) (td_shm (tldata s tid))\<rparr>, -1)"
  using assms read_qsize_get_lock(3) [OF assms(1)] by (auto simp: shmwrite_def Let_def)

lemma lock_only_abs:
  assumes "s' = s\<lparr>seg := release_lock (get_lock (seg s) (td_shm (tldata s tid))) (td_shm (tldata s tid))\<rparr>"
  shows "abs_chan s' tid rl = abs_chan s tid rl" "chan_inv s' tid rl = chan_inv s tid rl"
proof -
  have q: "qsize s' tid = qsize s tid"
    using assms by (simp add: qsize_def cells)
  have "shared_view s' tid rl = shared_view s tid rl"
    unfolding shared_view_def q using assms by (auto simp: cells intro: region_cong)
  then show "abs_chan s' tid rl = abs_chan s tid rl"
    using assms by (simp add: abs_chan_def)
  show "chan_inv s' tid rl = chan_inv s tid rl"
    unfolding chan_inv_def q using assms by simp
qed

text \<open>Some room: the outcome of the write, its 32-bit arithmetic resolved.\<close>

lemma shmwrite_data:
  assumes inv: "chan_inv s tid rl" and nd: "\<not> isSubsetsimComplete s" and room: "qsize s tid < COUNT"
  defines "td \<equiv> tldata s tid"
  defines "b \<equiv> td_shm td"
  defines "k \<equiv> min (COUNT - qsize s tid) (unat (tlqsize td))"
  shows "\<exists>g td'. shmwrite s tid 0 n = (s\<lparr>seg := g, tldata := (tldata s)(tid := td')\<rparr>, 0)
    \<and> td' = td\<lparr>td_sum := td_sum td + sum_list (map pk_value (take k (local_view td))),
              td_out := of_nat ((unat (td_out td) + k) mod locQ), tlqsize := tlqsize td - of_nat k,
              prod_ptr := of_nat ((unat (prod_ptr td) + k) mod COUNT), tot_prod := tot_prod td + of_nat k\<rparr>
    \<and> unat (pk_value (g (b + COUNT))) = qsize s tid + k
    \<and> pk_value (g (b + COUNT + 4)) = tot_prod td + of_nat k
    \<and> (\<forall>i < COUNT. g (b + i) =
          ring_write COUNT (region (seg s) b) (unat (prod_ptr td)) (take k (local_view td)) i)
    \<and> (\<forall>c. c < b \<or> b + COUNT + 5 \<le> c \<longrightarrow> g c = seg s c)"
proof -
  define g0 where "g0 = get_lock (seg s) b"
  define f where "f = of_nat COUNT - read_qsize g0 b"
  define nw where "nw = (if f < tlqsize td then f else tlqsize td)"
  define g1 where "g1 = fst (copy_loop td (unat nw) g0)"
  have tdi: "unat (tlqsize td) \<le> locQ" "unat (td_out td) < locQ" "unat (prod_ptr td) < COUNT"
    using inv by (auto simp: chan_inv_def td_inv_def td_def)
  have q: "qsize s tid \<le> COUNT" using room by simp
  have uf: "unat f = COUNT - qsize s tid"
    using read_qsize_get_lock(2) [OF q] by (simp add: f_def g0_def b_def td_def)
  have f0: "f \<noteq> 0" using uf room by auto
  have uk: "unat nw = k"
    using uf by (simp add: nw_def k_def word_less_nat_alt min_def)
  have nwk: "nw = of_nat k" using uk by (metis of_nat_unat)
  have kq: "k \<le> locQ" "k \<le> unat (tlqsize td)" "qsize s tid + k \<le> COUNT"
    using tdi(1) room by (auto simp: k_def)
  have lv: "ring_read locQ (tlq td) (unat (td_out td)) k = take k (local_view td)"
    using kq(2) by (simp add: local_view_def take_ring_read min_absorb1)
  note copy = copy_loop_eq [OF tdi(2,3) kq(1), of g0, unfolded lv, folded b_def]
  have g1: "fst (copy_loop td k g0) = g1" by (simp add: g1_def uk)
  have cl: "copy_loop td k g0 = (g1, td_sum td + sum_list (map pk_value (take k (local_view td))))"
    using copy g1 by (intro prod_eqI) simp_all
  have "unat ((td_out td + nw) mod of_nat locQ) = (unat (td_out td) + k) mod locQ"
    using kq(1) tdi(2) by (subst unat_ring_advance) (auto simp: uk locQ_def)
  then have out: "(td_out td + nw) mod of_nat locQ = of_nat ((unat (td_out td) + k) mod locQ)"
    by (metis of_nat_unat)
  have "unat ((prod_ptr td + nw) mod of_nat COUNT) = (unat (prod_ptr td) + k) mod COUNT"
    using kq(1) tdi(3) by (subst unat_ring_advance) (auto simp: uk COUNT_def locQ_def)
  then have prod: "(prod_ptr td + nw) mod of_nat COUNT = of_nat ((unat (prod_ptr td) + k) mod COUNT)"
    by (metis of_nat_unat)
  have g1c: "g1 (b + COUNT + j) = g0 (b + COUNT + j)" for j
    using copy g1 by simp
  define qs where "qs = read_qsize g1 b + nw"
  have uq: "unat qs = qsize s tid + k"
    using read_qsize_get_lock(1) [OF q] g1c [of 0] kq uk unfolding qs_def
    by (subst unat_add_small) (simp_all add: g0_def b_def td_def COUNT_def read_qsize_def)
  define g where "g = release_lock (set_value (set_value g1 (b + COUNT) (scast qs))
                        (b + COUNT + 4) (tot_prod td + of_nat k)) b"
  have cnw: "ucast nw = (of_nat k :: u64)"
    using kq(1) by (intro word_unat_eqI) (simp add: nwk unat_ucast_small unat_of_nat_small locQ_def)
  have "shmwrite s tid 0 n = (s\<lparr>seg := g, tldata := (tldata s)(tid := td\<lparr>
      td_sum := td_sum td + sum_list (map pk_value (take k (local_view td))),
      td_out := of_nat ((unat (td_out td) + k) mod locQ), tlqsize := tlqsize td - of_nat k,
      prod_ptr := of_nat ((unat (prod_ptr td) + k) mod COUNT),
      tot_prod := tot_prod td + of_nat k\<rparr>)\<rparr>, 0)"
    using nd f0 out prod cnw nwk uk
    unfolding shmwrite_def Let_def td_def [symmetric] b_def [symmetric] g0_def [symmetric]
      f_def [symmetric] nw_def [symmetric] g_def qs_def
    by (simp add: cl)
  moreover have "unat (pk_value (g (b + COUNT))) = qsize s tid + k"
    using uq kq by (simp add: g_def cells unat_scast_small COUNT_def)
  moreover have "pk_value (g (b + COUNT + 4)) = tot_prod td + of_nat k"
    by (simp add: g_def cells)
  moreover have "\<forall>i < COUNT. g (b + i) =
      ring_write COUNT (region (seg s) b) (unat (prod_ptr td)) (take k (local_view td)) i"
  proof (intro allI impI)
    fix i assume i: "i < COUNT"
    then have "g (b + i) = region g1 b i" by (simp add: g_def cells)
    also have "\<dots> = ring_write COUNT (region g0 b) (unat (prod_ptr td)) (take k (local_view td)) i"
      using fun_cong [OF conjunct1 [OF copy], of i] g1 by simp
    also have "\<dots> = ring_write COUNT (region (seg s) b) (unat (prod_ptr td)) (take k (local_view td)) i"
      using i by (intro ring_write_cong) (simp add: g0_def cells)
    finally show "g (b + i) = \<dots>" .
  qed
  moreover have "\<forall>c. c < b \<or> b + COUNT + 5 \<le> c \<longrightarrow> g c = seg s c"
    using copy g1 by (auto simp: g_def g0_def cells)
  ultimately show ?thesis by blast
qed

lemma shmwrite_refines:
  assumes inv: "chan_inv s tid rl" and w: "shmwrite s tid 0 n = (s', r)"
  shows "spec_flush (abs_chan s tid rl) = (abs_chan s' tid rl, r) \<and> chan_inv s' tid rl"
proof (cases "isSubsetsimComplete s \<or> qsize s tid = COUNT")
  case True
  have q: "qsize s tid \<le> COUNT" using inv by (simp add: chan_inv_def)
  from w shmwrite_refused [OF q True, of 0 n] lock_only_abs inv True show ?thesis
    by (auto simp: spec_flush_def abs_chan_def split: if_splits)
next
  case False
  define td where "td = tldata s tid"
  define k where "k = min (COUNT - qsize s tid) (unat (tlqsize td))"
  from False inv have nd: "\<not> isSubsetsimComplete s" and room: "qsize s tid < COUNT"
    by (auto simp: chan_inv_def)
  from shmwrite_data [OF inv nd room, of n] w obtain g td'
    where s': "s' = s\<lparr>seg := g, tldata := (tldata s)(tid := td')\<rparr>" and r: "r = 0"
      and td': "td' = td\<lparr>td_sum := td_sum td + sum_list (map pk_value (take k (local_view td))),
              td_out := of_nat ((unat (td_out td) + k) mod locQ), tlqsize := tlqsize td - of_nat k,
              prod_ptr := of_nat ((unat (prod_ptr td) + k) mod COUNT), tot_prod := tot_prod td + of_nat k\<rparr>"
      and q': "unat (pk_value (g (td_shm td + COUNT))) = qsize s tid + k"
      and ring: "\<And>i. i < COUNT \<Longrightarrow> g (td_shm td + i) = ring_write COUNT (region (seg s) (td_shm td))
                  (unat (prod_ptr td)) (take k (local_view td)) i"
    by (auto simp: td_def k_def)
  have tdi: "unat (tlqsize td) \<le> locQ" "unat (td_out td) < locQ" "rl < COUNT"
      "unat (td_in td) = (unat (td_out td) + unat (tlqsize td)) mod locQ"
      "unat (prod_ptr td) = (rl + qsize s tid) mod COUNT"
    using inv by (auto simp: chan_inv_def td_inv_def td_def)
  have k: "k \<le> unat (tlqsize td)" "qsize s tid + k \<le> COUNT" using room by (auto simp: k_def)
  have k32: "unat (of_nat k :: u32) = k"
    using k(1) tdi(1) by (intro unat_of_nat_small) (simp add: locQ_def)
  have small: "unat (of_nat (m mod locQ) :: u32) = m mod locQ"
      "unat (of_nat (m mod COUNT) :: u32) = m mod COUNT" for m
    by (simp_all add: unat_of_nat_small locQ_def COUNT_def less_trans [OF mod_less_divisor])
  have tlq': "unat (tlqsize td') = unat (tlqsize td) - k"
    using k(1) by (simp add: td' unat_diff_le word_le_nat_alt k32)
  have out': "unat (td_out td') = (unat (td_out td) + k) mod locQ"
    by (simp add: td' small)
  have q's: "qsize s' tid = qsize s tid + k"
    using q' by (simp add: qsize_def s' td')
  have prod': "unat (prod_ptr td') = (rl + (qsize s tid + k)) mod COUNT"
    by (simp add: td' small tdi(5) mod_simps add.assoc)
  have in': "unat (td_in td') = ((unat (td_out td) + k) mod locQ + (unat (tlqsize td) - k)) mod locQ"
    using k(1) by (subst mod_add_left_eq) (simp add: td' tdi(4))
  have tds: "tldata s' tid = td'" by (simp add: s')
  have "chan_inv s' tid rl"
    unfolding chan_inv_def td_inv_def q's tds tlq' out' prod' in' using tdi k by simp
  moreover have "local_view td' = drop k (local_view td)"
    unfolding local_view_def drop_ring_read tlq' out' by (simp add: ring_read_mod_start td')
  moreover have "shared_view s' tid rl = shared_view s tid rl @ take k (local_view td)"
  proof -
    have "shared_view s' tid rl = ring_read COUNT (ring_write COUNT (region (seg s) (td_shm td))
        (rl + qsize s tid) (take k (local_view td))) rl (qsize s tid + k)"
      unfolding shared_view_def q's
      by (rule ring_read_cong) (simp add: s' td' ring tdi(5) ring_write_mod_start)
    also have "\<dots> = shared_view s tid rl @ take k (local_view td)"
      using ring_read_write [of "qsize s tid" "take k (local_view td)" COUNT] k
      by (simp add: shared_view_def td_def min_absorb1)
    finally show ?thesis .
  qed
  ultimately show ?thesis
    using nd room
    by (simp add: spec_flush_def abs_chan_def s' r Let_def td_def [symmetric] k_def [symmetric])
       (simp add: td')
qed

text \<open>A write stays inside the region of its thread, whatever the indices hold.\<close>

lemma ring_cell_less: "unat (x mod of_nat COUNT :: u32) < COUNT"
  by (simp add: unat_mod_distrib)

lemma copy_loop_frame:
  "c < td_shm td \<or> td_shm td + COUNT \<le> c \<Longrightarrow> fst (copy_loop td k g) c = g c"
proof (induction k)
  case (Suc k)
  have "c \<noteq> td_shm td + unat ((prod_ptr td + of_nat k) mod of_nat COUNT :: u32)"
    using Suc.prems ring_cell_less [of "prod_ptr td + of_nat k"] by auto
  with Suc show ?case by (simp add: copy_loop_Suc Let_def)
qed (simp add: copy_loop_0)

lemma write_last_frame:
  "c < td_shm td \<or> td_shm td + COUNT \<le> c \<Longrightarrow> write_last td code n g c = g c"
  using ring_cell_less [of "prod_ptr td"] by (auto simp: write_last_def Let_def)

lemma shmwrite_frame:
  assumes "shmwrite s tid fin n = (s', r)"
    "c < td_shm (tldata s tid) \<or> td_shm (tldata s tid) + COUNT + 5 \<le> c"
  shows "seg s' c = seg s c"
proof -
  have "fst (copy_loop (tldata s tid) k (get_lock (seg s) b)) c = get_lock (seg s) b c" for k b
    using assms(2) by (intro copy_loop_frame) auto
  moreover have "write_last (tldata s tid) code n (get_lock (seg s) b) c = get_lock (seg s) b c" for code b
    using assms(2) by (intro write_last_frame) auto
  ultimately show ?thesis
    using assms by (auto simp: shmwrite_def Let_def cells case_prod_beta split: if_splits)
qed

lemma shmwrite_other_thread:
  "shmwrite s tid fin n = (s', r) \<Longrightarrow> t \<noteq> tid \<Longrightarrow> tldata s' t = tldata s t"
  by (auto simp: shmwrite_def Let_def split: if_splits prod.splits)

section \<open>analysisFn refines spec\_send\<close>

lemma log_packet_refines:
  fixes i v a :: u64
  assumes inv: "chan_inv s tid rl" and room: "tlqsize (tldata s tid) \<noteq> of_nat locQ"
  defines "s' \<equiv> log_packet s tid i v a"
  shows "abs_chan s' tid rl = spec_push (mk_packet i v a) (abs_chan s tid rl)" "chan_inv s' tid rl"
proof -
  define td where "td = tldata s tid"
  define td' where "td' = tldata s' tid"
  have tdi: "unat (tlqsize td) \<le> locQ" "unat (td_out td) < locQ"
      "unat (td_in td) = (unat (td_out td) + unat (tlqsize td)) mod locQ"
    using inv by (auto simp: chan_inv_def td_inv_def td_def)
  have lt: "unat (tlqsize td) < locQ"
    using tdi(1) room unat_locQ by (metis le_neq_implies_less td_def of_nat_unat)
  have td'_eq: "td' = td\<lparr>tlq := (tlq td)(unat (td_in td) := mk_packet i v a),
      td_in := (td_in td + 1) mod of_nat locQ, tlqsize := tlqsize td + 1\<rparr>"
    by (simp add: td'_def s'_def log_packet_def Let_def shm_debug_queue_def td_def)
  have size': "unat (tlqsize td') = Suc (unat (tlqsize td))"
    using lt by (simp add: td'_eq unat_add_small locQ_def)
  have in_lt: "unat (td_in td) < locQ" by (simp add: tdi(3))
  have in': "unat (td_in td') = (unat (td_out td) + Suc (unat (tlqsize td))) mod locQ"
    using in_lt unat_ring_advance [of "td_in td" 1 "of_nat locQ"]
    by (simp add: td'_eq locQ_def tdi(3) mod_simps)
  have view: "local_view td' = local_view td @ [mk_packet i v a]"
  proof -
    have "local_view td' = ring_read locQ (ring_write locQ (tlq td)
        (unat (td_out td) + unat (tlqsize td)) [mk_packet i v a]) (unat (td_out td)) (unat (tlqsize td) + 1)"
      unfolding local_view_def size' by (simp add: ring_write_def td'_eq tdi(3))
    then show ?thesis
      using ring_read_write [of "unat (tlqsize td)" "[mk_packet i v a]" locQ] lt
      by (simp add: local_view_def)
  qed
  have rest: "qsize s' tid = qsize s tid" "shared_view s' tid rl = shared_view s tid rl"
      "isSubsetsimComplete s' = isSubsetsimComplete s" "tldata s' tid = td'"
    by (simp_all add: qsize_def shared_view_def td'_def s'_def log_packet_def Let_def shm_debug_queue_def)
  show "abs_chan s' tid rl = spec_push (mk_packet i v a) (abs_chan s tid rl)"
    using view by (simp add: abs_chan_def spec_push_def rest td_def [symmetric]) (simp add: td'_eq)
  show "chan_inv s' tid rl"
    using inv lt tdi unfolding chan_inv_def td_inv_def rest size' in'
    by (simp add: td_def [symmetric]) (simp add: td'_eq)
qed

lemma analysisFn_refines:
  assumes inv: "chan_inv s tid rl" and w: "analysisFn s tid i v a = (s', r)"
  shows "spec_send (mk_packet i v a) (abs_chan s tid rl) = (abs_chan s' tid rl, r) \<and> chan_inv s' tid rl"
proof (cases "tlqsize (tldata s tid) = of_nat locQ")
  case False
  then have "length (ch_local (abs_chan s tid rl)) \<noteq> locQ"
    by (auto simp: abs_chan_def dest: arg_cong [of _ _ "of_nat :: nat \<Rightarrow> u32"])
  with False w log_packet_refines [OF inv False, of i v a] show ?thesis
    by (auto simp: analysisFn_def spec_send_def)
next
  case True
  obtain s1 r1 where w1: "shmwrite s tid 0 (-1) = (s1, r1)" by fastforce
  from shmwrite_refines [OF inv w1]
  have 1: "spec_flush (abs_chan s tid rl) = (abs_chan s1 tid rl, r1)" "chan_inv s1 tid rl" by auto
  have full: "length (ch_local (abs_chan s tid rl)) = locQ"
    using True by (simp add: abs_chan_def)
  show ?thesis
  proof (cases "r1 = -1")
    case True
    with w w1 1 full \<open>tlqsize _ = _\<close> show ?thesis
      by (auto simp: analysisFn_def spec_send_def)
  next
    case False
    then have ne: "tlqsize (tldata s1 tid) \<noteq> of_nat locQ"
      using shmwrite_decreases [OF w1 False] True by (auto simp: locQ_def)
    from w w1 False True have "s' = log_packet s1 tid i v a" "r = 0"
      by (auto simp: analysisFn_def)
    with log_packet_refines [OF 1(2) ne, of i v a] 1 False full show ?thesis
      by (auto simp: spec_send_def)
  qed
qed

section \<open>The final packets\<close>

text \<open>\<open>shmwrite(tid, 1, n)\<close> and \<open>shmwrite(tid, 2, n)\<close> append one packet to the shared ring:
  its code and count are given, its third word is what the cell held before.\<close>

definition final_packet :: "int \<Rightarrow> u64 \<Rightarrow> packet \<Rightarrow> bool" where
  "final_packet code n p \<longleftrightarrow> pk_value p = enc code \<and> pk_ip p = n"

lemma write_last_eq:
  fixes n :: u64 and g :: segment and code :: int
  assumes "unat (prod_ptr td) < COUNT"
  defines "p \<equiv> (g (td_shm td + unat (prod_ptr td)))\<lparr>pk_value := enc code, pk_ip := n\<rparr>"
  shows "region (write_last td code n g) (td_shm td) =
           ring_write COUNT (region g (td_shm td)) (unat (prod_ptr td)) [p]"
proof -
  have "unat (prod_ptr td mod of_nat COUNT) = unat (prod_ptr td)"
    using assms(1) by (simp add: unat_mod_distrib)
  then show ?thesis
    using assms(1) by (simp add: write_last_def Let_def ring_write_def p_def fun_eq_iff)
qed

lemma shmwrite_final:
  assumes inv: "chan_inv s tid rl" and nd: "\<not> isSubsetsimComplete s" and room: "qsize s tid < COUNT"
    and fin: "fin = 1 \<and> code = THREADCOMPLETE \<or> fin = 2 \<and> code = SUBSETSIMCOMPLETE"
  shows "\<exists>s' p. shmwrite s tid fin n = (s', 0) \<and> final_packet code n p \<and> chan_inv s' tid rl
    \<and> abs_chan s' tid rl = (abs_chan s tid rl)\<lparr>ch_shared := ch_shared (abs_chan s tid rl) @ [p],
         ch_total := ch_total (abs_chan s tid rl) + 1\<rparr>"
proof -
  define td where "td = tldata s tid"
  define b where "b = td_shm td"
  define g0 where "g0 = get_lock (seg s) b"
  define g1 where "g1 = write_last td code n g0"
  define qs where "qs = read_qsize g1 b + 1"
  define g where "g = release_lock (set_value (set_value g1 (b + COUNT) (scast qs))
                        (b + COUNT + 4) (tot_prod td + 1)) b"
  define td' where "td' = td\<lparr>prod_ptr := (prod_ptr td + 1) mod of_nat COUNT, tot_prod := tot_prod td + 1\<rparr>"
  define s' where "s' = s\<lparr>seg := g, tldata := (tldata s)(tid := td')\<rparr>"
  define p where "p = (g0 (b + unat (prod_ptr td)))\<lparr>pk_value := enc code, pk_ip := n\<rparr>"
  have q: "qsize s tid \<le> COUNT" using room by simp
  have pl: "unat (prod_ptr td) < COUNT" "unat (prod_ptr td) = (rl + qsize s tid) mod COUNT" "rl < COUNT"
    using inv by (auto simp: chan_inv_def td_def)
  have ne: "of_nat COUNT \<noteq> read_qsize g0 b"
    using read_qsize_get_lock(3) [OF q] room by (simp add: g0_def b_def td_def)
  have w: "shmwrite s tid fin n = (s', 0)"
    using fin nd ne
    unfolding shmwrite_def Let_def td_def [symmetric] b_def [symmetric] g0_def [symmetric]
    by (auto simp: s'_def g_def qs_def g1_def td'_def)
  have g1c: "g1 (b + COUNT + j) = g0 (b + COUNT + j)" for j
    using write_last_frame [of "b + COUNT + j" td code n g0] by (simp add: g1_def b_def)
  have uq: "unat qs = qsize s tid + 1"
    using read_qsize_get_lock(1) [OF q] g1c [of 0] room unfolding qs_def
    by (subst unat_add_small) (simp_all add: g0_def b_def td_def COUNT_def read_qsize_def)
  have q': "qsize s' tid = qsize s tid + 1"
    using uq room by (simp add: qsize_def s'_def td'_def g_def cells unat_scast_small COUNT_def b_def [symmetric])
  have prod': "unat (prod_ptr td') = (rl + (qsize s tid + 1)) mod COUNT"
    using pl unat_ring_advance [of "prod_ptr td" 1 "of_nat COUNT"]
    by (simp add: td'_def COUNT_def mod_simps)
  have ci: "chan_inv s' tid rl"
    using inv room prod' unfolding chan_inv_def q' td_inv_def
    by (simp add: s'_def) (simp add: td'_def td_def)
  have ring: "g (b + i) = ring_write COUNT (region (seg s) b) (rl + qsize s tid) [p] i" if "i < COUNT" for i
  proof -
    have "g (b + i) = region g1 b i" using that by (simp add: g_def cells)
    also have "\<dots> = ring_write COUNT (region g0 b) (unat (prod_ptr td)) [p] i"
      using fun_cong [OF write_last_eq [OF pl(1), of code n g0], of i] by (simp add: g1_def b_def p_def)
    also have "\<dots> = ring_write COUNT (region (seg s) b) (unat (prod_ptr td)) [p] i"
      using that by (intro ring_write_cong) (simp add: g0_def cells)
    finally show ?thesis by (simp add: pl(2) ring_write_mod_start)
  qed
  have sv: "shared_view s' tid rl = shared_view s tid rl @ [p]"
  proof -
    have "shared_view s' tid rl = ring_read COUNT (ring_write COUNT (region (seg s) b)
        (rl + qsize s tid) [p]) rl (qsize s tid + 1)"
      unfolding shared_view_def q' by (rule ring_read_cong) (simp add: s'_def td'_def ring b_def [symmetric])
    also have "\<dots> = shared_view s tid rl @ [p]"
      using ring_read_write [of "qsize s tid" "[p]" COUNT] room
      by (simp add: shared_view_def td_def b_def)
    finally show ?thesis .
  qed
  have "abs_chan s' tid rl = (abs_chan s tid rl)\<lparr>ch_shared := ch_shared (abs_chan s tid rl) @ [p],
         ch_total := ch_total (abs_chan s tid rl) + 1\<rparr>"
    using sv by (simp add: abs_chan_def) (simp add: s'_def td'_def td_def local_view_def)
  moreover have "final_packet code n p" by (simp add: final_packet_def p_def)
  ultimately show ?thesis using w ci by blast
qed

section \<open>The stream of a thread\<close>

text \<open>The packets accepted and not yet taken by the reader, oldest first.\<close>

definition stream :: "chan \<Rightarrow> packet list" where
  "stream c = ch_shared c @ ch_local c"

lemma spec_flush_stream:
  "spec_flush c = (c', r) \<Longrightarrow> stream c' = stream c \<and> ch_done c' = ch_done c
     \<and> (r = 0 \<or> r = -1 \<and> c' = c \<and> (ch_done c \<or> length (ch_shared c) = COUNT))"
  by (auto simp: spec_flush_def stream_def Let_def split: if_splits)

lemma spec_flush_moves:
  assumes "spec_flush c = (c', r)" "r \<noteq> -1" "length (ch_shared c) \<le> COUNT"
  shows "length (ch_shared c') \<le> COUNT"
    "ch_local c' = [] \<or> length (ch_shared c') = COUNT"
    "ch_total c' + of_nat (length (ch_shared c)) = ch_total c + of_nat (length (ch_shared c'))"
    "ch_local c \<noteq> [] \<Longrightarrow> length (ch_shared c) < length (ch_shared c')"
  using assms by (auto simp: spec_flush_def Let_def min_def split: if_splits)

lemma spec_send_stream:
  assumes "spec_send p c = (c', r)"
  shows "ch_done c' = ch_done c \<and> (r = 0 \<and> stream c' = stream c @ [p]
     \<or> r = -1 \<and> c' = c \<and> length (ch_local c) = locQ \<and> (ch_done c \<or> length (ch_shared c) = COUNT))"
proof (cases "length (ch_local c) = locQ")
  case True
  obtain d q where d: "spec_flush c = (d, q)" by fastforce
  from spec_flush_stream [OF d] assms True d show ?thesis
    by (auto simp: spec_send_def spec_push_def stream_def split: if_splits)
next
  case False
  with assms show ?thesis by (auto simp: spec_send_def spec_push_def stream_def)
qed

lemma shared_le: "chan_inv s tid rl \<Longrightarrow> length (ch_shared (abs_chan s tid rl)) \<le> COUNT"
  by (simp add: chan_inv_def abs_chan_def)

section \<open>Draining the local queue\<close>

lemma drain_correct:
  assumes "chan_inv s tid rl" "drain s tid = (s', ok)"
  defines "c \<equiv> abs_chan s tid rl" and "c' \<equiv> abs_chan s' tid rl"
  shows "chan_inv s' tid rl \<and> stream c' = stream c \<and> ch_done c' = ch_done c
    \<and> ok = (ch_local c' = []) \<and> (\<not> ok \<longrightarrow> ch_done c \<or> length (ch_shared c') = COUNT)"
  using assms(1,2) unfolding c_def c'_def
proof (induction s tid rule: drain.induct)
  case (1 s tid)
  show ?case
  proof (cases "tlqsize (tldata s tid) = 0")
    case True
    with 1 show ?thesis
      by (subst (asm) drain.simps) (auto simp: abs_chan_def local_view_def)
  next
    case False
    obtain s1 r where w: "shmwrite s tid 0 (-1) = (s1, r)" by fastforce
    from shmwrite_refines [OF 1(2) w]
    have f: "spec_flush (abs_chan s tid rl) = (abs_chan s1 tid rl, r)" and i1: "chan_inv s1 tid rl" by auto
    note st = spec_flush_stream [OF f]
    have ne: "ch_local (abs_chan s tid rl) \<noteq> []"
      using False by (simp add: abs_chan_def unat_gt_0 flip: length_0_conv)
    show ?thesis
    proof (cases "r = -1")
      case True
      then have "drain s tid = (s1, False)"
        using False w by (subst drain.simps) simp
      with 1(3) st i1 True ne show ?thesis by auto
    next
      case r: False
      then have "drain s1 tid = (s', ok)"
        using False w 1(3) by (subst (asm) drain.simps) simp
      from 1(1) [OF False w [symmetric] r i1 this] st show ?thesis by auto
    qed
  qed
qed

text \<open>Draining succeeds exactly when the shared ring has room for the whole local queue.\<close>

lemma drain_succeeds_iff:
  assumes "chan_inv s tid rl" "drain s tid = (s', ok)" "\<not> isSubsetsimComplete s"
  shows "ok \<longleftrightarrow> qsize s tid + unat (tlqsize (tldata s tid)) \<le> COUNT"
proof -
  let ?c = "abs_chan s tid rl" and ?c' = "abs_chan s' tid rl"
  from drain_correct [OF assms(1,2)] assms(3)
  have *: "chan_inv s' tid rl" "stream ?c' = stream ?c" "ok = (ch_local ?c' = [])"
      "\<not> ok \<Longrightarrow> length (ch_shared ?c') = COUNT"
    by (auto simp: abs_chan_def)
  have len: "length (stream ?c) = qsize s tid + unat (tlqsize (tldata s tid))"
    by (simp add: stream_def abs_chan_def)
  have "length (stream ?c') = length (ch_shared ?c') + length (ch_local ?c')"
    by (simp add: stream_def)
  with * len shared_le [OF *(1)] show ?thesis by (cases ok) auto
qed

section \<open>Finishing a thread\<close>

lemma clear_local_noop:
  assumes "local_view (tldata s tid) = []"
  shows "clear_local s tid = s"
proof -
  have "tlqsize (tldata s tid) = 0"
    using assms by (metis length_local_view list.size(3) unat_eq_zero)
  then have "(tldata s tid)\<lparr>tlqsize := 0\<rparr> = tldata s tid" by simp
  then show ?thesis by (simp add: clear_local_def)
qed

lemma finish_refines:
  assumes inv: "chan_inv s tid rl" and fin: "onThread_finish s tid n = (s', r)"
  defines "c \<equiv> abs_chan s tid rl" and "c' \<equiv> abs_chan s' tid rl"
  shows "chan_inv s' tid rl
    \<and> (r = 0 \<and> ch_local c' = [] \<and> (\<exists>p. final_packet THREADCOMPLETE n p \<and> ch_shared c' = stream c @ [p])
       \<or> r = -1 \<and> stream c' = stream c \<and> (ch_done c \<or> length (ch_shared c') = COUNT))"
proof -
  obtain s1 ok where d: "drain s tid = (s1, ok)" by fastforce
  note dc = drain_correct [OF inv d]
  show ?thesis
  proof (cases ok)
    case False
    with d fin dc show ?thesis by (auto simp: onThread_finish_def c_def c'_def)
  next
    case True
    obtain s2 q where w: "shmwrite s1 tid 1 n = (s2, q)" by fastforce
    from dc have i1: "chan_inv s1 tid rl" and loc: "local_view (tldata s1 tid) = []"
      and st: "ch_shared (abs_chan s1 tid rl) = stream c" and dn: "isSubsetsimComplete s1 = ch_done c"
      using True by (auto simp: abs_chan_def stream_def c_def)
    have q1: "qsize s1 tid \<le> COUNT" using i1 by (simp add: chan_inv_def)
    show ?thesis
    proof (cases "isSubsetsimComplete s1 \<or> qsize s1 tid = COUNT")
      case refused: True
      with shmwrite_refused [OF q1 refused, of 1 n] w have q: "q = -1"
        and s2: "abs_chan s2 tid rl = abs_chan s1 tid rl" "chan_inv s2 tid rl"
        using lock_only_abs i1 by (auto split: if_splits)
      with d True w fin have "s' = s2" "r = -1" by (auto simp: onThread_finish_def)
      then have c': "c' = abs_chan s1 tid rl" using s2(1) by (simp add: c'_def)
      have "length (ch_shared c') = qsize s1 tid" by (simp add: c' abs_chan_def)
      moreover have "stream c' = stream c" using dc by (simp add: c' c_def)
      ultimately show ?thesis
        using refused dn s2(2) \<open>s' = s2\<close> \<open>r = -1\<close> by auto
    next
      case False
      then have "\<not> isSubsetsimComplete s1" "qsize s1 tid < COUNT" using q1 by auto
      from shmwrite_final [OF i1 this, of 1 THREADCOMPLETE n] w obtain p
        where q: "q = 0" and p: "final_packet THREADCOMPLETE n p" and i2: "chan_inv s2 tid rl"
          and a2: "abs_chan s2 tid rl = (abs_chan s1 tid rl)\<lparr>ch_shared := ch_shared (abs_chan s1 tid rl) @ [p],
             ch_total := ch_total (abs_chan s1 tid rl) + 1\<rparr>"
        by auto
      have l2: "local_view (tldata s2 tid) = []"
        using arg_cong [OF a2, of ch_local] loc by (simp add: abs_chan_def)
      from d True w q fin have "s' = clear_local s2 tid" "r = 0" by (auto simp: onThread_finish_def)
      then have "s' = s2" by (simp add: clear_local_noop [OF l2])
      with i2 a2 p st loc \<open>r = 0\<close> show ?thesis by (auto simp: c'_def abs_chan_def)
    qed
  qed
qed

lemma finish_stream:
  assumes "chan_inv s tid rl" "onThread_finish s tid n = (s', r)"
  shows "chan_inv s' tid rl
    \<and> (r = 0 \<and> (\<exists>p. final_packet THREADCOMPLETE n p \<and> stream (abs_chan s' tid rl) = stream (abs_chan s tid rl) @ [p])
       \<or> r = -1 \<and> stream (abs_chan s' tid rl) = stream (abs_chan s tid rl))"
  using finish_refines [OF assms] by (auto simp: stream_def)

end
