(* ===== verification/JNIShm.thy ===== *)
theory JNIShm
  imports ShmQueue
begin

text \<open>
  The simulator side of the shared-memory channel: the JNI library
  \<open>communication/shm/JNIShm.c\<close> and the one Java method that drives it, \<open>fetchManyPackets\<close>
  of \<open>SharedMem.java\<close>.  The globals of the library are a record, the attached segment
  (\<open>shmAddress\<close>, or the \<open>pointer\<close> argument, which is the same address) is passed explicitly.
  As in \<open>Shm\<close>, a critical section is one step and the busy-wait of
  \<open>tejas_get_lock\<close> is the subject of \<open>Peterson\<close>.
\<close>

section \<open>Globals and single accesses\<close>

record jni =
  gCOUNT :: nat
  gMaxNumJavaThreads :: nat
  gEmuThreadsPerJavaThread :: nat

definition shmreadvalue :: "jni \<Rightarrow> segment \<Rightarrow> nat \<Rightarrow> nat \<Rightarrow> u64" where
  "shmreadvalue j g tid index = pk_value (g (tid * (gCOUNT j + 5) + index))"

text \<open>\<open>addr[...].value = val\<close> with an \<open>int\<close> on the right: sign extension.\<close>

definition jni_shmwrite :: "jni \<Rightarrow> segment \<Rightarrow> nat \<Rightarrow> nat \<Rightarrow> u32 \<Rightarrow> segment" where
  "jni_shmwrite j g tid index val = set_value g (tid * (gCOUNT j + 5) + index) (scast val)"

definition tejas_get_lock :: "jni \<Rightarrow> segment \<Rightarrow> nat \<Rightarrow> segment" where
  "tejas_get_lock j g tidApp =
     jni_shmwrite j (jni_shmwrite j g tidApp (gCOUNT j + 2) 1) tidApp (gCOUNT j + 3) 0"

definition tejas_release_lock :: "jni \<Rightarrow> segment \<Rightarrow> nat \<Rightarrow> segment" where
  "tejas_release_lock j g tidApp = jni_shmwrite j g tidApp (gCOUNT j + 2) 0"

section \<open>The native methods on the queue\<close>

definition numPacketsAlternate :: "jni \<Rightarrow> segment \<Rightarrow> nat \<Rightarrow> segment \<times> int" where
  "numPacketsAlternate j g tid =
     (let g = tejas_get_lock j g tid;
          size = (ucast (shmreadvalue j g tid (gCOUNT j)) :: u32);
          g = tejas_release_lock j g tid
      in (g, sint size))"

definition tejasUpdateQueueSize :: "jni \<Rightarrow> segment \<Rightarrow> nat \<Rightarrow> u32 \<Rightarrow> segment" where
  "tejasUpdateQueueSize j g tid numPacketsReadFromTheQueue =
     (let g = tejas_get_lock j g tid;
          tejasQueueSize = (ucast (shmreadvalue j g tid (gCOUNT j)) :: u32);
          tejasQueueSize = tejasQueueSize - numPacketsReadFromTheQueue;
          g = jni_shmwrite j g tid (gCOUNT j) tejasQueueSize
      in tejas_release_lock j g tid)"

definition tejasTotalProduced :: "jni \<Rightarrow> segment \<Rightarrow> nat \<Rightarrow> u64" where
  "tejasTotalProduced j g tid = shmreadvalue j g tid (gCOUNT j + 4)"

definition jni_shmread :: "jni \<Rightarrow> segment \<Rightarrow> nat \<Rightarrow> nat \<Rightarrow> packet" where
  "jni_shmread j g tid index =
     (let p = g (tid * (gCOUNT j + 5) + index) in mk_packet (pk_ip p) (pk_value p) (pk_tgt p))"

text \<open>\<open>memcpy\<close> of packets as an array of 64-bit words.\<close>

definition packet_words :: "packet \<Rightarrow> u64 list" where
  "packet_words p = [pk_ip p, pk_value p, pk_tgt p]"

definition copy_words :: "segment \<Rightarrow> nat \<Rightarrow> nat \<Rightarrow> u64 list" where
  "copy_words g i n = concat (map (\<lambda>k. packet_words (g (i + k))) [0..<n])"

text \<open>
  The words handed to Java, in one or two pieces.  An \<open>index\<close> beyond the ring would make the
  length of the first piece negative, \<open>memcpy\<close> then has no defined behaviour: \<open>None\<close>.
\<close>

definition shmreadMult :: "jni \<Rightarrow> segment \<Rightarrow> nat \<Rightarrow> nat \<Rightarrow> nat \<Rightarrow> (segment \<times> u64 list) option" where
  "shmreadMult j g tid index num =
     (let g = tejas_get_lock j g tid;
          orig = tid * (gCOUNT j + 5);
          addr = tid * (gCOUNT j + 5) + index
      in if index + num < gCOUNT j then
           Some (tejas_release_lock j g tid, copy_words g addr num)
         else if index \<le> gCOUNT j then
           (let part1 = gCOUNT j - index; part2 = num - part1 in
            Some (tejas_release_lock j g tid, copy_words g addr part1 @ copy_words g orig part2))
         else None)"

section \<open>Creating, attaching, removing the segment\<close>

text \<open>
  The operating system: a state \<open>'w\<close>, \<open>ftok\<close> a key for an id (-1 on failure), \<open>sget\<close> the
  call \<open>shmget(key, size, flags)\<close> with its \<open>IPC_EXCL\<close> bit (\<open>IPC_CREAT | 0666\<close> is always
  set), \<open>rmid\<close> the call \<open>shmctl(id, IPC_RMID, _)\<close>.
\<close>

definition jni_size :: "nat \<Rightarrow> nat \<Rightarrow> nat \<Rightarrow> int" where
  "jni_size c m e = sint (of_nat (sizeof_packet * (c + 5) * m * e) :: u32)"

definition Java_shmget ::
    "(int \<Rightarrow> int) \<Rightarrow> ('w \<Rightarrow> int \<Rightarrow> int \<Rightarrow> bool \<Rightarrow> 'w \<times> int) \<Rightarrow> ('w \<Rightarrow> int \<Rightarrow> 'w) \<Rightarrow>
     'w \<Rightarrow> nat \<Rightarrow> nat \<Rightarrow> nat \<Rightarrow> int \<Rightarrow> 'w \<times> jni \<times> int" where
  "Java_shmget ftok sget rmid w c m e pid =
     (let size = jni_size c m e;
          j = \<lparr>gCOUNT = c, gMaxNumJavaThreads = m, gEmuThreadsPerJavaThread = e\<rparr>;
          key = ftok pid
      in if key = -1 then (w, j, -1)
         else case sget w key 32 False of (w, shmid) \<Rightarrow>
           let w = (if shmid > 0 then rmid w shmid else w) in
           case sget w key size True of (w, shmid) \<Rightarrow>
             if shmid < 0 then (w, j, -1) else (w, j, shmid))"

text \<open>\<open>shmat\<close>: \<open>None\<close> is the address \<open>-1\<close>; on success the global \<open>shmAddress\<close> is set
  and the address returned.\<close>

definition Java_shmat :: "(int \<Rightarrow> int option) \<Rightarrow> int \<Rightarrow> int \<Rightarrow> int \<times> int" where
  "Java_shmat shmat shmAddress shmid =
     (case shmat shmid of None \<Rightarrow> (shmAddress, -1) | Some a \<Rightarrow> (a, a))"

definition Java_shmd :: "(int \<Rightarrow> int) \<Rightarrow> int \<Rightarrow> int" where
  "Java_shmd shmdt pointer = shmdt pointer"

definition Java_shmdel :: "('w \<Rightarrow> int \<Rightarrow> 'w \<times> int) \<Rightarrow> 'w \<Rightarrow> int \<Rightarrow> 'w \<times> int" where
  "Java_shmdel rmid w shmid = rmid w shmid"

section \<open>SharedMem.fetchManyPackets\<close>

text \<open>The words of the long array, three per packet, as the packets Java enqueues.\<close>

fun unpack :: "u64 list \<Rightarrow> packet list" where
  "unpack (i # v # t # ws) = mk_packet i v t # unpack ws"
| "unpack ws = []"

text \<open>
  \<open>space\<close> is \<open>fromEmulator.spaceLeft()\<close>.  The result is the new segment, the new
  \<open>readerLocation\<close>, the packets enqueued and the returned count.
\<close>

definition fetchManyPackets ::
    "jni \<Rightarrow> segment \<Rightarrow> nat \<Rightarrow> nat \<Rightarrow> int \<Rightarrow> (segment \<times> nat \<times> packet list \<times> int) option" where
  "fetchManyPackets j g rl tid space =
     (case numPacketsAlternate j g tid of (g, numPackets) \<Rightarrow>
        if numPackets \<le> 0 then Some (g, rl, [], numPackets)
        else
          let numPackets = (if numPackets > space then space else numPackets) in
          if numPackets \<le> 0 then Some (g, rl, [], numPackets)
          else case shmreadMult j g tid rl (nat numPackets) of
            None \<Rightarrow> None
          | Some (g, ret) \<Rightarrow>
              Some (tejasUpdateQueueSize j g tid (word_of_int numPackets),
                    (rl + nat numPackets) mod COUNT, unpack ret, numPackets))"

end
