(* ===== verification/Channel.thy ===== *)
theory Channel
  imports JNIShm
begin

text \<open>
  The two ends put together: reading refines taking packets from the front of the shared list,
  the threads' regions are independent, and along any sequence of operations of the emulator and of the
  simulator every thread's packets come out in order, each once.
\<close>

section \<open>Reading refines taking from the front\<close>

definition spec_fetch :: "int \<Rightarrow> chan \<Rightarrow> chan \<times> packet list" where
  "spec_fetch space c =
     (let n = min (length (ch_shared c)) (nat space)
      in (c\<lparr>ch_shared := drop n (ch_shared c)\<rparr>, take n (ch_shared c)))"

lemma spec_fetch_stream: "spec_fetch space c = (c', ps) \<Longrightarrow> ps @ stream c' = stream c"
  by (auto simp: spec_fetch_def Let_def stream_def)

lemma packet_eta [simp]: "mk_packet (pk_ip p) (pk_value p) (pk_tgt p) = p"
  by (simp add: mk_packet_def)

lemma unpack_concat: "unpack (concat (map packet_words ps)) = ps"
  by (induction ps) (simp_all add: packet_words_def)

lemma copy_words_eq: "copy_words g i n = concat (map packet_words (map (\<lambda>k. g (i + k)) [0..<n]))"
  by (simp add: copy_words_def comp_def)

lemma unpack_copy_words: "unpack (copy_words g i n) = map (\<lambda>k. g (i + k)) [0..<n]"
  by (simp only: copy_words_eq unpack_concat)

lemma unpack_copy_words2:
  "unpack (copy_words g i n @ copy_words g i' n') =
     map (\<lambda>k. g (i + k)) [0..<n] @ map (\<lambda>k. g (i' + k)) [0..<n']"
  by (simp only: copy_words_eq map_append [symmetric] concat_append [symmetric] unpack_concat)

lemma ring_read_straight:
  "rl + n \<le> c \<Longrightarrow> 0 < n \<Longrightarrow> ring_read c f rl n = map (\<lambda>k. f (rl + k)) [0..<n]"
  by (auto simp: ring_read_def)

lemma ring_read_wrapped:
  assumes "rl < c" "n \<le> c" "c \<le> rl + n"
  shows "ring_read c f rl n =
    map (\<lambda>k. f (rl + k)) [0..<c - rl] @ map f [0..<n - (c - rl)]"
proof -
  have "ring_read c f rl n = ring_read c f rl (c - rl) @ ring_read c f (rl + (c - rl)) (n - (c - rl))"
    using assms ring_read_add [of c f rl "c - rl" "n - (c - rl)"] by simp
  also have "ring_read c f rl (c - rl) = map (\<lambda>k. f (rl + k)) [0..<c - rl]"
    using assms by (intro ring_read_straight) auto
  also have "ring_read c f (rl + (c - rl)) (n - (c - rl)) = map f [0..<n - (c - rl)]"
    using assms by (auto simp: ring_read_def)
  finally show ?thesis .
qed

text \<open>The simulator's lock writes and queue-size writes leave the ring and the total alone.\<close>

lemma jni_cells [cells]:
  "c \<noteq> tid * (gCOUNT j + 5) + gCOUNT j + 2 \<Longrightarrow> c \<noteq> tid * (gCOUNT j + 5) + gCOUNT j + 3 \<Longrightarrow>
     tejas_get_lock j g tid c = g c"
  "c \<noteq> tid * (gCOUNT j + 5) + gCOUNT j + 2 \<Longrightarrow> tejas_release_lock j g tid c = g c"
  by (simp_all add: tejas_get_lock_def tejas_release_lock_def jni_shmwrite_def cells)

lemma numPacketsAlternate_eq:
  assumes "gCOUNT j = COUNT" "unat (pk_value (g (tid * (COUNT + 5) + COUNT))) \<le> COUNT"
  shows "numPacketsAlternate j g tid =
    (tejas_release_lock j (tejas_get_lock j g tid) tid, int (unat (pk_value (g (tid * (COUNT + 5) + COUNT)))))"
proof -
  have "unat (ucast (pk_value (g (tid * (COUNT + 5) + COUNT))) :: u32) = unat (pk_value (g (tid * (COUNT + 5) + COUNT)))"
    using assms(2) by (intro unat_ucast_small) (simp add: COUNT_def)
  then show ?thesis
    using assms COUNT_less
    by (simp add: numPacketsAlternate_def Let_def shmreadvalue_def cells sint_small)
qed

lemma shmreadMult_eq:
  fixes g :: segment and tid :: nat
  assumes "gCOUNT j = COUNT" "rl < COUNT" "0 < n" "n \<le> COUNT"
  defines "g' \<equiv> tejas_release_lock j (tejas_get_lock j g tid) tid"
  shows "\<exists>ws. shmreadMult j g tid rl n = Some (g', ws)
    \<and> unpack ws = ring_read COUNT (region g (tid * (COUNT + 5))) rl n"
proof -
  let ?b = "tid * (COUNT + 5)" and ?g = "tejas_get_lock j g tid"
  have r: "ring_read COUNT (region ?g ?b) rl n = ring_read COUNT (region g ?b) rl n"
    using assms(1) by (intro region_cong) (simp add: cells)
  show ?thesis
  proof (cases "rl + n < COUNT")
    case True
    then have "shmreadMult j g tid rl n = Some (g', copy_words ?g (?b + rl) n)"
      by (simp add: shmreadMult_def Let_def assms(1) g'_def)
    with True assms(3) r show ?thesis
      by (simp add: unpack_copy_words ring_read_straight add.assoc)
  next
    case False
    then have "shmreadMult j g tid rl n =
        Some (g', copy_words ?g (?b + rl) (COUNT - rl) @ copy_words ?g ?b (n - (COUNT - rl)))"
      using assms(2) by (simp add: shmreadMult_def Let_def assms(1) g'_def)
    with False assms r show ?thesis
      by (simp add: unpack_copy_words2 ring_read_wrapped add.assoc)
  qed
qed

lemma tejasUpdateQueueSize_cells:
  assumes "gCOUNT j = COUNT" "n \<le> unat (pk_value (g (tid * (COUNT + 5) + COUNT)))"
    "unat (pk_value (g (tid * (COUNT + 5) + COUNT))) \<le> COUNT"
  defines "g' \<equiv> tejasUpdateQueueSize j g tid (word_of_int (int n))"
  shows "unat (pk_value (g' (tid * (COUNT + 5) + COUNT))) = unat (pk_value (g (tid * (COUNT + 5) + COUNT))) - n"
    and "c < tid * (COUNT + 5) + COUNT \<or> tid * (COUNT + 5) + COUNT + 3 < c \<Longrightarrow> g' c = g c"
proof -
  let ?q = "pk_value (g (tid * (COUNT + 5) + COUNT))"
  have u: "unat (ucast ?q :: u32) = unat ?q"
    using assms(3) by (intro unat_ucast_small) (simp add: COUNT_def)
  have n: "unat (word_of_int (int n) :: u32) = n"
    using assms(2,3) unat_of_nat_small [of n, where 'a = 32] by (simp add: COUNT_def)
  have d: "unat ((ucast ?q :: u32) - word_of_int (int n)) = unat ?q - n"
    using assms(2) by (subst unat_diff_le) (simp_all only: word_le_nat_alt u n)
  have "unat (scast ((ucast ?q :: u32) - word_of_int (int n)) :: u64) = unat ?q - n"
    using d assms(3) COUNT_less by (subst unat_scast_small) simp_all
  then show "unat (pk_value (g' (tid * (COUNT + 5) + COUNT))) = unat ?q - n"
    by (simp add: g'_def tejasUpdateQueueSize_def Let_def assms(1) shmreadvalue_def jni_shmwrite_def cells)
  show "c < tid * (COUNT + 5) + COUNT \<or> tid * (COUNT + 5) + COUNT + 3 < c \<Longrightarrow> g' c = g c"
    by (auto simp: g'_def tejasUpdateQueueSize_def Let_def assms(1) jni_shmwrite_def cells)
qed

lemma abs_chan_fetched:
  assumes inv: "chan_inv s tid rl" and n: "n \<le> qsize s tid"
    and q: "unat (pk_value (g (td_shm (tldata s tid) + COUNT))) = qsize s tid - n"
    and ring: "\<And>i. i < COUNT \<Longrightarrow> g (td_shm (tldata s tid) + i) = seg s (td_shm (tldata s tid) + i)"
  defines "s' \<equiv> s\<lparr>seg := g\<rparr>" and "rl' \<equiv> (rl + n) mod COUNT"
  shows "abs_chan s' tid rl' =
      (abs_chan s tid rl)\<lparr>ch_shared := drop n (ch_shared (abs_chan s tid rl))\<rparr>"
    and "chan_inv s' tid rl'"
proof -
  have q': "qsize s' tid = qsize s tid - n" using q by (simp add: qsize_def s'_def)
  have "shared_view s' tid rl' = drop n (shared_view s tid rl)"
    unfolding shared_view_def q' drop_ring_read rl'_def ring_read_mod_start
    by (rule ring_read_cong) (simp add: s'_def ring)
  then show "abs_chan s' tid rl' =
      (abs_chan s tid rl)\<lparr>ch_shared := drop n (ch_shared (abs_chan s tid rl))\<rparr>"
    by (simp add: abs_chan_def) (simp add: s'_def)
  have "((rl + n) mod COUNT + (qsize s tid - n)) mod COUNT = (rl + qsize s tid) mod COUNT"
    using n by (subst mod_add_left_eq) simp
  then show "chan_inv s' tid rl'"
    using inv n unfolding chan_inv_def q' by (simp add: s'_def rl'_def le_diff_conv trans_le_add1)
qed

lemma fetch_refines:
  assumes inv: "chan_inv s tid rl" and j: "gCOUNT j = COUNT"
    and td: "td_shm (tldata s tid) = tid * (COUNT + 5)"
  shows "\<exists>g rl' ps r. fetchManyPackets j (seg s) rl tid space = Some (g, rl', ps, r)
    \<and> spec_fetch space (abs_chan s tid rl) = (abs_chan (s\<lparr>seg := g\<rparr>) tid rl', ps)
    \<and> chan_inv (s\<lparr>seg := g\<rparr>) tid rl'
    \<and> (0 < r \<longrightarrow> r = int (length ps)) \<and> (r \<le> 0 \<longrightarrow> ps = [])
    \<and> (\<forall>c. c < tid * (COUNT + 5) + COUNT \<or> tid * (COUNT + 5) + COUNT + 3 < c \<longrightarrow> g c = seg s c)"
proof -
  let ?b = "tid * (COUNT + 5)" and ?q = "qsize s tid"
  define g1 where "g1 = tejas_release_lock j (tejas_get_lock j (seg s) tid) tid"
  define n where "n = min ?q (nat space)"
  have q: "unat (pk_value (seg s (?b + COUNT))) = ?q" "?q \<le> COUNT" "rl < COUNT"
    using inv td by (simp_all add: qsize_def chan_inv_def)
  have np: "numPacketsAlternate j (seg s) tid = (g1, int ?q)"
    using numPacketsAlternate_eq [OF j, of "seg s" tid] q by (simp add: g1_def)
  have g1: "g1 c = seg s c" if "c \<le> ?b + COUNT + 1 \<or> ?b + COUNT + 3 < c" for c
    using that j by (auto simp: g1_def cells)
  have sp: "spec_fetch space (abs_chan s tid rl) = ((abs_chan s tid rl)
      \<lparr>ch_shared := drop n (ch_shared (abs_chan s tid rl))\<rparr>, take n (ch_shared (abs_chan s tid rl)))"
    by (simp add: spec_fetch_def abs_chan_def Let_def n_def)
  show ?thesis
  proof (cases "n = 0")
    case True
    have "abs_chan (s\<lparr>seg := g1\<rparr>) tid rl = abs_chan s tid rl" "chan_inv (s\<lparr>seg := g1\<rparr>) tid rl"
      using abs_chan_fetched [OF inv, of 0 g1] q td g1 by simp_all
    moreover have "\<exists>r \<le> 0. fetchManyPackets j (seg s) rl tid space = Some (g1, rl, [], r)"
      using True by (auto simp: fetchManyPackets_def np Let_def n_def min_def split: if_splits)
    ultimately show ?thesis using sp True g1 by (auto simp: abs_chan_def)
  next
    case False
    define g2 where "g2 = tejas_release_lock j (tejas_get_lock j g1 tid) tid"
    define g3 where "g3 = tejasUpdateQueueSize j g2 tid (word_of_int (int n))"
    have n: "0 < n" "n \<le> COUNT" "n \<le> ?q" using False q by (auto simp: n_def)
    obtain ws where ws: "shmreadMult j g1 tid rl n = Some (g2, ws)"
        "unpack ws = ring_read COUNT (region g1 ?b) rl n"
      using shmreadMult_eq [OF j q(3) n(1,2), of g1 tid] by (auto simp: g2_def)
    have ps: "unpack ws = take n (ch_shared (abs_chan s tid rl))"
      unfolding ws(2) using n(3) g1
      by (auto simp: abs_chan_def shared_view_def take_ring_read td min_absorb1 intro: region_cong)
    have g2: "g2 c = seg s c" if "c \<le> ?b + COUNT + 1 \<or> ?b + COUNT + 3 < c" for c
      using that j g1 by (auto simp: g2_def cells)
    have q2: "unat (pk_value (g2 (?b + COUNT))) = ?q" using g2 q by simp
    have g3: "g3 c = seg s c" if "c < ?b + COUNT \<or> ?b + COUNT + 3 < c" for c
      using that tejasUpdateQueueSize_cells(2) [OF j, of n g2 tid c] q2 q n g2 by (auto simp: g3_def)
    have q3: "unat (pk_value (g3 (?b + COUNT))) = ?q - n"
      using tejasUpdateQueueSize_cells(1) [OF j, of n g2 tid] q2 q n by (simp add: g3_def)
    have "abs_chan (s\<lparr>seg := g3\<rparr>) tid ((rl + n) mod COUNT) = (abs_chan s tid rl)
        \<lparr>ch_shared := drop n (ch_shared (abs_chan s tid rl))\<rparr>"
      "chan_inv (s\<lparr>seg := g3\<rparr>) tid ((rl + n) mod COUNT)"
      using abs_chan_fetched [OF inv n(3), of g3] q3 td g3 by simp_all
    moreover have "fetchManyPackets j (seg s) rl tid space =
        Some (g3, (rl + n) mod COUNT, unpack ws, int n)"
    proof -
      have "nat (if int ?q > space then space else int ?q) = n" "\<not> int ?q \<le> 0"
          "(if int ?q > space then space else int ?q) = int n"
        using False by (auto simp: n_def min_def split: if_splits)
      then show ?thesis using n(1) by (simp add: fetchManyPackets_def np Let_def ws(1) g3_def)
    qed
    moreover have "length (unpack ws) = n" by (simp add: ws(2))
    ultimately show ?thesis using sp ps g3 n(1) by auto
  qed
qed

section \<open>Operations touch one thread only\<close>

definition own_change :: "nat \<Rightarrow> shm \<Rightarrow> shm \<Rightarrow> bool" where
  "own_change tid s s' \<longleftrightarrow> isSubsetsimComplete s' = isSubsetsimComplete s
     \<and> td_shm (tldata s' tid) = td_shm (tldata s tid)
     \<and> (\<forall>t. t \<noteq> tid \<longrightarrow> tldata s' t = tldata s t)
     \<and> (\<forall>c. c < td_shm (tldata s tid) \<or> td_shm (tldata s tid) + COUNT + 5 \<le> c \<longrightarrow> seg s' c = seg s c)"

lemma own_change_refl: "own_change tid s s"
  by (simp add: own_change_def)

lemma own_change_trans: "own_change tid s s' \<Longrightarrow> own_change tid s' s'' \<Longrightarrow> own_change tid s s''"
  by (simp add: own_change_def)

lemma own_change_shmwrite: "shmwrite s tid fin n = (s', r) \<Longrightarrow> own_change tid s s'"
  using shmwrite_frame [of s tid fin n s' r] shmwrite_other_thread [of s tid fin n s' r]
  by (auto simp: own_change_def)
     (auto simp: shmwrite_def Let_def case_prod_beta split: if_splits)

lemma own_change_log_packet: "own_change tid s (log_packet s tid i v a)"
  by (simp add: own_change_def log_packet_def Let_def shm_debug_queue_def)

lemma own_change_analysisFn: "analysisFn s tid i v a = (s', r) \<Longrightarrow> own_change tid s s'"
  by (auto simp: analysisFn_def split: if_splits prod.splits
      intro: own_change_log_packet own_change_shmwrite own_change_trans)

lemma own_change_drain: "drain s tid = (s', ok) \<Longrightarrow> own_change tid s s'"
proof (induction s tid rule: drain.induct)
  case (1 s tid)
  show ?case
  proof (cases "tlqsize (tldata s tid) = 0")
    case True
    with 1(2) show ?thesis by (subst (asm) drain.simps) (auto simp: own_change_refl)
  next
    case False
    obtain s1 r where w: "shmwrite s tid 0 (-1) = (s1, r)" by fastforce
    have "r = -1 \<and> s' = s1 \<or> r \<noteq> -1 \<and> drain s1 tid = (s', ok)"
      using 1(2) False w by (subst (asm) drain.simps) (auto split: if_splits)
    with 1(1) [OF False w [symmetric]] own_change_shmwrite [OF w] show ?thesis
      by (auto intro: own_change_trans)
  qed
qed

lemma own_change_finish: "onThread_finish s tid n = (s', r) \<Longrightarrow> own_change tid s s'"
proof -
  have "own_change tid s (clear_local s tid)" for s
    by (simp add: own_change_def clear_local_def)
  then show "onThread_finish s tid n = (s', r) \<Longrightarrow> own_change tid s s'"
    by (auto simp: onThread_finish_def split: prod.splits bool.splits if_splits
        dest!: own_change_drain own_change_shmwrite intro: own_change_trans)
qed

lemma regions_disjoint:
  fixes t tid i :: nat
  assumes "t \<noteq> tid" "i < COUNT + 5"
  shows "t * (COUNT + 5) + i < tid * (COUNT + 5) \<or> tid * (COUNT + 5) + COUNT + 5 \<le> t * (COUNT + 5) + i"
proof (cases "t < tid")
  case True
  then have "Suc t * (COUNT + 5) \<le> tid * (COUNT + 5)" by (intro mult_le_mono1) simp
  with assms(2) show ?thesis by simp
next
  case False
  with assms(1) have "Suc tid * (COUNT + 5) \<le> t * (COUNT + 5)" by (intro mult_le_mono1) simp
  then show ?thesis by simp
qed

lemma other_thread_unchanged:
  assumes "t \<noteq> tid" "td_shm (tldata s t) = t * (COUNT + 5)" "tldata s' t = tldata s t"
    "isSubsetsimComplete s' = isSubsetsimComplete s"
    "\<And>c. c < tid * (COUNT + 5) \<or> tid * (COUNT + 5) + COUNT + 5 \<le> c \<Longrightarrow> seg s' c = seg s c"
  shows "abs_chan s' t rl = abs_chan s t rl" "chan_inv s' t rl = chan_inv s t rl"
proof -
  have c: "seg s' (t * (COUNT + 5) + i) = seg s (t * (COUNT + 5) + i)" if "i < COUNT + 5" for i
    using regions_disjoint [OF assms(1) that] assms(5) by blast
  have q: "qsize s' t = qsize s t" using c [of COUNT] assms(2,3) by (simp add: qsize_def)
  have "shared_view s' t rl = shared_view s t rl"
    unfolding shared_view_def q using assms(2,3) c by (auto intro: region_cong)
  then show "abs_chan s' t rl = abs_chan s t rl" using assms by (simp add: abs_chan_def)
  show "chan_inv s' t rl = chan_inv s t rl" using assms(3) by (simp add: chan_inv_def q)
qed

section \<open>Runs of emulator and simulator\<close>

text \<open>
  The whole channel: the emulator's object with its segment, the reader's positions, and two
  histories, the packets the emulator's callers handed over and were told accepted, and the packets the
  simulator enqueued.  A final packet is recorded by its code and count, which is all the
  emulator chooses of it.
\<close>

datatype item = Pkt packet | Final int u64

fun matches :: "item \<Rightarrow> packet \<Rightarrow> bool" where
  "matches (Pkt p) q = (q = p)"
| "matches (Final code n) q = final_packet code n q"

record sys =
  emu :: shm
  rloc :: "nat \<Rightarrow> nat"
  accepted :: "nat \<Rightarrow> item list"
  received :: "nat \<Rightarrow> packet list"

datatype event = Send nat u64 u64 u64 | Finish nat u64 | Fetch nat int | Set_complete bool

fun sys_step :: "jni \<Rightarrow> sys \<Rightarrow> event \<Rightarrow> sys option" where
  "sys_step j \<sigma> (Send tid i v a) =
     (case analysisFn (emu \<sigma>) tid i v a of (s, r) \<Rightarrow>
        Some (\<sigma>\<lparr>emu := s, accepted := (if r = -1 then accepted \<sigma>
                 else (accepted \<sigma>)(tid := accepted \<sigma> tid @ [Pkt (mk_packet i v a)]))\<rparr>))"
| "sys_step j \<sigma> (Finish tid n) =
     (case onThread_finish (emu \<sigma>) tid n of (s, r) \<Rightarrow>
        Some (\<sigma>\<lparr>emu := s, accepted := (if r = -1 then accepted \<sigma>
                 else (accepted \<sigma>)(tid := accepted \<sigma> tid @ [Final THREADCOMPLETE n]))\<rparr>))"
| "sys_step j \<sigma> (Fetch tid space) =
     map_option (\<lambda>(g, rl, ps, r). \<sigma>\<lparr>emu := (emu \<sigma>)\<lparr>seg := g\<rparr>, rloc := (rloc \<sigma>)(tid := rl),
          received := (received \<sigma>)(tid := received \<sigma> tid @ ps)\<rparr>)
       (fetchManyPackets j (seg (emu \<sigma>)) (rloc \<sigma> tid) tid space)"
| "sys_step j \<sigma> (Set_complete b) = Some (\<sigma>\<lparr>emu := fst (setSubsetsimComplete (emu \<sigma>) b)\<rparr>)"

fun sys_run :: "jni \<Rightarrow> sys \<Rightarrow> event list \<Rightarrow> sys option" where
  "sys_run j \<sigma> [] = Some \<sigma>"
| "sys_run j \<sigma> (e # es) = Option.bind (sys_step j \<sigma> e) (\<lambda>\<sigma>. sys_run j \<sigma> es)"

fun event_thread_ok :: "nat \<Rightarrow> event \<Rightarrow> bool" where
  "event_thread_ok n (Send tid i v a) = (tid < n)"
| "event_thread_ok n (Finish tid k) = (tid < n)"
| "event_thread_ok n (Fetch tid space) = (tid < n)"
| "event_thread_ok n (Set_complete b) = True"

definition thread_ok :: "sys \<Rightarrow> nat \<Rightarrow> bool" where
  "thread_ok \<sigma> t \<longleftrightarrow> td_shm (tldata (emu \<sigma>) t) = t * (COUNT + 5) \<and> chan_inv (emu \<sigma>) t (rloc \<sigma> t)
     \<and> list_all2 matches (accepted \<sigma> t) (received \<sigma> t @ stream (abs_chan (emu \<sigma>) t (rloc \<sigma> t)))"

definition sys_inv :: "nat \<Rightarrow> sys \<Rightarrow> bool" where
  "sys_inv n \<sigma> \<longleftrightarrow> (\<forall>t < n. thread_ok \<sigma> t)"

lemma list_all2_snoc: "list_all2 P (xs @ [x]) (ys @ [y]) \<longleftrightarrow> list_all2 P xs ys \<and> P x y"
  using list_all2_rev [of P "xs @ [x]" "ys @ [y]"] list_all2_rev [of P xs ys]
  by (auto simp del: list_all2_rev)

lemma thread_ok_other:
  assumes "thread_ok \<sigma> t" "t \<noteq> tid" "own_change tid (emu \<sigma>) s" "td_shm (tldata (emu \<sigma>) tid) = tid * (COUNT + 5)"
    "emu \<sigma>' = s" "rloc \<sigma>' t = rloc \<sigma> t" "accepted \<sigma>' t = accepted \<sigma> t" "received \<sigma>' t = received \<sigma> t"
  shows "thread_ok \<sigma>' t"
proof -
  have "tldata s t = tldata (emu \<sigma>) t" "isSubsetsimComplete s = isSubsetsimComplete (emu \<sigma>)"
    "\<And>c. c < tid * (COUNT + 5) \<or> tid * (COUNT + 5) + COUNT + 5 \<le> c \<Longrightarrow> seg s c = seg (emu \<sigma>) c"
    using assms(2,3,4) by (auto simp: own_change_def)
  from other_thread_unchanged [OF assms(2) _ this] assms show ?thesis
    by (auto simp: thread_ok_def own_change_def)
qed

lemma step_send:
  assumes "sys_inv n \<sigma>" "tid < n"
  shows "\<exists>\<sigma>'. sys_step j \<sigma> (Send tid i v a) = Some \<sigma>' \<and> sys_inv n \<sigma>'"
proof -
  obtain s r where w: "analysisFn (emu \<sigma>) tid i v a = (s, r)" by fastforce
  define \<sigma>' where "\<sigma>' = \<sigma>\<lparr>emu := s, accepted := (if r = -1 then accepted \<sigma>
      else (accepted \<sigma>)(tid := accepted \<sigma> tid @ [Pkt (mk_packet i v a)]))\<rparr>"
  have ok: "thread_ok \<sigma> tid" using assms by (simp add: sys_inv_def)
  then have inv: "chan_inv (emu \<sigma>) tid (rloc \<sigma> tid)" and td: "td_shm (tldata (emu \<sigma>) tid) = tid * (COUNT + 5)"
    by (auto simp: thread_ok_def)
  from analysisFn_refines [OF inv w] have sp: "spec_send (mk_packet i v a) (abs_chan (emu \<sigma>) tid (rloc \<sigma> tid))
      = (abs_chan s tid (rloc \<sigma> tid), r)" and inv': "chan_inv s tid (rloc \<sigma> tid)" by auto
  have own: "own_change tid (emu \<sigma>) s" using w by (rule own_change_analysisFn)
  have "thread_ok \<sigma>' tid"
    using ok spec_send_stream [OF sp] inv' own td
    by (auto simp: thread_ok_def \<sigma>'_def own_change_def list_all2_snoc simp flip: append_assoc)
  moreover have "thread_ok \<sigma>' t" if "t < n" "t \<noteq> tid" for t
    using thread_ok_other [OF _ that(2) own td] assms(1) that by (auto simp: sys_inv_def \<sigma>'_def)
  ultimately have "sys_inv n \<sigma>'" unfolding sys_inv_def by metis
  then show ?thesis by (simp add: w \<sigma>'_def)
qed

lemma step_finish:
  assumes "sys_inv n \<sigma>" "tid < n"
  shows "\<exists>\<sigma>'. sys_step j \<sigma> (Finish tid k) = Some \<sigma>' \<and> sys_inv n \<sigma>'"
proof -
  obtain s r where w: "onThread_finish (emu \<sigma>) tid k = (s, r)" by fastforce
  define \<sigma>' where "\<sigma>' = \<sigma>\<lparr>emu := s, accepted := (if r = -1 then accepted \<sigma>
      else (accepted \<sigma>)(tid := accepted \<sigma> tid @ [Final THREADCOMPLETE k]))\<rparr>"
  have ok: "thread_ok \<sigma> tid" using assms by (simp add: sys_inv_def)
  then have inv: "chan_inv (emu \<sigma>) tid (rloc \<sigma> tid)" and td: "td_shm (tldata (emu \<sigma>) tid) = tid * (COUNT + 5)"
    by (auto simp: thread_ok_def)
  note fin = finish_stream [OF inv w]
  have own: "own_change tid (emu \<sigma>) s" using w by (rule own_change_finish)
  have "thread_ok \<sigma>' tid"
    using ok fin own td
    by (auto simp: thread_ok_def \<sigma>'_def own_change_def list_all2_snoc simp flip: append_assoc)
  moreover have "thread_ok \<sigma>' t" if "t < n" "t \<noteq> tid" for t
    using thread_ok_other [OF _ that(2) own td] assms(1) that by (auto simp: sys_inv_def \<sigma>'_def)
  ultimately have "sys_inv n \<sigma>'" unfolding sys_inv_def by metis
  then show ?thesis by (simp add: w \<sigma>'_def)
qed

lemma step_fetch:
  assumes "sys_inv n \<sigma>" "tid < n" "gCOUNT j = COUNT"
  shows "\<exists>\<sigma>'. sys_step j \<sigma> (Fetch tid space) = Some \<sigma>' \<and> sys_inv n \<sigma>'"
proof -
  have ok: "thread_ok \<sigma> tid" using assms by (simp add: sys_inv_def)
  then have inv: "chan_inv (emu \<sigma>) tid (rloc \<sigma> tid)" and td: "td_shm (tldata (emu \<sigma>) tid) = tid * (COUNT + 5)"
    by (auto simp: thread_ok_def)
  from fetch_refines [OF inv assms(3) td, of space] obtain g rl ps r where
    f: "fetchManyPackets j (seg (emu \<sigma>)) (rloc \<sigma> tid) tid space = Some (g, rl, ps, r)"
    and sp: "spec_fetch space (abs_chan (emu \<sigma>) tid (rloc \<sigma> tid)) = (abs_chan ((emu \<sigma>)\<lparr>seg := g\<rparr>) tid rl, ps)"
    and inv': "chan_inv ((emu \<sigma>)\<lparr>seg := g\<rparr>) tid rl"
    and fr: "\<forall>c. c < tid * (COUNT + 5) + COUNT \<or> tid * (COUNT + 5) + COUNT + 3 < c \<longrightarrow> g c = seg (emu \<sigma>) c"
    by blast
  define \<sigma>' where "\<sigma>' = \<sigma>\<lparr>emu := (emu \<sigma>)\<lparr>seg := g\<rparr>, rloc := (rloc \<sigma>)(tid := rl),
          received := (received \<sigma>)(tid := received \<sigma> tid @ ps)\<rparr>"
  have own: "own_change tid (emu \<sigma>) ((emu \<sigma>)\<lparr>seg := g\<rparr>)"
    using fr td by (auto simp: own_change_def)
  have "ps @ stream (abs_chan ((emu \<sigma>)\<lparr>seg := g\<rparr>) tid rl) = stream (abs_chan (emu \<sigma>) tid (rloc \<sigma> tid))"
    using sp by (rule spec_fetch_stream)
  then have "thread_ok \<sigma>' tid"
    using ok inv' td by (auto simp: thread_ok_def \<sigma>'_def)
  moreover have "thread_ok \<sigma>' t" if "t < n" "t \<noteq> tid" for t
    using thread_ok_other [OF _ that(2) own td] assms(1) that by (auto simp: sys_inv_def \<sigma>'_def)
  ultimately have "sys_inv n \<sigma>'" unfolding sys_inv_def by metis
  then show ?thesis by (simp add: f \<sigma>'_def)
qed

lemma step_complete:
  assumes "sys_inv n \<sigma>"
  shows "\<exists>\<sigma>'. sys_step j \<sigma> (Set_complete b) = Some \<sigma>' \<and> sys_inv n \<sigma>'"
proof -
  let ?s = "(emu \<sigma>)\<lparr>isSubsetsimComplete := b\<rparr>"
  have "stream (abs_chan ?s t rl) = stream (abs_chan (emu \<sigma>) t rl)" "chan_inv ?s t rl = chan_inv (emu \<sigma>) t rl" for t rl
    by (simp_all add: stream_def abs_chan_def shared_view_def qsize_def chan_inv_def)
  with assms show ?thesis
    by (simp add: setSubsetsimComplete_def sys_inv_def thread_ok_def)
qed

lemma sys_run_inv:
  assumes "sys_inv n \<sigma>" "gCOUNT j = COUNT" "list_all (event_thread_ok n) es"
  shows "\<exists>\<sigma>'. sys_run j \<sigma> es = Some \<sigma>' \<and> sys_inv n \<sigma>'"
  using assms(1,3)
proof (induction es arbitrary: \<sigma>)
  case Nil
  then show ?case by simp
next
  case (Cons e es)
  have "\<exists>\<sigma>'. sys_step j \<sigma> e = Some \<sigma>' \<and> sys_inv n \<sigma>'"
    using Cons.prems step_send step_finish step_fetch [OF _ _ assms(2)] step_complete
    by (cases e) (simp_all del: sys_step.simps)
  with Cons show ?case by fastforce
qed

section \<open>The start of a run\<close>

text \<open>The tool constructs the object and starts its threads; the simulator's reader is at 0.\<close>

definition start_all :: "shm \<Rightarrow> nat \<Rightarrow> shm" where
  "start_all s n = fold (\<lambda>t s. onThread_start s t) [0..<n] s"

definition sys_init :: "shm \<Rightarrow> nat \<Rightarrow> sys" where
  "sys_init s n = \<lparr>emu = start_all s n, rloc = (\<lambda>_. 0), accepted = (\<lambda>_. []), received = (\<lambda>_. [])\<rparr>"

lemma onThread_start_rest [simp]:
  "tldata (onThread_start s t) = tldata s" "isSubsetsimComplete (onThread_start s t) = isSubsetsimComplete s"
  by (simp_all add: onThread_start_def Let_def)

lemma start_all_rest [simp]:
  "tldata (start_all s n) = tldata s" "isSubsetsimComplete (start_all s n) = isSubsetsimComplete s"
proof -
  have "tldata (fold (\<lambda>t s. onThread_start s t) ts s) = tldata s \<and>
      isSubsetsimComplete (fold (\<lambda>t s. onThread_start s t) ts s) = isSubsetsimComplete s" for ts
    by (induction ts arbitrary: s) simp_all
  then show "tldata (start_all s n) = tldata s" "isSubsetsimComplete (start_all s n) = isSubsetsimComplete s"
    by (simp_all add: start_all_def)
qed

lemma start_all_Suc: "start_all s (Suc n) = onThread_start (start_all s n) n"
  by (simp add: start_all_def)

lemma qsize_start_all:
  assumes "\<And>t. t < n \<Longrightarrow> td_shm (tldata s t) = t * (COUNT + 5)" "t < n"
  shows "qsize (start_all s n) t = 0"
  using assms
proof (induction n)
  case (Suc n)
  have c: "seg (onThread_start s' n) (t * (COUNT + 5) + COUNT) =
      (if t = n then (seg s' (t * (COUNT + 5) + COUNT))\<lparr>pk_value := 0\<rparr> else seg s' (t * (COUNT + 5) + COUNT))"
    if "td_shm (tldata s' n) = n * (COUNT + 5)" for s'
    using that regions_disjoint [of t n COUNT]
    by (auto simp: onThread_start_def Let_def cells)
  show ?case
    using Suc c [of "start_all s n"] by (auto simp: start_all_Suc qsize_def less_Suc_eq)
qed simp

lemma sys_init_inv:
  assumes "Shm_new_pid ftok shmget shmat heap tlqs pid n = Inr s"
    and "\<And>t. t < n \<Longrightarrow> prod_ptr (heap t) = 0"
  shows "sys_inv n (sys_init s n)"
proof -
  have td: "tldata s t = (heap t)\<lparr>tlqsize := 0, td_in := 0, td_out := 0, td_sum := 0, tlq := tlqs t,
              td_shm := (COUNT + 5) * t\<rparr>" if "t < n" for t
    using assms(1) that by (auto simp: Shm_new_pid_def Let_def init_threads_eq split: if_splits option.splits)
  have "qsize (start_all s n) t = 0" if "t < n" for t
    using qsize_start_all [of n s t] td that by (simp add: mult.commute)
  then show ?thesis
    using td assms(2)
    by (auto simp: sys_inv_def thread_ok_def sys_init_def chan_inv_def td_inv_def stream_def
        abs_chan_def shared_view_def local_view_def mult.commute)
qed

section \<open>Properties of the channel\<close>

text \<open>C1: from the start of the tool, provided the heap happens to hold 0 in the \<open>prod_ptr\<close> of
  every thread, along every sequence of sends, finishing threads, fetches and completions in
  any order over any number of threads, no read leaves the ring, the packets a thread's reader received are
  the first ones accepted from it, in order and each once, and at most \<open>COUNT + locQ\<close> accepted
  packets are still on their way.\<close>

theorem channel_fifo:
  assumes "Shm_new_pid ftok shmget shmat heap tlqs pid n = Inr s"
    and "\<And>t. t < n \<Longrightarrow> prod_ptr (heap t) = 0"
    and "gCOUNT j = COUNT" and "list_all (event_thread_ok n) es"
  shows "\<exists>\<sigma>. sys_run j (sys_init s n) es = Some \<sigma> \<and> (\<forall>t < n.
    list_all2 matches (take (length (received \<sigma> t)) (accepted \<sigma> t)) (received \<sigma> t) \<and>
    length (accepted \<sigma> t) \<le> length (received \<sigma> t) + COUNT + locQ)"
proof -
  from sys_run_inv [OF sys_init_inv [OF assms(1,2)] assms(3,4)] obtain \<sigma>
    where run: "sys_run j (sys_init s n) es = Some \<sigma>" and inv: "sys_inv n \<sigma>" by blast
  have "list_all2 matches (take (length (received \<sigma> t)) (accepted \<sigma> t)) (received \<sigma> t)
      \<and> length (accepted \<sigma> t) \<le> length (received \<sigma> t) + COUNT + locQ" if "t < n" for t
  proof -
    from inv that have ok: "thread_ok \<sigma> t" by (simp add: sys_inv_def)
    then have m: "list_all2 matches (accepted \<sigma> t)
        (received \<sigma> t @ stream (abs_chan (emu \<sigma>) t (rloc \<sigma> t)))"
      by (simp add: thread_ok_def)
    have "list_all2 matches (take (length (received \<sigma> t)) (accepted \<sigma> t)) (received \<sigma> t)"
      using list_all2_takeI [OF m, of "length (received \<sigma> t)"] by simp
    moreover have "length (stream (abs_chan (emu \<sigma>) t (rloc \<sigma> t))) \<le> COUNT + locQ"
      using ok by (simp add: thread_ok_def chan_inv_def td_inv_def stream_def abs_chan_def)
    ultimately show ?thesis using list_all2_lengthD [OF m] by simp
  qed
  with run show ?thesis by blast
qed

text \<open>A heap that holds zeroes, and the operating system calls succeeding.\<close>

definition zero_packet :: packet where
  "zero_packet = mk_packet 0 0 0"

definition heap_of :: "u32 \<Rightarrow> nat \<Rightarrow> thread_data" where
  "heap_of p = (\<lambda>_. \<lparr>tlqsize = 0, td_in = 0, td_out = 0, td_shm = 0, tlq = (\<lambda>_. zero_packet),
     prod_ptr = p, tot_prod = 0, td_sum = 0\<rparr>)"

definition shm_of :: "u32 \<Rightarrow> nat \<Rightarrow> shm" where
  "shm_of p n = \<lparr>isSubsetsimComplete = False, ap_bh_counter = 0,
     tldata = init_threads n (\<lambda>_ _. zero_packet) (heap_of p), MaxNumActiveThreads = n,
     seg = (\<lambda>_. zero_packet)\<rparr>"

lemma shm_of_new:
  "Shm_new_pid (\<lambda>_. 1) (\<lambda>_ _. 1) (\<lambda>_. Some (\<lambda>_. zero_packet)) (heap_of p) (\<lambda>_ _. zero_packet) pid n
     = Inr (shm_of p n)"
  by (simp add: Shm_new_pid_def shm_of_def)

definition jni_std :: jni where
  "jni_std = \<lparr>gCOUNT = COUNT, gMaxNumJavaThreads = 1, gEmuThreadsPerJavaThread = 2\<rparr>"

theorem channel_fifo_witness:
  "\<exists>\<sigma>. sys_run jni_std (sys_init (shm_of 0 2) 2) [Send 0 1 2 3, Finish 0 1, Fetch 0 10, Send 1 4 5 6] = Some \<sigma>
    \<and> (\<forall>t < 2. list_all2 matches (take (length (received \<sigma> t)) (accepted \<sigma> t)) (received \<sigma> t) \<and>
    length (accepted \<sigma> t) \<le> length (received \<sigma> t) + COUNT + locQ)"
  by (rule channel_fifo [OF shm_of_new]) (simp_all add: heap_of_def jni_std_def)

end
