(* ===== verification/ShmLimits.thy ===== *)
theory ShmLimits
  imports Channel
begin

text \<open>
  What the shared-memory channel delivers beyond order (theory \<open>Channel\<close>): the simulator gets
  everything once a thread has finished, the produced-packets cell the simulator compares its own count
  with is right, the regions fit the segment both sides ask for.  And where the code relies on luck: the
  write index is never initialised, and the function that ends the subset cannot return success.
\<close>

section \<open>Delivery\<close>

lemma sys_init_step_inv:
  assumes "sys_inv n \<sigma>" "gCOUNT j = COUNT" "event_thread_ok n e" "sys_step j \<sigma> e = Some \<sigma>'"
  shows "sys_inv n \<sigma>'"
  using sys_run_inv [OF assms(1,2), of "[e]"] assms(3,4) by simp

text \<open>A read with room for a whole ring from a channel whose local queue is empty takes everything.\<close>

lemma fetch_all:
  assumes "sys_inv n \<sigma>" "gCOUNT j = COUNT" "tid < n" "ch_local (abs_chan (emu \<sigma>) tid (rloc \<sigma> tid)) = []"
    and "int COUNT \<le> space" "sys_step j \<sigma> (Fetch tid space) = Some \<sigma>'"
  shows "accepted \<sigma>' = accepted \<sigma> \<and> list_all2 matches (accepted \<sigma>' tid) (received \<sigma>' tid)"
proof -
  have inv': "sys_inv n \<sigma>'" by (rule sys_init_step_inv [OF assms(1,2) _ assms(6)]) (simp add: assms(3))
  from assms(1,3) have ok: "chan_inv (emu \<sigma>) tid (rloc \<sigma> tid)" "td_shm (tldata (emu \<sigma>) tid) = tid * (COUNT + 5)"
    by (auto simp: sys_inv_def thread_ok_def)
  from fetch_refines [OF ok(1) assms(2) ok(2), of space] assms(6)
  have f: "spec_fetch space (abs_chan (emu \<sigma>) tid (rloc \<sigma> tid)) =
      (abs_chan (emu \<sigma>') tid (rloc \<sigma>' tid), drop (length (received \<sigma> tid)) (received \<sigma>' tid))"
    and a: "accepted \<sigma>' = accepted \<sigma>"
    by auto
  have "length (ch_shared (abs_chan (emu \<sigma>) tid (rloc \<sigma> tid))) \<le> COUNT" by (rule shared_le [OF ok(1)])
  then have "stream (abs_chan (emu \<sigma>') tid (rloc \<sigma>' tid)) = []"
    using f assms(4,5) by (auto simp: spec_fetch_def Let_def stream_def split: if_splits
        simp flip: f[THEN arg_cong[of _ _ fst], simplified])
  moreover have "list_all2 matches (accepted \<sigma>' tid)
      (received \<sigma>' tid @ stream (abs_chan (emu \<sigma>') tid (rloc \<sigma>' tid)))"
    using inv' assms(3) by (simp add: sys_inv_def thread_ok_def)
  ultimately show ?thesis using a by simp
qed

lemma finish_empties:
  assumes "sys_inv n \<sigma>" "tid < n" "onThread_finish (emu \<sigma>) tid k = (s, r)" "r \<noteq> -1"
  shows "ch_local (abs_chan s tid (rloc \<sigma> tid)) = []"
proof -
  have "chan_inv (emu \<sigma>) tid (rloc \<sigma> tid)" using assms(1,2) by (simp add: sys_inv_def thread_ok_def)
  from finish_refines [OF this assms(3)] assms(4) show ?thesis by auto
qed

text \<open>C13: when \<open>onThread_finish\<close> of a thread reports success, one read by the simulator with room
  for a whole ring gives it everything the thread ever sent, the final packet included, in order.\<close>

theorem finished_thread_delivered:
  assumes "sys_inv n \<sigma>" "gCOUNT j = COUNT" "tid < n"
    and "sys_step j \<sigma> (Finish tid k) = Some \<sigma>1" "accepted \<sigma>1 tid \<noteq> accepted \<sigma> tid"
    and "int COUNT \<le> space" "sys_step j \<sigma>1 (Fetch tid space) = Some \<sigma>2"
  shows "accepted \<sigma>2 tid = accepted \<sigma> tid @ [Final THREADCOMPLETE k]
    \<and> list_all2 matches (accepted \<sigma>2 tid) (received \<sigma>2 tid)"
proof -
  obtain s r where w: "onThread_finish (emu \<sigma>) tid k = (s, r)" by fastforce
  from assms(4,5) w have r: "r \<noteq> -1" and \<sigma>1: "emu \<sigma>1 = s" "rloc \<sigma>1 = rloc \<sigma>"
    "accepted \<sigma>1 tid = accepted \<sigma> tid @ [Final THREADCOMPLETE k]"
    by (auto split: if_splits)
  have inv1: "sys_inv n \<sigma>1" by (rule sys_init_step_inv [OF assms(1,2) _ assms(4)]) (simp add: assms(3))
  have "ch_local (abs_chan (emu \<sigma>1) tid (rloc \<sigma>1 tid)) = []" using finish_empties [OF assms(1,3) w r] \<sigma>1 by simp
  from fetch_all [OF inv1 assms(2,3) this assms(6,7)] \<sigma>1(3) show ?thesis by metis
qed

lemma drain_empty: "tlqsize (tldata s tid) = 0 \<Longrightarrow> drain s tid = (s, True)"
  by (subst drain.simps) simp

text \<open>The definitions a concrete run unfolds.\<close>

lemmas run_defs = sys_init_def start_all_def shm_of_def init_threads_def heap_of_def onThread_start_def
  onThread_finish_def shmwrite_def Let_def get_lock_def release_lock_def set_value_def read_qsize_def
  write_last_def clear_local_def COUNT_def locQ_def zero_packet_def mk_packet_def encoding_defs enc_def
  fetchManyPackets_def numPacketsAlternate_def jni_shmwrite_def shmreadvalue_def tejas_get_lock_def
  tejas_release_lock_def tejasUpdateQueueSize_def shmreadMult_def copy_words_def packet_words_def
  jni_std_def upt_rec analysisFn_def log_packet_def shm_debug_queue_def drain_empty

lemma shm_of_inv: "sys_inv n (sys_init (shm_of 0 n) n)"
  by (rule sys_init_inv [OF shm_of_new]) (simp add: heap_of_def)

theorem finished_thread_delivered_witness:
  "\<exists>\<sigma>1 \<sigma>2. sys_step jni_std (sys_init (shm_of 0 2) 2) (Finish 0 7) = Some \<sigma>1
    \<and> sys_step jni_std \<sigma>1 (Fetch 0 1000) = Some \<sigma>2
    \<and> accepted \<sigma>2 0 = accepted (sys_init (shm_of 0 2) 2) 0 @ [Final THREADCOMPLETE 7]
    \<and> list_all2 matches (accepted \<sigma>2 0) (received \<sigma>2 0)"
proof -
  let ?\<sigma> = "sys_init (shm_of 0 2) 2"
  obtain \<sigma>1 where 1: "sys_step jni_std ?\<sigma> (Finish 0 7) = Some \<sigma>1" "accepted \<sigma>1 0 \<noteq> accepted ?\<sigma> 0"
    by (simp add: run_defs)
  have "sys_inv 2 \<sigma>1"
    by (rule sys_init_step_inv [OF shm_of_inv _ _ 1(1)]) (simp_all add: jni_std_def)
  then obtain \<sigma>2 where 2: "sys_step jni_std \<sigma>1 (Fetch 0 1000) = Some \<sigma>2"
    using step_fetch [of 2 \<sigma>1 0 jni_std 1000] by (auto simp: jni_std_def)
  show ?thesis
    using finished_thread_delivered [OF shm_of_inv _ _ 1 _ 2] 1 2 by (auto simp: jni_std_def COUNT_def)
qed

section \<open>Refinement\<close>

text \<open>C4: one call of \<open>analysisFn\<close> on the real data structures does to the abstract channel
  exactly what \<open>spec_send\<close> says, the returned status included, and keeps their invariant.\<close>

theorem send_refines_channel:
  assumes "chan_inv s tid rl" "analysisFn s tid i v a = (s', r)"
  shows "spec_send (mk_packet i v a) (abs_chan s tid rl) = (abs_chan s' tid rl, r) \<and> chan_inv s' tid rl"
  using assms by (rule analysisFn_refines)

lemma shm_of_chan_inv: "chan_inv (start_all (shm_of 0 2) 2) 0 0"
  using shm_of_inv [of 2] by (auto simp: sys_inv_def thread_ok_def sys_init_def)

theorem send_refines_channel_witness:
  "let s = start_all (shm_of 0 2) 2; (s', r) = analysisFn s 0 1 2 3 in
     spec_send (mk_packet 1 2 3) (abs_chan s 0 0) = (abs_chan s' 0 0, r) \<and> chan_inv s' 0 0"
  using send_refines_channel [OF shm_of_chan_inv prod.collapse [symmetric]]
  by (simp add: Let_def case_prod_beta)

text \<open>C5: one call of \<open>fetchManyPackets\<close> takes from the abstract channel's front as many packets as
  there are and fit, leaves the rest, returns their number, and never reads outside the thread's ring.\<close>

theorem fetch_refines_channel:
  assumes "chan_inv s tid rl" "gCOUNT j = COUNT" "td_shm (tldata s tid) = tid * (COUNT + 5)"
  shows "\<exists>g rl' ps r. fetchManyPackets j (seg s) rl tid space = Some (g, rl', ps, r)
    \<and> spec_fetch space (abs_chan s tid rl) = (abs_chan (s\<lparr>seg := g\<rparr>) tid rl', ps)
    \<and> chan_inv (s\<lparr>seg := g\<rparr>) tid rl' \<and> (0 < r \<longrightarrow> r = int (length ps)) \<and> (r \<le> 0 \<longrightarrow> ps = [])"
  using fetch_refines [OF assms, of space] by blast

theorem fetch_refines_channel_witness:
  "let s = start_all (shm_of 0 2) 2 in
   \<exists>g rl' ps r. fetchManyPackets jni_std (seg s) 0 0 7 = Some (g, rl', ps, r)
    \<and> spec_fetch 7 (abs_chan s 0 0) = (abs_chan (s\<lparr>seg := g\<rparr>) 0 rl', ps)
    \<and> chan_inv (s\<lparr>seg := g\<rparr>) 0 rl' \<and> (0 < r \<longrightarrow> r = int (length ps)) \<and> (r \<le> 0 \<longrightarrow> ps = [])"
  unfolding Let_def
  by (rule fetch_refines_channel [OF shm_of_chan_inv])
     (simp_all add: jni_std_def shm_of_def init_threads_eq)

text \<open>C21: \<open>onThread_finish\<close> succeeds exactly when the ring has room for the whole local queue and
  the final packet, and the subset is not complete.\<close>

theorem finish_succeeds_iff:
  assumes "chan_inv s tid rl" "onThread_finish s tid n = (s', r)"
  shows "r = 0 \<longleftrightarrow> \<not> isSubsetsimComplete s \<and> qsize s tid + unat (tlqsize (tldata s tid)) < COUNT"
proof -
  let ?c = "abs_chan s tid rl" and ?c' = "abs_chan s' tid rl"
  have len: "length (stream ?c) = qsize s tid + unat (tlqsize (tldata s tid))"
    by (simp add: stream_def abs_chan_def)
  have d: "ch_done ?c = isSubsetsimComplete s" by (simp add: abs_chan_def)
  from finish_refines [OF assms] have c': "length (ch_shared ?c') \<le> COUNT" using shared_le by blast
  show ?thesis
  proof (cases "r = 0")
    case True
    with finish_refines [OF assms] obtain p where "ch_shared ?c' = stream ?c @ [p]" by auto
    with c' len have "qsize s tid + unat (tlqsize (tldata s tid)) < COUNT" by simp
    moreover have "\<not> isSubsetsimComplete s"
    proof
      assume "isSubsetsimComplete s"
      then have "shmwrite s1 tid f k = (s1, -1)" if "isSubsetsimComplete s1 = isSubsetsimComplete s" for s1 f k
        using that by (simp add: shmwrite_def)
      moreover obtain s1 ok where dr: "drain s tid = (s1, ok)" by fastforce
      moreover have "isSubsetsimComplete s1 = isSubsetsimComplete s"
        using own_change_drain [OF dr] by (simp add: own_change_def)
      ultimately have "r = -1" using assms(2) by (auto simp: onThread_finish_def split: bool.splits)
      with True show False by simp
    qed
    ultimately show ?thesis using True by simp
  next
    case False
    with finish_refines [OF assms] have "stream ?c' = stream ?c" "ch_done ?c \<or> length (ch_shared ?c') = COUNT"
      by auto
    then have "isSubsetsimComplete s \<or> COUNT \<le> length (stream ?c)"
      using d by (auto simp: stream_def dest!: arg_cong [of _ _ length])
    with False len show ?thesis by auto
  qed
qed

theorem finish_succeeds_iff_witness:
  "let s = start_all (shm_of 0 2) 2 in snd (onThread_finish s 0 9) = 0 \<longleftrightarrow>
     \<not> isSubsetsimComplete s \<and> qsize s 0 + unat (tlqsize (tldata s 0)) < COUNT"
  unfolding Let_def by (rule finish_succeeds_iff [OF shm_of_chan_inv prod.collapse [symmetric]])

section \<open>The count of produced packets\<close>

text \<open>What was produced without being in the shared queue any more.\<close>

definition excess :: "chan \<Rightarrow> u64" where
  "excess c = ch_total c - of_nat (length (ch_shared c))"

lemma excess_flush: "length (ch_shared c) \<le> COUNT \<Longrightarrow> spec_flush c = (c', r) \<Longrightarrow> excess c' = excess c"
  by (auto simp: spec_flush_def excess_def Let_def split: if_splits)

lemma excess_send: "length (ch_shared c) \<le> COUNT \<Longrightarrow> spec_send p c = (c', r) \<Longrightarrow> excess c' = excess c"
  using excess_flush [of c]
  by (auto simp: spec_send_def spec_push_def excess_def split: if_splits prod.splits)

lemma excess_fetch: "spec_fetch space c = (c', ps) \<Longrightarrow> excess c' = excess c + of_nat (length ps)"
  by (auto simp: spec_fetch_def Let_def excess_def of_nat_diff min_def)

lemma excess_drain:
  "chan_inv s tid rl \<Longrightarrow> drain s tid = (s', ok) \<Longrightarrow> excess (abs_chan s' tid rl) = excess (abs_chan s tid rl)"
proof (induction s tid rule: drain.induct)
  case (1 s tid)
  obtain s1 r where w: "shmwrite s tid 0 (-1) = (s1, r)" by fastforce
  from shmwrite_refines [OF 1(2) w] have inv: "chan_inv s1 tid rl"
    and f: "spec_flush (abs_chan s tid rl) = (abs_chan s1 tid rl, r)" by auto
  from excess_flush [OF shared_le [OF 1(2)] f] have e: "excess (abs_chan s1 tid rl) = excess (abs_chan s tid rl)" .
  show ?case
  proof (cases "tlqsize (tldata s tid) = 0 \<or> r = -1")
    case True
    with 1(3) w e show ?thesis by (subst (asm) drain.simps) (auto split: if_splits)
  next
    case False
    with 1(3) w have "drain s1 tid = (s', ok)" by (subst (asm) drain.simps) auto
    from 1(1) [OF _ w [symmetric] _ inv this] False e show ?thesis by simp
  qed
qed

text \<open>The cell \<open>COUNT + 4\<close> after a write.\<close>

abbreviation total_cell :: "shm \<Rightarrow> nat \<Rightarrow> u64" where
  "total_cell s tid \<equiv> pk_value (seg s (td_shm (tldata s tid) + COUNT + 4))"

lemma shmwrite_cell:
  assumes "shmwrite s tid fin n = (s', r)"
  shows "total_cell s' tid = tot_prod (tldata s' tid)
    \<or> tot_prod (tldata s' tid) = tot_prod (tldata s tid) \<and> total_cell s' tid = total_cell s tid"
  using assms by (auto simp: shmwrite_def Let_def cells case_prod_beta split: if_splits)


definition cell_step :: "nat \<Rightarrow> shm \<Rightarrow> shm \<Rightarrow> bool" where
  "cell_step tid s s' \<longleftrightarrow> total_cell s' tid = tot_prod (tldata s' tid)
    \<or> tot_prod (tldata s' tid) = tot_prod (tldata s tid) \<and> total_cell s' tid = total_cell s tid"

lemma cell_step_refl: "cell_step tid s s" by (simp add: cell_step_def)

lemma cell_step_trans: "cell_step tid s s' \<Longrightarrow> cell_step tid s' s'' \<Longrightarrow> cell_step tid s s''"
  by (auto simp: cell_step_def)

lemma cell_step_shmwrite: "shmwrite s tid fin n = (s', r) \<Longrightarrow> cell_step tid s s'"
  unfolding cell_step_def by (rule shmwrite_cell)

lemma cell_step_analysisFn: "analysisFn s tid i v a = (s', r) \<Longrightarrow> cell_step tid s s'"
proof -
  have l: "cell_step tid s (log_packet s tid i v a)" for s
    by (simp add: cell_step_def log_packet_def Let_def shm_debug_queue_def)
  assume "analysisFn s tid i v a = (s', r)"
  then show ?thesis
    by (auto simp: analysisFn_def l split: if_splits prod.splits
        intro: cell_step_shmwrite cell_step_trans [OF cell_step_shmwrite l])
qed

lemma cell_step_drain: "drain s tid = (s', ok) \<Longrightarrow> cell_step tid s s'"
proof (induction s tid arbitrary: s' ok rule: drain.induct)
  case (1 s tid)
  obtain s1 r where w: "shmwrite s tid 0 (-1) = (s1, r)" by fastforce
  show ?case
  proof (cases "tlqsize (tldata s tid) = 0 \<or> r = -1")
    case True
    with 1(2) w cell_step_shmwrite [OF w] show ?thesis
      by (subst (asm) drain.simps) (auto simp: cell_step_refl split: if_splits)
  next
    case False
    with 1(2) w have "drain s1 tid = (s', ok)" by (subst (asm) drain.simps) auto
    from 1(1) [OF _ w [symmetric] _ this] False cell_step_shmwrite [OF w] show ?thesis
      by (auto intro: cell_step_trans)
  qed
qed

lemma cell_step_clear: "cell_step tid s (clear_local s tid)"
  by (simp add: cell_step_def clear_local_def)

lemma cell_step_finish: "onThread_finish s tid n = (s', r) \<Longrightarrow> cell_step tid s s'"
  by (auto simp: onThread_finish_def split: if_splits prod.splits bool.splits
      intro: cell_step_drain cell_step_trans [OF cell_step_drain cell_step_shmwrite]
        cell_step_trans [OF cell_step_trans [OF cell_step_drain cell_step_shmwrite] cell_step_clear])

lemma excess_clear: "excess (abs_chan (clear_local s tid) tid rl) = excess (abs_chan s tid rl)"
  by (simp add: excess_def abs_chan_def clear_local_def shared_view_def qsize_def)

lemma excess_final:
  assumes inv: "chan_inv s tid rl" and w: "shmwrite s tid 1 n = (s', r)"
  shows "excess (abs_chan s' tid rl) = excess (abs_chan s tid rl)"
proof (cases "isSubsetsimComplete s \<or> qsize s tid = COUNT")
  case True
  have q: "qsize s tid \<le> COUNT" using inv by (simp add: chan_inv_def)
  show ?thesis using w shmwrite_refused [OF q True, of 1 n] lock_only_abs by (auto split: if_splits)
next
  case False
  with inv have "\<not> isSubsetsimComplete s" "qsize s tid < COUNT" by (auto simp: chan_inv_def)
  from shmwrite_final [OF inv this, of 1 THREADCOMPLETE n] w show ?thesis
    by (auto simp: excess_def)
qed

lemma excess_finish:
  assumes inv: "chan_inv s tid rl" and w: "onThread_finish s tid n = (s', r)"
  shows "excess (abs_chan s' tid rl) = excess (abs_chan s tid rl)"
proof -
  obtain s1 ok where d: "drain s tid = (s1, ok)" by fastforce
  obtain s2 r2 where f: "shmwrite s1 tid 1 n = (s2, r2)" by fastforce
  have inv1: "chan_inv s1 tid rl" using drain_correct [OF inv d] by blast
  have "excess (abs_chan s2 tid rl) = excess (abs_chan s tid rl)"
    using excess_final [OF inv1 f] excess_drain [OF inv d] by simp
  then show ?thesis
    using w d f excess_drain [OF inv d] excess_clear
    by (auto simp: onThread_finish_def split: if_splits bool.splits)
qed


text \<open>Emulator's count and cell along a run; \<open>base\<close> is the count the heap held at the start.\<close>

definition produced_ok :: "(nat \<Rightarrow> u64) \<Rightarrow> sys \<Rightarrow> nat \<Rightarrow> bool" where
  "produced_ok base \<sigma> t \<longleftrightarrow>
     excess (abs_chan (emu \<sigma>) t (rloc \<sigma> t)) = base t + of_nat (length (received \<sigma> t))
     \<and> (total_cell (emu \<sigma>) t = tot_prod (tldata (emu \<sigma>) t) \<or> tot_prod (tldata (emu \<sigma>) t) = base t)"

lemma produced_other:
  assumes "sys_inv n \<sigma>" "t < n" "tid < n" "t \<noteq> tid" "own_change tid (emu \<sigma>) s" "produced_ok base \<sigma> t"
    "emu \<sigma>' = s" "rloc \<sigma>' t = rloc \<sigma> t" "received \<sigma>' t = received \<sigma> t"
  shows "produced_ok base \<sigma>' t"
proof -
  from assms(1-3) have td: "td_shm (tldata (emu \<sigma>) t) = t * (COUNT + 5)"
      "td_shm (tldata (emu \<sigma>) tid) = tid * (COUNT + 5)"
    by (auto simp: sys_inv_def thread_ok_def)
  then have o: "tldata s t = tldata (emu \<sigma>) t" "isSubsetsimComplete s = isSubsetsimComplete (emu \<sigma>)"
    "\<And>c. c < tid * (COUNT + 5) \<or> tid * (COUNT + 5) + COUNT + 5 \<le> c \<Longrightarrow> seg s c = seg (emu \<sigma>) c"
    using assms(4,5) by (auto simp: own_change_def)
  have "seg s (t * (COUNT + 5) + (COUNT + 4)) = seg (emu \<sigma>) (t * (COUNT + 5) + (COUNT + 4))"
    using o(3) regions_disjoint [OF assms(4), of "COUNT + 4"] by simp
  then have "total_cell s t = total_cell (emu \<sigma>) t"
    using td(1) o(1) by (simp add: add.assoc)
  then show ?thesis
    using other_thread_unchanged(1) [OF assms(4) td(1) o] assms(6-9) o(1) by (simp add: produced_ok_def)
qed

lemma cell_step_base:
  "cell_step t s s' \<Longrightarrow> total_cell s t = tot_prod (tldata s t) \<or> tot_prod (tldata s t) = b
    \<Longrightarrow> total_cell s' t = tot_prod (tldata s' t) \<or> tot_prod (tldata s' t) = b"
  by (auto simp: cell_step_def)

lemma produced_step:
  assumes inv: "sys_inv n \<sigma>" and j: "gCOUNT j = COUNT" and e: "event_thread_ok n e"
    and st: "sys_step j \<sigma> e = Some \<sigma>'" and p: "\<forall>t < n. produced_ok base \<sigma> t"
  shows "\<forall>t < n. produced_ok base \<sigma>' t"
proof (intro allI impI)
  fix t assume t: "t < n"
  then have ci: "chan_inv (emu \<sigma>) t (rloc \<sigma> t)" and td: "td_shm (tldata (emu \<sigma>) t) = t * (COUNT + 5)"
    using inv by (auto simp: sys_inv_def thread_ok_def)
  have pt: "produced_ok base \<sigma> t" using p t by blast
  show "produced_ok base \<sigma>' t"
  proof (cases e)
    case (Send tid i v a)
    obtain s r where w: "analysisFn (emu \<sigma>) tid i v a = (s, r)" by fastforce
    have \<sigma>': "emu \<sigma>' = s" "rloc \<sigma>' = rloc \<sigma>" "received \<sigma>' = received \<sigma>" using st w Send by auto
    show ?thesis
    proof (cases "t = tid")
      case True
      from analysisFn_refines [OF ci w [folded True]] excess_send [OF shared_le [OF ci]]
        cell_step_base [OF cell_step_analysisFn [OF w [folded True]]] pt \<sigma>'
      show ?thesis by (auto simp: produced_ok_def)
    qed (use produced_other [OF inv t _ _ own_change_analysisFn [OF w] pt] \<sigma>' e Send in auto)
  next
    case (Finish tid k)
    obtain s r where w: "onThread_finish (emu \<sigma>) tid k = (s, r)" by fastforce
    have \<sigma>': "emu \<sigma>' = s" "rloc \<sigma>' = rloc \<sigma>" "received \<sigma>' = received \<sigma>" using st w Finish by auto
    show ?thesis
    proof (cases "t = tid")
      case True
      from excess_finish [OF ci w [folded True]]
        cell_step_base [OF cell_step_finish [OF w [folded True]]] pt \<sigma>'
      show ?thesis by (auto simp: produced_ok_def)
    qed (use produced_other [OF inv t _ _ own_change_finish [OF w] pt] \<sigma>' e Finish in auto)
  next
    case (Set_complete b)
    with st pt show ?thesis
      by (auto simp: setSubsetsimComplete_def produced_ok_def excess_def abs_chan_def shared_view_def qsize_def)
  next
    case (Fetch tid space)
    have tid: "chan_inv (emu \<sigma>) tid (rloc \<sigma> tid)" "td_shm (tldata (emu \<sigma>) tid) = tid * (COUNT + 5)" "tid < n"
      using inv e Fetch by (auto simp: sys_inv_def thread_ok_def)
    from fetch_refines [OF tid(1) j tid(2), of space] obtain g rl ps r where
      f: "fetchManyPackets j (seg (emu \<sigma>)) (rloc \<sigma> tid) tid space = Some (g, rl, ps, r)"
      and sp: "spec_fetch space (abs_chan (emu \<sigma>) tid (rloc \<sigma> tid)) = (abs_chan ((emu \<sigma>)\<lparr>seg := g\<rparr>) tid rl, ps)"
      and fr: "\<forall>c. c < tid * (COUNT + 5) + COUNT \<or> tid * (COUNT + 5) + COUNT + 3 < c \<longrightarrow> g c = seg (emu \<sigma>) c"
      by blast
    have \<sigma>': "\<sigma>' = \<sigma>\<lparr>emu := (emu \<sigma>)\<lparr>seg := g\<rparr>, rloc := (rloc \<sigma>)(tid := rl),
          received := (received \<sigma>)(tid := received \<sigma> tid @ ps)\<rparr>" using st f Fetch by simp
    have own: "own_change tid (emu \<sigma>) ((emu \<sigma>)\<lparr>seg := g\<rparr>)" using fr tid(2) by (auto simp: own_change_def)
    show ?thesis
    proof (cases "t = tid")
      case True
      have "g (tid * (COUNT + 5) + COUNT + 4) = seg (emu \<sigma>) (tid * (COUNT + 5) + COUNT + 4)" using fr by simp
      with True excess_fetch [OF sp] pt \<sigma>' tid(2) show ?thesis by (simp add: produced_ok_def)
    qed (use produced_other [OF inv t tid(3) _ own pt] \<sigma>' in auto)
  qed
qed

lemma produced_run:
  assumes "sys_inv n \<sigma>" "gCOUNT j = COUNT" "list_all (event_thread_ok n) es" "sys_run j \<sigma> es = Some \<sigma>'"
    "\<forall>t < n. produced_ok base \<sigma> t"
  shows "\<forall>t < n. produced_ok base \<sigma>' t"
  using assms(1,3-5)
proof (induction es arbitrary: \<sigma>)
  case (Cons e es)
  then obtain \<sigma>1 where 1: "sys_step j \<sigma> e = Some \<sigma>1" "sys_run j \<sigma>1 es = Some \<sigma>'"
    by (auto simp: bind_eq_Some_conv)
  from Cons.prems(2) have e: "event_thread_ok n e" "list_all (event_thread_ok n) es" by simp_all
  show ?case
    by (rule Cons.IH [OF sys_init_step_inv [OF Cons.prems(1) assms(2) e(1) 1(1)] e(2) 1(2)
          produced_step [OF Cons.prems(1) assms(2) e(1) 1(1) Cons.prems(4)]])
qed simp




section \<open>The segment\<close>

text \<open>both sides ask the operating system for the same number of bytes (with the \<open>COUNT\<close> and
  the numbers of threads the simulator passes), and as long as that number fits an \<open>int\<close> every cell
  of every thread's region lies inside the segment.\<close>

theorem segment_sizes_agree:
  "jni_size COUNT m e = segment_size (m * e)
   \<and> (int ((COUNT + 5) * sizeof_packet * (m * e)) < 2 ^ 31 \<longrightarrow>
       (\<forall>t < m * e. \<forall>i < COUNT + 5.
          int (((COUNT + 5) * t + i + 1) * sizeof_packet) \<le> segment_size (m * e)))"
proof (intro conjI impI allI)
  show "jni_size COUNT m e = segment_size (m * e)"
    by (simp add: jni_size_def segment_size_def mult.assoc mult.commute mult.left_commute)
next
  fix t i
  assume f: "int ((COUNT + 5) * sizeof_packet * (m * e)) < 2 ^ 31" and t: "t < m * e" and i: "i < COUNT + 5"
  have "segment_size (m * e) = int ((COUNT + 5) * sizeof_packet * (m * e))"
    unfolding segment_size_def by (rule sint_of_nat_small) (use f in \<open>metis of_nat_less_iff of_nat_numeral of_nat_power\<close>)
  moreover have "(COUNT + 5) * t + i + 1 \<le> (COUNT + 5) * Suc t" using i by simp
  moreover have "(COUNT + 5) * Suc t \<le> (COUNT + 5) * (m * e)" using t by (intro mult_le_mono2) simp
  ultimately show "int (((COUNT + 5) * t + i + 1) * sizeof_packet) \<le> segment_size (m * e)"
    using mult_le_mono1 [of "(COUNT + 5) * t + i + 1" "(COUNT + 5) * (m * e)" sizeof_packet]
    by (simp only: of_nat_le_iff ac_simps)
qed

theorem segment_sizes_agree_witness:
  "jni_size COUNT 2 4 = segment_size 8
   \<and> int (((COUNT + 5) * 7 + (COUNT + 4) + 1) * sizeof_packet) \<le> segment_size 8"
proof -
  have "int ((COUNT + 5) * sizeof_packet * (2 * 4)) < 2 ^ 31" by (simp add: COUNT_def sizeof_packet_def)
  then have "jni_size COUNT 2 4 = segment_size (2 * 4)"
      and "\<forall>t < 2 * 4. \<forall>i < COUNT + 5. int (((COUNT + 5) * t + i + 1) * sizeof_packet) \<le> segment_size (2 * 4)"
    using segment_sizes_agree [of 2 4] by blast+
  moreover have "(7::nat) < 2 * 4" and "COUNT + 4 < COUNT + 5" by simp_all
  ultimately have "jni_size COUNT 2 4 = segment_size (2 * 4)"
      and "int (((COUNT + 5) * 7 + (COUNT + 4) + 1) * sizeof_packet) \<le> segment_size (2 * 4)" by blast+
  then show ?thesis by (simp only: arith_simps)
qed

section \<open>The write index is never initialised\<close>

text \<open>if the heap does not happen to hold 0 in \<open>prod_ptr\<close>, the channel is broken from the start:
  with a 5 there, a thread that only finishes (successfully) makes the simulator receive one packet, and it is
  not the final packet but whatever the segment held, so the simulator never learns that the thread ended.\<close>

theorem uninitialised_write_index_loses_packets:
  "\<exists>s \<sigma>. Shm_new_pid (\<lambda>_. 1) (\<lambda>_ _. 1) (\<lambda>_. Some (\<lambda>_. zero_packet)) (heap_of 5) (\<lambda>_ _. zero_packet) 1 2 = Inr s
    \<and> sys_run jni_std (sys_init s 2) [Finish 0 7, Fetch 0 1000] = Some \<sigma>
    \<and> accepted \<sigma> 0 = [Final THREADCOMPLETE 7] \<and> received \<sigma> 0 = [zero_packet]
    \<and> \<not> list_all2 matches (accepted \<sigma> 0) (received \<sigma> 0)"
proof -
  have "\<exists>\<sigma>. sys_run jni_std (sys_init (shm_of 5 2) 2) [Finish 0 7, Fetch 0 1000] = Some \<sigma>
    \<and> accepted \<sigma> 0 = [Final THREADCOMPLETE 7] \<and> received \<sigma> 0 = [zero_packet]"
    by (simp add: run_defs)
  moreover have "\<not> list_all2 matches [Final THREADCOMPLETE 7] [zero_packet]"
    by (simp add: final_packet_def zero_packet_def)
  ultimately show ?thesis using shm_of_new [of 5 1 2] by metis
qed

section \<open>Reusing a thread's slot\<close>


section \<open>Ending the subset\<close>

lemma send_forever_never: "send_forever env tid i v a s = Some s' \<Longrightarrow> False"
  by (induction rule: send_forever.raw_induct [rotated, where P = "\<lambda>_ _ _ _ _ _ _. False", consumes 1])
     (auto simp: bind_eq_Some_conv)

text \<open>\<open>onSubset_finish\<close> never reports success: whatever the other side does, it returns -1 or
  does not return at all, because the loop that repeats the final packet has no exit.  The write of the
  final packet after that loop is dead code.\<close>

theorem subset_finish_never_succeeds:
  "onSubset_finish env s tid n = None \<or> (\<exists>s'. onSubset_finish env s tid n = Some (s', -1))"
proof -
  have "send_forever env tid 0 (enc SUBSETSIMCOMPLETE) n s' = None" for s'
    using send_forever_never by (metis not_Some_eq)
  then show ?thesis
    by (auto simp: onSubset_finish_def split: prod.splits bool.splits)
qed

end
