(* ===== verification/Prog.thy ===== *)
theory Prog
  imports Prelude
begin

text \<open>
  Programs over a state that may stop the whole process or never return.  A C++ function of the tools
  becomes a \<open>prog\<close>: \<open>None\<close> is a call that never returns, \<open>Some (Inl e)\<close> a call that ends the
  process, \<open>Some (Inr (a, s))\<close> a normal return of \<open>a\<close> in the state \<open>s\<close>.  \<open>Abort\<close> is a failed
  assertion or a call of \<open>abort\<close>, \<open>Uncaught\<close> an exception nobody catches, \<open>Bus_error\<close> the signal for an access
  to a mapped page behind the end of the file.  \<open>Undefined\<close> marks a
  step the language gives no meaning to, such as a write outside an array; nothing after it is claimed.
\<close>

datatype stop = Exit int | Abort | Uncaught | Bus_error | Undefined

type_synonym ('s, 'a) prog = "'s \<Rightarrow> (stop + 'a \<times> 's) option"

named_theorems prog_simps \<open>evaluation of programs\<close>

definition ret :: "'a \<Rightarrow> ('s, 'a) prog" where
  "ret a = (\<lambda>s. Some (Inr (a, s)))"

definition stops :: "stop \<Rightarrow> ('s, 'a) prog" where
  "stops e = (\<lambda>s. Some (Inl e))"

definition bindP :: "('s, 'a) prog \<Rightarrow> ('a \<Rightarrow> ('s, 'b) prog) \<Rightarrow> ('s, 'b) prog" where
  "bindP m f = (\<lambda>s. case m s of None \<Rightarrow> None | Some (Inl e) \<Rightarrow> Some (Inl e) | Some (Inr (a, s')) \<Rightarrow> f a s')"

definition getP :: "('s \<Rightarrow> 'a) \<Rightarrow> ('s, 'a) prog" where
  "getP f = (\<lambda>s. Some (Inr (f s, s)))"

definition modify :: "('s \<Rightarrow> 's) \<Rightarrow> ('s, unit) prog" where
  "modify f = (\<lambda>s. Some (Inr ((), f s)))"

definition whenP :: "bool \<Rightarrow> ('s, unit) prog \<Rightarrow> ('s, unit) prog" where
  "whenP b m = (if b then m else ret ())"

text \<open>A C++ block: the statements one after the other.\<close>

fun block :: "('s, unit) prog list \<Rightarrow> ('s, unit) prog" where
  "block [] = ret ()"
| "block (m # ms) = bindP m (\<lambda>_. block ms)"

lemma block_one: "block [m] = m"
  by (auto simp: bindP_def ret_def fun_eq_iff split: option.splits sum.splits)

lemma block_more: "block (m # m' # ms) = bindP m (\<lambda>_. block (m' # ms))"
  by (rule block.simps)

lemmas block_simps [simp] = block.simps(1) block_one block_more

declare block.simps(2) [simp del]

lemma ret_apply [prog_simps]: "ret a s = Some (Inr (a, s))" by (simp add: ret_def)
lemma stops_apply [prog_simps]: "stops e s = Some (Inl e)" by (simp add: stops_def)
lemma getP_apply [prog_simps]: "getP f s = Some (Inr (f s, s))" by (simp add: getP_def)
lemma modify_apply [prog_simps]: "modify f s = Some (Inr ((), f s))" by (simp add: modify_def)
lemma whenP_apply [prog_simps]: "whenP b m s = (if b then m s else Some (Inr ((), s)))"
  by (simp add: whenP_def ret_def)

lemma bindP_None [prog_simps]: "m s = None \<Longrightarrow> bindP m f s = None" by (simp add: bindP_def)
lemma bindP_stop [prog_simps]: "m s = Some (Inl e) \<Longrightarrow> bindP m f s = Some (Inl e)" by (simp add: bindP_def)
lemma bindP_ret [prog_simps]: "m s = Some (Inr (a, s')) \<Longrightarrow> bindP m f s = f a s'" by (simp add: bindP_def)

lemma bindP_getP [prog_simps]: "bindP (getP f) g s = g (f s) s" by (simp add: bindP_def getP_def)
lemma bindP_modify [prog_simps]: "bindP (modify f) g s = g () (f s)" by (simp add: bindP_def modify_def)
lemma bindP_ret_left [simp]: "bindP (ret a) g = g a" by (simp add: bindP_def ret_def)
lemma bindP_stops [simp]: "bindP (stops e) g = stops e" by (simp add: bindP_def stops_def)
lemma bindP_ret_right [simp]: "bindP m ret = m"
  by (auto simp: bindP_def ret_def fun_eq_iff split: option.splits sum.splits)

lemma bindP_assoc: "bindP (bindP m f) g = bindP m (\<lambda>a. bindP (f a) g)"
  by (auto simp: bindP_def fun_eq_iff split: option.splits sum.splits)

lemma bindP_Inr_iff:
  "bindP m f s = Some (Inr (b, s'')) \<longleftrightarrow> (\<exists>a s'. m s = Some (Inr (a, s')) \<and> f a s' = Some (Inr (b, s'')))"
  by (auto simp: bindP_def split: option.splits sum.splits)

text \<open>Invariants over programs: every normal return keeps \<open>I\<close>.\<close>

definition keeps :: "('s \<Rightarrow> bool) \<Rightarrow> ('s, 'a) prog \<Rightarrow> bool" where
  "keeps I m \<longleftrightarrow> (\<forall>s a s'. I s \<longrightarrow> m s = Some (Inr (a, s')) \<longrightarrow> I s')"

named_theorems keeps_intros \<open>programs that keep an invariant\<close>

lemma keepsD: "keeps I m \<Longrightarrow> m s = Some (Inr (a, s')) \<Longrightarrow> I s \<Longrightarrow> I s'"
  by (auto simp: keeps_def)

lemma keeps_ret [keeps_intros]: "keeps I (ret a)" by (auto simp: keeps_def ret_def)
lemma keeps_stops [keeps_intros]: "keeps I (stops e)" by (auto simp: keeps_def stops_def)
lemma keeps_getP [keeps_intros]: "keeps I (getP f)" by (auto simp: keeps_def getP_def)
lemma keeps_modify [keeps_intros]: "(\<And>s. I s \<Longrightarrow> I (f s)) \<Longrightarrow> keeps I (modify f)"
  by (auto simp: keeps_def modify_def)
lemma keeps_bindP [keeps_intros]: "keeps I m \<Longrightarrow> (\<And>a. keeps I (f a)) \<Longrightarrow> keeps I (bindP m f)"
  unfolding keeps_def bindP_Inr_iff by blast
lemma keeps_whenP [keeps_intros]: "(b \<Longrightarrow> keeps I m) \<Longrightarrow> keeps I (whenP b m)"
  by (auto simp: whenP_def keeps_ret)
lemma keeps_block [keeps_intros]: "(\<And>m. m \<in> set ms \<Longrightarrow> keeps I m) \<Longrightarrow> keeps I (block ms)"
  by (induction ms) (auto simp: block.simps(2) intro: keeps_ret keeps_bindP)
lemma keeps_if [keeps_intros]: "(b \<Longrightarrow> keeps I m) \<Longrightarrow> (\<not> b \<Longrightarrow> keeps I m') \<Longrightarrow> keeps I (if b then m else m')"
  by simp

end
