(* ===== verification/IPCBase.thy ===== *)
theory IPCBase
  imports Channel Prog
begin

text \<open>
  The interface between the tools and a transport: the virtual class \<open>IPCBase\<close> of
  \<open>communication/IPCBase.h\<close>.  \<open>ipc\<close> is its table of methods; the tools (theories \<open>Causality\<close> and
  \<open>OtherTools\<close>) call a transport only through it.  The locale \<open>packet_channel\<close> is the contract of the
  interface, \<open>live_channel\<close> adds that the busy loops of the tools end; both are proved of the
  shared-memory transport here and the first of the trace files in \<open>FilePacket\<close>.
\<close>

section \<open>The method table\<close>

text \<open>A method that ends the process returns \<open>Inl\<close> of the way it does; one that may not return is an
  option.  \<open>PIN_Yield\<close> is Pin's function: what the other threads and the simulator do to the
  transport while the caller yields is a parameter of the transport.\<close>

record 'c ipc =
  op_analysisFn :: "'c \<Rightarrow> nat \<Rightarrow> u64 \<Rightarrow> u64 \<Rightarrow> u64 \<Rightarrow> stop + ('c \<times> int)"
  op_analysisFnAssembly :: "'c \<Rightarrow> nat \<Rightarrow> u64 \<Rightarrow> u64 \<Rightarrow> string \<Rightarrow> stop + ('c \<times> int)"
  op_onThread_start :: "'c \<Rightarrow> nat \<Rightarrow> 'c"
  op_onThread_finish :: "'c \<Rightarrow> nat \<Rightarrow> u64 \<Rightarrow> stop + ('c \<times> int)"
  op_onSubset_finish :: "'c \<Rightarrow> nat \<Rightarrow> u64 \<Rightarrow> (stop + ('c \<times> int)) option"
  op_isSubsetsimCompleted :: "'c \<Rightarrow> bool"
  op_setSubsetsimComplete :: "'c \<Rightarrow> bool \<Rightarrow> 'c \<times> bool"
  op_unload :: "'c \<Rightarrow> 'c"
  PIN_Yield :: "'c \<Rightarrow> 'c"

text \<open>\<open>while (call == -1) PIN_Yield();\<close>\<close>

partial_function (option) until_sent ::
    "('c \<Rightarrow> (stop + ('c \<times> int)) option) \<Rightarrow> ('c \<Rightarrow> 'c) \<Rightarrow> 'c \<Rightarrow> (stop + 'c) option" where
  "until_sent call yield c =
     (case call c of
        None \<Rightarrow> None
      | Some (Inl e) \<Rightarrow> Some (Inl e)
      | Some (Inr (c', r)) \<Rightarrow> if r = -1 then until_sent call yield (yield c') else Some (Inr c'))"

definition send_loop :: "'c ipc \<Rightarrow> nat \<Rightarrow> u64 \<Rightarrow> u64 \<Rightarrow> u64 \<Rightarrow> 'c \<Rightarrow> (stop + 'c) option" where
  "send_loop I tid i v a = until_sent (\<lambda>c. Some (op_analysisFn I c tid i v a)) (PIN_Yield I)"

section \<open>The contract\<close>

text \<open>\<open>ok\<close> is the transport's invariant, \<open>hist c t\<close> what it has accepted from thread \<open>t\<close> of \<open>n\<close>,
  \<open>legal\<close> the encodings it takes, \<open>fin k\<close> what a thread that finishes after \<open>k\<close> instructions adds.\<close>

locale packet_channel =
  fixes I :: "'c ipc" and ok :: "'c \<Rightarrow> bool" and hist :: "'c \<Rightarrow> nat \<Rightarrow> item list"
    and n :: nat and legal :: "u64 \<Rightarrow> bool" and fin :: "u64 \<Rightarrow> item list"
  assumes send: "ok c \<Longrightarrow> tid < n \<Longrightarrow> legal v \<Longrightarrow> \<exists>c' r. op_analysisFn I c tid i v a = Inr (c', r) \<and> ok c'
      \<and> (r = 0 \<and> hist c' = (hist c)(tid := hist c tid @ [Pkt (mk_packet i v a)]) \<or> r = -1 \<and> hist c' = hist c)"
    and finish: "ok c \<Longrightarrow> tid < n \<Longrightarrow> \<exists>c' r. op_onThread_finish I c tid k = Inr (c', r) \<and> ok c'
      \<and> (r = 0 \<and> hist c' = (hist c)(tid := hist c tid @ fin k) \<or> r = -1 \<and> hist c' = hist c)"
    and yield: "ok c \<Longrightarrow> ok (PIN_Yield I c) \<and> hist (PIN_Yield I c) = hist c"
begin

lemma until_sent_appends:
  assumes u: "until_sent (\<lambda>c. Some (meth c)) (PIN_Yield I) c = Some r" and c: "ok c"
    and m: "\<And>c. ok c \<Longrightarrow> \<exists>c' q. meth c = Inr (c', q) \<and> ok c'
      \<and> (q = 0 \<and> hist c' = (hist c)(tid := hist c tid @ xs) \<or> q = -1 \<and> hist c' = hist c)"
  shows "\<exists>c'. r = Inr c' \<and> ok c' \<and> hist c' = (hist c)(tid := hist c tid @ xs)"
proof -
  let ?go = "\<lambda>c. Some (meth c)"
  let ?P = "\<lambda>call y c r. call = ?go \<longrightarrow> y = PIN_Yield I \<longrightarrow> ok c \<longrightarrow>
      (\<exists>c'. r = Inr c' \<and> ok c' \<and> hist c' = (hist c)(tid := hist c tid @ xs))"
  have "?P ?go (PIN_Yield I) c r"
  proof (rule until_sent.raw_induct [where P = ?P, OF _ u], intro impI)
    fix f call y c r
    assume IH: "\<And>call y c r. f call y c = Some r \<Longrightarrow> ?P call y c r"
      and body: "(case call c of None \<Rightarrow> None | Some (Inl e) \<Rightarrow> Some (Inl e)
        | Some (Inr (c', r)) \<Rightarrow> if r = -1 then f call y (y c') else Some (Inr c')) = Some r"
      and h: "call = ?go" "y = PIN_Yield I" "ok c"
    from m [OF h(3)] obtain c' q where
      s: "meth c = Inr (c', q)" "ok c'"
        "q = 0 \<and> hist c' = (hist c)(tid := hist c tid @ xs) \<or> q = -1 \<and> hist c' = hist c"
      by blast
    show "\<exists>c'. r = Inr c' \<and> ok c' \<and> hist c' = (hist c)(tid := hist c tid @ xs)"
    proof (cases "q = -1")
      case True
      with body s h have "f call y (y c') = Some r" by simp
      from IH [OF this] h yield [OF s(2)] True s(3) show ?thesis by auto
    next
      case False
      with body s h show ?thesis by auto
    qed
  qed
  with c show ?thesis by simp
qed

lemma send_loop_sends:
  assumes "send_loop I tid i v a c = Some r" "ok c" "tid < n" "legal v"
  shows "\<exists>c'. r = Inr c' \<and> ok c' \<and> hist c' = (hist c)(tid := hist c tid @ [Pkt (mk_packet i v a)])"
  using until_sent_appends [OF assms(1) [unfolded send_loop_def] assms(2) send [OF _ assms(3,4)]] .

lemma finish_loop_finishes:
  assumes "until_sent (\<lambda>c. Some (op_onThread_finish I c tid k)) (PIN_Yield I) c = Some r" "ok c" "tid < n"
  shows "\<exists>c'. r = Inr c' \<and> ok c' \<and> hist c' = (hist c)(tid := hist c tid @ fin k)"
  using until_sent_appends [OF assms(1,2) finish [OF _ assms(3)]] .

end

text \<open>A transport whose reader makes room: what is refused once is taken after the next yield.\<close>

locale live_channel = packet_channel +
  fixes live :: "'a \<Rightarrow> bool"
  assumes retry: "ok c \<Longrightarrow> live c \<Longrightarrow> tid < n \<Longrightarrow> legal v \<Longrightarrow> op_analysisFn I c tid i v a = Inr (c', -1) \<Longrightarrow>
      \<exists>c''. op_analysisFn I (PIN_Yield I c') tid i v a = Inr (c'', 0)"
    and live_send: "ok c \<Longrightarrow> live c \<Longrightarrow> tid < n \<Longrightarrow> op_analysisFn I c tid i v a = Inr (c', r) \<Longrightarrow> live c'"
    and live_yield: "ok c \<Longrightarrow> live c \<Longrightarrow> live (PIN_Yield I c)"
begin

lemma send_loop_ends:
  assumes "ok c" "live c" "tid < n" "legal v"
  shows "\<exists>c'. send_loop I tid i v a c = Some (Inr c') \<and> ok c' \<and> live c'
    \<and> hist c' = (hist c)(tid := hist c tid @ [Pkt (mk_packet i v a)])"
proof -
  obtain c1 r where s: "op_analysisFn I c tid i v a = Inr (c1, r)" "ok c1" "r = 0 \<or> r = -1"
    using send [OF assms(1,3,4)] by blast
  have l1: "live c1" by (rule live_send [OF assms(1-3) s(1)])
  have "\<exists>c'. send_loop I tid i v a c = Some (Inr c') \<and> live c'"
  proof (cases "r = -1")
    case True
    from retry [OF assms s(1) [unfolded True]] obtain c2
      where c2: "op_analysisFn I (PIN_Yield I c1) tid i v a = Inr (c2, 0)" by blast
    have "live c2"
      using live_send [OF _ live_yield [OF s(2) l1] assms(3) c2] yield [OF s(2)] by blast
    with s(1) True c2 show ?thesis
      unfolding send_loop_def by (subst until_sent.simps, simp) (subst until_sent.simps, simp)
  next
    case False
    with s l1 show ?thesis unfolding send_loop_def by (subst until_sent.simps) simp
  qed
  then obtain c' where c': "send_loop I tid i v a c = Some (Inr c')" "live c'" by blast
  from send_loop_sends [OF c'(1) assms(1,3,4)] c' show ?thesis by auto
qed

end

end
