(* ===== verification/ShmIPC.thy ===== *)
theory ShmIPC
  imports ShmLimits IPCBase
begin

text \<open>
  The shared-memory transport (\<open>IPC::Shm\<close>, theory \<open>Shm\<close>) as an implementation of the interface of
  \<open>IPCBase\<close>.  Its state is the whole channel \<open>sys\<close>, the simulator's side included; at every
  \<open>PIN_Yield\<close> the simulator polls each of the \<open>n\<close> threads once, with room for \<open>space\<close> packets.
\<close>

section \<open>The method table of Shm\<close>

definition sys_send :: "sys \<Rightarrow> nat \<Rightarrow> u64 \<Rightarrow> u64 \<Rightarrow> u64 \<Rightarrow> sys \<times> int" where
  "sys_send \<sigma> tid i v a =
     (case analysisFn (emu \<sigma>) tid i v a of (s, r) \<Rightarrow>
        (\<sigma>\<lparr>emu := s, accepted := (if r = -1 then accepted \<sigma>
           else (accepted \<sigma>)(tid := accepted \<sigma> tid @ [Pkt (mk_packet i v a)]))\<rparr>, r))"

definition sys_finish :: "sys \<Rightarrow> nat \<Rightarrow> u64 \<Rightarrow> sys \<times> int" where
  "sys_finish \<sigma> tid k =
     (case onThread_finish (emu \<sigma>) tid k of (s, r) \<Rightarrow>
        (\<sigma>\<lparr>emu := s, accepted := (if r = -1 then accepted \<sigma>
           else (accepted \<sigma>)(tid := accepted \<sigma> tid @ [Final THREADCOMPLETE k]))\<rparr>, r))"

definition poll_all :: "jni \<Rightarrow> nat \<Rightarrow> int \<Rightarrow> sys \<Rightarrow> sys" where
  "poll_all j n space \<sigma> =
     (case sys_run j \<sigma> (map (\<lambda>t. Fetch t space) [0..<n]) of None \<Rightarrow> \<sigma> | Some \<sigma>' \<Rightarrow> \<sigma>')"

definition shm_ipc :: "jni \<Rightarrow> nat \<Rightarrow> int \<Rightarrow> (segment \<Rightarrow> int) \<Rightarrow> sys ipc" where
  "shm_ipc j n space shmdt = \<lparr>
     op_analysisFn = (\<lambda>\<sigma> tid i v a. Inr (sys_send \<sigma> tid i v a)),
     op_analysisFnAssembly = (\<lambda>\<sigma> tid i v str. case analysisFnAssembly (emu \<sigma>) tid i v str of
        Inl e \<Rightarrow> Inl (Exit e) | Inr (s, r) \<Rightarrow> Inr (\<sigma>\<lparr>emu := s\<rparr>, r)),
     op_onThread_start = (\<lambda>\<sigma> tid. \<sigma>\<lparr>emu := onThread_start (emu \<sigma>) tid\<rparr>),
     op_onThread_finish = (\<lambda>\<sigma> tid k. Inr (sys_finish \<sigma> tid k)),
     op_onSubset_finish = (\<lambda>\<sigma> tid k. map_option (\<lambda>(s, r). Inr (\<sigma>\<lparr>emu := s\<rparr>, r))
        (onSubset_finish (\<lambda>s. s) (emu \<sigma>) tid k)),
     op_isSubsetsimCompleted = (\<lambda>\<sigma>. isSubsetsimCompleted (emu \<sigma>)),
     op_setSubsetsimComplete = (\<lambda>\<sigma> b. (\<sigma>\<lparr>emu := fst (setSubsetsimComplete (emu \<sigma>) b)\<rparr>,
        snd (setSubsetsimComplete (emu \<sigma>) b))),
     op_unload = (\<lambda>\<sigma>. if unload shmdt (emu \<sigma>) then \<sigma> else \<sigma>),
     PIN_Yield = poll_all j n space\<rparr>"

text \<open>What the simulator does during \<open>onSubset_finish\<close> makes no difference to its result.\<close>

lemma onSubset_finish_env: "onSubset_finish env s tid k = onSubset_finish env' s tid k"
proof -
  have "send_forever e tid 0 (enc SUBSETSIMCOMPLETE) k s' = None" for s' e
    using send_forever_never by (metis not_Some_eq)
  then show ?thesis
    by (simp add: onSubset_finish_def split: prod.splits bool.splits)
qed

section \<open>Polling\<close>

lemma sys_send_step: "sys_step j \<sigma> (Send tid i v a) = Some (fst (sys_send \<sigma> tid i v a))"
  by (simp add: sys_send_def case_prod_beta)

lemma sys_finish_step: "sys_step j \<sigma> (Finish tid k) = Some (fst (sys_finish \<sigma> tid k))"
  by (simp add: sys_finish_def case_prod_beta)

text \<open>One poll of a thread leaves the other threads' channels alone, empties the polled one by as much as
  there is room for, and accepts nothing.\<close>

lemma poll_step:
  assumes "sys_inv n \<sigma>" "gCOUNT j = COUNT" "tid < n"
  shows "\<exists>\<sigma>'. sys_step j \<sigma> (Fetch tid space) = Some \<sigma>' \<and> sys_inv n \<sigma>' \<and> accepted \<sigma>' = accepted \<sigma>
    \<and> tldata (emu \<sigma>') = tldata (emu \<sigma>) \<and> isSubsetsimComplete (emu \<sigma>') = isSubsetsimComplete (emu \<sigma>)
    \<and> qsize (emu \<sigma>') tid = qsize (emu \<sigma>) tid - nat space
    \<and> (\<forall>t < n. t \<noteq> tid \<longrightarrow> qsize (emu \<sigma>') t = qsize (emu \<sigma>) t)"
proof -
  from step_fetch [OF assms(1,3,2), of space] obtain \<sigma>' where
    st: "sys_step j \<sigma> (Fetch tid space) = Some \<sigma>'" and inv': "sys_inv n \<sigma>'" by blast
  from assms have inv: "chan_inv (emu \<sigma>) tid (rloc \<sigma> tid)" and td: "td_shm (tldata (emu \<sigma>) tid) = tid * (COUNT + 5)"
    by (auto simp: sys_inv_def thread_ok_def)
  from fetch_refines [OF inv assms(2) td, of space] obtain g rl ps r where
    f: "fetchManyPackets j (seg (emu \<sigma>)) (rloc \<sigma> tid) tid space = Some (g, rl, ps, r)"
    and sp: "spec_fetch space (abs_chan (emu \<sigma>) tid (rloc \<sigma> tid)) = (abs_chan ((emu \<sigma>)\<lparr>seg := g\<rparr>) tid rl, ps)"
    and fr: "\<forall>c. c < tid * (COUNT + 5) + COUNT \<or> tid * (COUNT + 5) + COUNT + 3 < c \<longrightarrow> g c = seg (emu \<sigma>) c"
    by blast
  have \<sigma>': "emu \<sigma>' = (emu \<sigma>)\<lparr>seg := g\<rparr>" "accepted \<sigma>' = accepted \<sigma>" using st f by auto
  have "length (ch_shared (abs_chan ((emu \<sigma>)\<lparr>seg := g\<rparr>) tid rl)) =
      length (ch_shared (abs_chan (emu \<sigma>) tid (rloc \<sigma> tid))) - nat space"
    using arg_cong [OF sp, of "\<lambda>(c, _). length (ch_shared c)"]
    by (simp add: spec_fetch_def Let_def case_prod_beta)
  then have "qsize (emu \<sigma>') tid = qsize (emu \<sigma>) tid - nat space" by (simp add: abs_chan_def \<sigma>')
  moreover have "qsize (emu \<sigma>') t = qsize (emu \<sigma>) t" if t: "t < n" "t \<noteq> tid" for t
  proof -
    have tdt: "td_shm (tldata (emu \<sigma>) t) = t * (COUNT + 5)"
      using assms(1) t(1) by (auto simp: sys_inv_def thread_ok_def)
    have "g (t * (COUNT + 5) + COUNT) = seg (emu \<sigma>) (t * (COUNT + 5) + COUNT)"
      using regions_disjoint [OF t(2), of COUNT] by (intro fr [rule_format]) linarith
    then show ?thesis by (simp add: qsize_def \<sigma>' tdt)
  qed
  ultimately show ?thesis using st inv' \<sigma>' by auto
qed

lemma poll_run:
  assumes "sys_inv n \<sigma>" "gCOUNT j = COUNT" "set ts \<subseteq> {..<n}" "0 < space"
  shows "\<exists>\<sigma>'. sys_run j \<sigma> (map (\<lambda>t. Fetch t space) ts) = Some \<sigma>' \<and> sys_inv n \<sigma>'
    \<and> accepted \<sigma>' = accepted \<sigma> \<and> tldata (emu \<sigma>') = tldata (emu \<sigma>)
    \<and> isSubsetsimComplete (emu \<sigma>') = isSubsetsimComplete (emu \<sigma>)
    \<and> (\<forall>t < n. qsize (emu \<sigma>') t \<le> qsize (emu \<sigma>) t)
    \<and> (\<forall>t \<in> set ts. qsize (emu \<sigma>') t < COUNT)"
  using assms(1,3)
proof (induction ts arbitrary: \<sigma>)
  case Nil
  then show ?case by simp
next
  case (Cons tid ts)
  then have tid: "tid < n" by simp
  from poll_step [OF Cons.prems(1) assms(2) tid, of space] obtain \<sigma>1 where
    1: "sys_step j \<sigma> (Fetch tid space) = Some \<sigma>1" "sys_inv n \<sigma>1" "accepted \<sigma>1 = accepted \<sigma>"
      "tldata (emu \<sigma>1) = tldata (emu \<sigma>)" "isSubsetsimComplete (emu \<sigma>1) = isSubsetsimComplete (emu \<sigma>)"
      "qsize (emu \<sigma>1) tid = qsize (emu \<sigma>) tid - nat space"
      "\<forall>t < n. t \<noteq> tid \<longrightarrow> qsize (emu \<sigma>1) t = qsize (emu \<sigma>) t"
    by auto
  from Cons.IH [OF 1(2)] Cons.prems(2) obtain \<sigma>2 where
    2: "sys_run j \<sigma>1 (map (\<lambda>t. Fetch t space) ts) = Some \<sigma>2" "sys_inv n \<sigma>2" "accepted \<sigma>2 = accepted \<sigma>1"
      "tldata (emu \<sigma>2) = tldata (emu \<sigma>1)" "isSubsetsimComplete (emu \<sigma>2) = isSubsetsimComplete (emu \<sigma>1)"
      "\<forall>t < n. qsize (emu \<sigma>2) t \<le> qsize (emu \<sigma>1) t" "\<forall>t \<in> set ts. qsize (emu \<sigma>2) t < COUNT"
    by auto
  have "qsize (emu \<sigma>) tid \<le> COUNT"
    using Cons.prems(1) tid by (auto simp: sys_inv_def thread_ok_def chan_inv_def)
  then have "qsize (emu \<sigma>1) tid < COUNT" "qsize (emu \<sigma>1) tid \<le> qsize (emu \<sigma>) tid"
    using 1(6) assms(4) COUNT_pos by linarith+
  then have "qsize (emu \<sigma>1) t \<le> qsize (emu \<sigma>) t" if "t < n" for t
    using 1(7) that by (cases "t = tid") auto
  then have "\<forall>t < n. qsize (emu \<sigma>2) t \<le> qsize (emu \<sigma>) t"
    using 2(6) by (meson le_trans)
  moreover have "qsize (emu \<sigma>2) tid < COUNT"
    using 2(6) tid \<open>qsize (emu \<sigma>1) tid < COUNT\<close> by (meson le_less_trans)
  ultimately show ?case using 1 2 by (simp del: sys_step.simps)
qed

lemma poll_all_facts:
  assumes "sys_inv n \<sigma>" "gCOUNT j = COUNT" "0 < space"
  shows "sys_inv n (poll_all j n space \<sigma>)" "accepted (poll_all j n space \<sigma>) = accepted \<sigma>"
    "tldata (emu (poll_all j n space \<sigma>)) = tldata (emu \<sigma>)"
    "isSubsetsimComplete (emu (poll_all j n space \<sigma>)) = isSubsetsimComplete (emu \<sigma>)"
    "t < n \<Longrightarrow> qsize (emu (poll_all j n space \<sigma>)) t < COUNT"
proof -
  have "set [0..<n] \<subseteq> {..<n}" by auto
  from poll_run [OF assms(1,2) this assms(3)] obtain \<sigma>' where
    p: "poll_all j n space \<sigma> = \<sigma>'" "sys_inv n \<sigma>'" "accepted \<sigma>' = accepted \<sigma>"
      "tldata (emu \<sigma>') = tldata (emu \<sigma>)" "isSubsetsimComplete (emu \<sigma>') = isSubsetsimComplete (emu \<sigma>)"
      "\<forall>t \<in> set [0..<n]. qsize (emu \<sigma>') t < COUNT"
    by (auto simp: poll_all_def)
  then show "sys_inv n (poll_all j n space \<sigma>)" "accepted (poll_all j n space \<sigma>) = accepted \<sigma>"
    "tldata (emu (poll_all j n space \<sigma>)) = tldata (emu \<sigma>)"
    "isSubsetsimComplete (emu (poll_all j n space \<sigma>)) = isSubsetsimComplete (emu \<sigma>)"
    "t < n \<Longrightarrow> qsize (emu (poll_all j n space \<sigma>)) t < COUNT"
    by simp_all
qed


section \<open>Shm keeps the contract\<close>

lemma sys_send_cases:
  assumes "sys_inv n \<sigma>" "tid < n" "sys_send \<sigma> tid i v a = (\<sigma>', r)"
  shows "sys_inv n \<sigma>'" "isSubsetsimComplete (emu \<sigma>') = isSubsetsimComplete (emu \<sigma>)"
    "r = 0 \<and> accepted \<sigma>' = (accepted \<sigma>)(tid := accepted \<sigma> tid @ [Pkt (mk_packet i v a)])
     \<or> r = -1 \<and> accepted \<sigma>' = accepted \<sigma>"
proof -
  show "sys_inv n \<sigma>'"
    using step_send [OF assms(1,2), of undefined i v a] assms(3)
    by (simp only: sys_send_step option.inject) auto
  obtain s where w: "analysisFn (emu \<sigma>) tid i v a = (s, r)" and \<sigma>': "emu \<sigma>' = s"
    "accepted \<sigma>' = (if r = -1 then accepted \<sigma> else (accepted \<sigma>)(tid := accepted \<sigma> tid @ [Pkt (mk_packet i v a)]))"
    using assms(3) by (auto simp: sys_send_def split: prod.splits)
  show "isSubsetsimComplete (emu \<sigma>') = isSubsetsimComplete (emu \<sigma>)"
    using own_change_analysisFn [OF w] \<sigma>' by (simp add: own_change_def)
  have "r = 0 \<or> r = -1" using w by (auto simp: analysisFn_def split: prod.splits if_splits)
  with \<sigma>' show "r = 0 \<and> accepted \<sigma>' = (accepted \<sigma>)(tid := accepted \<sigma> tid @ [Pkt (mk_packet i v a)])
     \<or> r = -1 \<and> accepted \<sigma>' = accepted \<sigma>" by auto
qed

lemma analysisFn_refused:
  assumes "chan_inv s tid rl" "analysisFn s tid i v a = (s', -1)"
  shows "tldata s' = tldata s \<and> (isSubsetsimComplete s \<or> qsize s tid = COUNT)"
proof -
  from assms(2) have w: "shmwrite s tid 0 (-1) = (s', -1)"
    by (auto simp: analysisFn_def split: prod.splits if_splits)
  have q: "qsize s tid \<le> COUNT" using assms(1) by (simp add: chan_inv_def)
  show ?thesis
  proof (cases "isSubsetsimComplete s \<or> qsize s tid = COUNT")
    case True
    with w shmwrite_refused [OF q True, of 0 "-1"] show ?thesis by (auto split: if_splits)
  next
    case False
    then have "\<not> isSubsetsimComplete s" "qsize s tid < COUNT" using q by auto
    from shmwrite_data [OF assms(1) this, of "-1"] w show ?thesis by auto
  qed
qed

lemma analysisFn_accepts:
  assumes "chan_inv s tid rl" "\<not> isSubsetsimComplete s" "qsize s tid < COUNT"
  shows "\<exists>s'. analysisFn s tid i v a = (s', 0)"
proof -
  obtain s' r where w: "analysisFn s tid i v a = (s', r)" by fastforce
  have "r = 0 \<or> r = -1" using w by (auto simp: analysisFn_def split: prod.splits if_splits)
  moreover have "r \<noteq> -1" using analysisFn_refused [of s tid rl i v a s'] assms w by auto
  ultimately show ?thesis using w by auto
qed

lemma sys_finish_cases:
  assumes "sys_inv n \<sigma>" "tid < n" "sys_finish \<sigma> tid k = (\<sigma>', r)"
  shows "sys_inv n \<sigma>'"
    "r = 0 \<and> accepted \<sigma>' = (accepted \<sigma>)(tid := accepted \<sigma> tid @ [Final THREADCOMPLETE k])
     \<or> r = -1 \<and> accepted \<sigma>' = accepted \<sigma>"
proof -
  show "sys_inv n \<sigma>'"
    using step_finish [OF assms(1,2), of undefined k] assms(3)
    by (simp only: sys_finish_step option.inject) auto
  obtain s where w: "onThread_finish (emu \<sigma>) tid k = (s, r)" and
    \<sigma>': "accepted \<sigma>' = (if r = -1 then accepted \<sigma> else (accepted \<sigma>)(tid := accepted \<sigma> tid @ [Final THREADCOMPLETE k]))"
    using assms(3) by (auto simp: sys_finish_def split: prod.splits)
  have "chan_inv (emu \<sigma>) tid (rloc \<sigma> tid)" using assms(1,2) by (simp add: sys_inv_def thread_ok_def)
  from finish_refines [OF this w] \<sigma>'
  show "r = 0 \<and> accepted \<sigma>' = (accepted \<sigma>)(tid := accepted \<sigma> tid @ [Final THREADCOMPLETE k])
     \<or> r = -1 \<and> accepted \<sigma>' = accepted \<sigma>" by auto
qed

definition shm_live :: "sys \<Rightarrow> bool" where
  "shm_live \<sigma> \<longleftrightarrow> \<not> isSubsetsimComplete (emu \<sigma>)"

lemma shm_packet_channel:
  assumes "gCOUNT j = COUNT" "0 < space"
  shows "packet_channel (shm_ipc j n space shmdt) (sys_inv n) accepted n (\<lambda>_. True)
    (\<lambda>k. [Final THREADCOMPLETE k])"
proof unfold_locales
  fix \<sigma> tid i v a assume "sys_inv n \<sigma>" "tid < n"
  then show "\<exists>c' r. op_analysisFn (shm_ipc j n space shmdt) \<sigma> tid i v a = Inr (c', r) \<and> sys_inv n c'
      \<and> (r = 0 \<and> accepted c' = (accepted \<sigma>)(tid := accepted \<sigma> tid @ [Pkt (mk_packet i v a)])
         \<or> r = -1 \<and> accepted c' = accepted \<sigma>)"
    using sys_send_cases(1,3) [of n \<sigma> tid i v a] by (cases "sys_send \<sigma> tid i v a") (simp add: shm_ipc_def)
next
  fix \<sigma> tid k assume "sys_inv n \<sigma>" "tid < n"
  then show "\<exists>c' r. op_onThread_finish (shm_ipc j n space shmdt) \<sigma> tid k = Inr (c', r) \<and> sys_inv n c'
      \<and> (r = 0 \<and> accepted c' = (accepted \<sigma>)(tid := accepted \<sigma> tid @ [Final THREADCOMPLETE k])
         \<or> r = -1 \<and> accepted c' = accepted \<sigma>)"
    using sys_finish_cases [of n \<sigma> tid k] by (cases "sys_finish \<sigma> tid k") (simp add: shm_ipc_def)
next
  fix \<sigma> assume "sys_inv n \<sigma>"
  then show "sys_inv n (PIN_Yield (shm_ipc j n space shmdt) \<sigma>) \<and> accepted (PIN_Yield (shm_ipc j n space shmdt) \<sigma>) = accepted \<sigma>"
    using poll_all_facts(1,2) [OF _ assms] by (simp add: shm_ipc_def)
qed

lemma shm_live_channel:
  assumes "gCOUNT j = COUNT" "0 < space"
  shows "live_channel (shm_ipc j n space shmdt) (sys_inv n) accepted n (\<lambda>_. True)
    (\<lambda>k. [Final THREADCOMPLETE k]) shm_live"
proof (intro live_channel.intro live_channel_axioms.intro shm_packet_channel assms)
  fix \<sigma> tid i v a \<sigma>'
  assume inv: "sys_inv n \<sigma>" and l: "shm_live \<sigma>" and t: "tid < n"
    and r: "op_analysisFn (shm_ipc j n space shmdt) \<sigma> tid i v a = Inr (\<sigma>', -1)"
  then have w: "sys_send \<sigma> tid i v a = (\<sigma>', -1)" by (simp add: shm_ipc_def)
  note c = sys_send_cases [OF inv t w]
  let ?\<sigma> = "poll_all j n space \<sigma>'"
  note p = poll_all_facts [OF c(1) assms]
  have "chan_inv (emu ?\<sigma>) tid (rloc ?\<sigma> tid)" using p(1) t by (simp add: sys_inv_def thread_ok_def)
  moreover have "\<not> isSubsetsimComplete (emu ?\<sigma>)" using p(4) c(2) l by (simp add: shm_live_def)
  ultimately obtain s where "analysisFn (emu ?\<sigma>) tid i v a = (s, 0)"
    using analysisFn_accepts p(5) [OF t] by blast
  then show "\<exists>c''. op_analysisFn (shm_ipc j n space shmdt) (PIN_Yield (shm_ipc j n space shmdt) \<sigma>') tid i v a = Inr (c'', 0)"
    by (simp add: shm_ipc_def sys_send_def)
next
  fix \<sigma> tid i v a \<sigma>' r
  assume "sys_inv n \<sigma>" "shm_live \<sigma>" "tid < n"
    and "op_analysisFn (shm_ipc j n space shmdt) \<sigma> tid i v a = Inr (\<sigma>', r)"
  then show "shm_live \<sigma>'"
    using sys_send_cases(2) [of n \<sigma> tid i v a \<sigma>' r] by (simp add: shm_ipc_def shm_live_def)
next
  fix \<sigma> assume "sys_inv n \<sigma>" "shm_live \<sigma>"
  then show "shm_live (PIN_Yield (shm_ipc j n space shmdt) \<sigma>)"
    using poll_all_facts(4) [OF _ assms] by (simp add: shm_ipc_def shm_live_def)
qed

text \<open>The instance the properties use: the simulator's own constants, any number of threads, room for
  at least one packet at a poll.\<close>

definition std_ipc :: "nat \<Rightarrow> nat \<Rightarrow> (segment \<Rightarrow> int) \<Rightarrow> sys ipc" where
  "std_ipc n k shmdt = shm_ipc jni_std n (int (Suc k)) shmdt"

interpretation shm: live_channel "std_ipc n sp shmdt" "sys_inv n" accepted n "\<lambda>_. True"
    "\<lambda>k. [Final THREADCOMPLETE k]" shm_live for n sp shmdt
  unfolding std_ipc_def by (rule shm_live_channel) (simp_all add: jni_std_def)

text \<open>C8: the busy loop \<open>while (tst->analysisFn(...) == -1) PIN_Yield();\<close> of the tools always ends while
  the subset is not complete and the simulator polls between tries, and it leaves exactly one more
  packet accepted from that thread and nothing else.\<close>

theorem busy_loop_sends_once:
  assumes "sys_inv n \<sigma>" "\<not> isSubsetsimComplete (emu \<sigma>)" "tid < n"
  shows "\<exists>\<sigma>'. send_loop (std_ipc n k shmdt) tid i v a \<sigma> = Some (Inr \<sigma>') \<and> sys_inv n \<sigma>'
    \<and> accepted \<sigma>' = (accepted \<sigma>)(tid := accepted \<sigma> tid @ [Pkt (mk_packet i v a)])"
  using shm.send_loop_ends [where n = n and c = \<sigma> and tid = tid and sp = k and shmdt = shmdt and i = i and v = v and a = a] assms unfolding shm_live_def by blast

theorem busy_loop_sends_once_witness:
  "\<exists>\<sigma>'. send_loop (std_ipc 2 9 (\<lambda>_. 0)) 1 10 20 30 (sys_init (shm_of 0 2) 2) = Some (Inr \<sigma>') \<and> sys_inv 2 \<sigma>'
    \<and> accepted \<sigma>' = (accepted (sys_init (shm_of 0 2) 2))(1 := accepted (sys_init (shm_of 0 2) 2) 1
        @ [Pkt (mk_packet 10 20 30)])"
  by (rule busy_loop_sends_once [OF shm_of_inv]) (simp_all add: sys_init_def shm_of_def)

end
