(* ===== verification/Causality.thy ===== *)
theory Causality
  imports IPCBase
begin

unbundle bit_operations_syntax

text \<open>
  The main Pin tool, \<open>src/emulator/pin/causalityTool.cpp\<close>.  The record \<open>tool\<close> holds its globals;
  every function that Pin calls back is a program over it (theory \<open>Prog\<close>), and sends its packets
  through the method table of a transport (theory \<open>IPCBase\<close>).  What Pin tells a callback (the thread id,
  addresses, the operating-system ids of thread and parent) is an argument.  The four arrays \<open>main\<close>
  allocates have their length and an index outside is \<open>Undefined\<close>; the static arrays of \<open>MaxThreads\<close>
  entries are functions.  The lines written to the terminal are not modelled.  A callback runs as one
  step: the mutex that protects the shared counters is state, so that a callback which forgot to
  release it would block the next one.
\<close>

section \<open>Globals\<close>

definition MaxThreads :: nat where "MaxThreads = 10000"
definition PacketEpoch :: u32 where "PacketEpoch = 50"

text \<open>\<open>MASK\<close> on a 64-bit platform.\<close>

definition MASK :: u64 where "MASK = 0xffffffffffffffff"

datatype TraceMethod = SharedMemory | File

record 'c tool =
  mainLockForPintool :: bool
  numThreads :: int
  livethreads :: int
  checkSum :: u64
  tst :: 'c
  pumpingStatus :: "nat \<Rightarrow> bool"
  curSynchVar :: "nat \<Rightarrow> u64"
  numIns :: u64
  numInsToIgnore :: u64
  numInsToSimulate :: u64
  startMarker :: string
  endMarker :: string
  instructionIgnorePhase :: bool
  outOfROIPhase :: bool
  numCISC :: "nat \<Rightarrow> u64"
  totalNumCISC :: u64
  threadAlive :: "nat \<Rightarrow> bool"
  pinpointsFilename :: string
  sliceArray :: "u64 list"
  currentSlice :: nat
  threadMapping :: "nat list"
  isThreadActive :: "bool list"
  parentId :: "int list"
  currentId :: "int list"
  countPacket :: "nat \<Rightarrow> u32"
  time_ctr :: u32
  num_locks :: int
  num_unlocks :: int
  traceMethod :: TraceMethod

text \<open>\<open>MaxNumActiveThreads\<close> is the length of the arrays, \<open>numberOfSlices\<close> that of \<open>sliceArray\<close>.\<close>

abbreviation maxActive :: "'c tool \<Rightarrow> nat" where
  "maxActive t \<equiv> length (isThreadActive t)"

abbreviation numberOfSlices :: "'c tool \<Rightarrow> nat" where
  "numberOfSlices t \<equiv> length (sliceArray t)"

section \<open>Mutex, clock, sending\<close>

definition PIN_MutexLock :: "('c tool, unit) prog" where
  "PIN_MutexLock = (\<lambda>t. if mainLockForPintool t then None
                        else Some (Inr ((), t\<lparr>mainLockForPintool := True\<rparr>)))"

definition PIN_MutexUnlock :: "('c tool, unit) prog" where
  "PIN_MutexUnlock = modify (\<lambda>t. t\<lparr>mainLockForPintool := False\<rparr>)"

definition add_checkSum :: "int \<Rightarrow> ('c tool, unit) prog" where
  "add_checkSum c = block [PIN_MutexLock, modify (\<lambda>t. t\<lparr>checkSum := checkSum t + enc c\<rparr>), PIN_MutexUnlock]"

text \<open>The loops around the calls of the transport.\<close>

definition lift_loop :: "('c \<Rightarrow> (stop + 'c) option) \<Rightarrow> ('c tool, unit) prog" where
  "lift_loop l = (\<lambda>t. case l (tst t) of None \<Rightarrow> None | Some (Inl e) \<Rightarrow> Some (Inl e)
                      | Some (Inr c) \<Rightarrow> Some (Inr ((), t\<lparr>tst := c\<rparr>)))"

definition send :: "'c ipc \<Rightarrow> nat \<Rightarrow> u64 \<Rightarrow> int \<Rightarrow> u64 \<Rightarrow> ('c tool, unit) prog" where
  "send I tid ip code tgt = lift_loop (send_loop I tid ip (enc code) tgt)"

definition send_assembly :: "'c ipc \<Rightarrow> nat \<Rightarrow> u64 \<Rightarrow> int \<Rightarrow> string \<Rightarrow> ('c tool, unit) prog" where
  "send_assembly I tid ip code asm =
     lift_loop (until_sent (\<lambda>c. Some (op_analysisFnAssembly I c tid ip (enc code) asm)) (PIN_Yield I))"

definition finish_thread :: "'c ipc \<Rightarrow> nat \<Rightarrow> u64 \<Rightarrow> ('c tool, unit) prog" where
  "finish_thread I tid k = lift_loop (until_sent (\<lambda>c. Some (op_onThread_finish I c tid k)) (PIN_Yield I))"

definition finish_subset :: "'c ipc \<Rightarrow> nat \<Rightarrow> u64 \<Rightarrow> ('c tool, unit) prog" where
  "finish_subset I tid k = lift_loop (until_sent (\<lambda>c. op_onSubset_finish I c tid k) (PIN_Yield I))"

definition set_complete :: "'c ipc \<Rightarrow> bool \<Rightarrow> ('c tool, unit) prog" where
  "set_complete I b = modify (\<lambda>t. t\<lparr>tst := fst (op_setSubsetsimComplete I (tst t) b)\<rparr>)"

definition waitForThreadsAndTerminatePin :: "'c ipc \<Rightarrow> ('c tool, unit) prog" where
  "waitForThreadsAndTerminatePin I =
     block [modify (\<lambda>t. t\<lparr>tst := op_unload I (tst t)\<rparr>), stops (Exit 0)]"

definition ClockGetTime :: "('c tool, u64) prog" where
  "ClockGetTime = bindP (getP time_ctr) (\<lambda>n.
     bindP (modify (\<lambda>t. t\<lparr>time_ctr := n + 1\<rparr>)) (\<lambda>_. ret (scast n)))"

definition sendTimerPacket :: "'c ipc \<Rightarrow> nat \<Rightarrow> bool \<Rightarrow> ('c tool, unit) prog" where
  "sendTimerPacket I tid compulsory =
     bindP (getP (\<lambda>t. countPacket t tid)) (\<lambda>n. block [
       modify (\<lambda>t. t\<lparr>countPacket := (countPacket t)(tid := n + 1)\<rparr>),
       whenP (n mod PacketEpoch = 0 \<or> compulsory) (block [
         add_checkSum TIMER,
         modify (\<lambda>t. t\<lparr>countPacket := (countPacket t)(tid := 0)\<rparr>),
         bindP ClockGetTime (\<lambda>time. send I tid time TIMER 0)])])"

section \<open>Thread slots\<close>

fun first_index :: "('a \<Rightarrow> bool) \<Rightarrow> 'a list \<Rightarrow> nat option" where
  "first_index P [] = None"
| "first_index P (x # xs) = (if P x then Some 0 else map_option Suc (first_index P xs))"

definition findThreadMapping :: "nat \<Rightarrow> ('c tool, nat) prog" where
  "findThreadMapping i = bindP (getP threadMapping) (\<lambda>m.
     case first_index (\<lambda>x. x = i) m of Some k \<Rightarrow> ret k | None \<Rightarrow> stops (Exit 0))"

definition isActive :: "nat \<Rightarrow> ('c tool, bool) prog" where
  "isActive tid = getP (\<lambda>t. pumpingStatus t tid)"

definition reActivate :: "nat \<Rightarrow> ('c tool, unit) prog" where
  "reActivate tid = bindP (findThreadMapping tid) (\<lambda>tid.
     modify (\<lambda>t. t\<lparr>pumpingStatus := (pumpingStatus t)(tid := True), curSynchVar := (curSynchVar t)(tid := 0)\<rparr>))"

definition deActivate :: "nat \<Rightarrow> u64 \<Rightarrow> ('c tool, unit) prog" where
  "deActivate tid addr = bindP (findThreadMapping tid) (\<lambda>tid.
     modify (\<lambda>t. t\<lparr>curSynchVar := (curSynchVar t)(tid := addr), pumpingStatus := (pumpingStatus t)(tid := False)\<rparr>))"

definition hasEntered :: "nat \<Rightarrow> u64 \<Rightarrow> ('c tool, bool) prog" where
  "hasEntered tid addr = bindP (findThreadMapping tid) (\<lambda>tid. getP (\<lambda>t. curSynchVar t tid = addr))"

definition findParentSegment :: "int \<Rightarrow> int list \<Rightarrow> int" where
  "findParentSegment parent ids = (case first_index (\<lambda>x. x = parent) ids of Some k \<Rightarrow> int k | None \<Rightarrow> -1)"

text \<open>\<open>ptid\<close> and \<open>ctid\<close> are what \<open>PIN_GetParentTid\<close> and \<open>PIN_GetTid\<close> return.  When no slot is free the
  loop ends with \<open>i\<close> one past the arrays and the three stores that follow are outside of them: the check
  of \<open>livethreads\<close> comes too late.\<close>

definition ThreadStart :: "'c ipc \<Rightarrow> nat \<Rightarrow> int \<Rightarrow> int \<Rightarrow> ('c tool, unit) prog" where
  "ThreadStart I threadid ptid ctid = block [
     PIN_MutexLock,
     modify (\<lambda>t. t\<lparr>numThreads := numThreads t + 1, livethreads := livethreads t + 1\<rparr>),
     bindP (getP (\<lambda>t. first_index Not (isThreadActive t))) (\<lambda>slot.
       case slot of None \<Rightarrow> stops Undefined
       | Some i \<Rightarrow> bindP (modify (\<lambda>t. t\<lparr>isThreadActive := (isThreadActive t)[i := True],
             threadMapping := (threadMapping t)[i := threadid],
             parentId := (parentId t)[i := ptid], currentId := (currentId t)[i := ctid]\<rparr>)) (\<lambda>_.
         bindP (getP (\<lambda>t. if parentId t ! i \<noteq> 0 then findParentSegment (parentId t ! i) (currentId t) else -1)) (\<lambda>parent.
         bindP (getP (\<lambda>t. livethreads t > int (maxActive t))) (\<lambda>full.
         if full then stops (Exit 1) else
         block [modify (\<lambda>t. t\<lparr>threadAlive := (threadAlive t)(threadid := True),
                              pumpingStatus := (pumpingStatus t)(i := True)\<rparr>),
           bindP (findThreadMapping threadid) (\<lambda>tid. block [
             modify (\<lambda>t. t\<lparr>tst := op_onThread_start I (tst t) tid\<rparr>),
             send I tid (word_of_int parent) CHILD_START (word_of_int ptid),
             whenP (parent \<noteq> -1) (send I (nat parent) (of_nat tid) PARENT_SPAWN (word_of_int ctid))])])))),
     PIN_MutexUnlock]"

definition ThreadFini :: "'c ipc \<Rightarrow> nat \<Rightarrow> ('c tool, unit) prog" where
  "ThreadFini I tid = block [
     PIN_MutexLock,
     bindP (findThreadMapping tid) (\<lambda>tid. bindP (getP (\<lambda>t. numCISC t tid)) (\<lambda>k. block [
       finish_thread I tid k,
       modify (\<lambda>t. t\<lparr>isThreadActive := (isThreadActive t)[tid := False], livethreads := livethreads t - 1,
                     threadAlive := (threadAlive t)(tid := False)\<rparr>)])),
     PIN_MutexUnlock]"

section \<open>Memory accesses, branches, registers\<close>

definition recording :: "nat \<Rightarrow> 'c tool \<Rightarrow> bool" where
  "recording tid t \<longleftrightarrow> pumpingStatus t tid \<and> \<not> instructionIgnorePhase t \<and> \<not> outOfROIPhase t"

definition RecordMemRead :: "'c ipc \<Rightarrow> nat \<Rightarrow> u64 \<Rightarrow> u64 \<Rightarrow> ('c tool, unit) prog" where
  "RecordMemRead I tid ip addr = bindP (findThreadMapping tid) (\<lambda>tid.
     bindP (getP (recording tid)) (\<lambda>go. whenP go (block [
       sendTimerPacket I tid False,
       add_checkSum MEMREAD,
       send I tid (MASK AND ip) MEMREAD (MASK AND addr)])))"

definition RecordMemWrite :: "'c ipc \<Rightarrow> nat \<Rightarrow> u64 \<Rightarrow> u64 \<Rightarrow> ('c tool, unit) prog" where
  "RecordMemWrite I tid ip addr = bindP (findThreadMapping tid) (\<lambda>tid.
     bindP (getP (recording tid)) (\<lambda>go. whenP go (block [
       sendTimerPacket I tid False,
       add_checkSum MEMWRITE,
       send I tid (MASK AND ip) MEMWRITE (MASK AND addr)])))"

definition BrnFun :: "'c ipc \<Rightarrow> nat \<Rightarrow> u64 \<Rightarrow> bool \<Rightarrow> u64 \<Rightarrow> ('c tool, unit) prog" where
  "BrnFun I tid tadr taken ip = bindP (findThreadMapping tid) (\<lambda>tid.
     bindP (getP (recording tid)) (\<lambda>go. whenP go (block [
       sendTimerPacket I tid False,
       if taken then block [add_checkSum TAKEN, send I tid (MASK AND ip) TAKEN (MASK AND tadr)]
       else block [add_checkSum NOTTAKEN, send I tid (MASK AND ip) NOTTAKEN (MASK AND tadr)]])))"

definition RegValRead :: "'c ipc \<Rightarrow> nat \<Rightarrow> u64 \<Rightarrow> u64 \<Rightarrow> ('c tool, unit) prog" where
  "RegValRead I tid ip reg =
     bindP (getP (\<lambda>t. \<not> instructionIgnorePhase t \<and> \<not> outOfROIPhase t)) (\<lambda>go. whenP go (block [
       modify (\<lambda>t. t\<lparr>checkSum := checkSum t + 6\<rparr>),
       bindP (findThreadMapping tid) (\<lambda>tid. send I tid (MASK AND ip) 6 (MASK AND reg))]))"

definition RegValWrite :: "'c ipc \<Rightarrow> nat \<Rightarrow> u64 \<Rightarrow> u64 \<Rightarrow> ('c tool, unit) prog" where
  "RegValWrite I tid ip reg =
     bindP (getP (\<lambda>t. \<not> instructionIgnorePhase t \<and> \<not> outOfROIPhase t)) (\<lambda>go. whenP go (
       bindP (findThreadMapping tid) (\<lambda>tid. block [
         modify (\<lambda>t. t\<lparr>checkSum := checkSum t + 7\<rparr>),
         send I tid (MASK AND ip) 7 (MASK AND reg)])))"

definition CountIns :: "('c tool, unit) prog" where
  "CountIns = bindP (getP instructionIgnorePhase) (\<lambda>ign. whenP ign (
     modify (\<lambda>t. let t = t\<lparr>numIns := numIns t + 1\<rparr> in
       if numIns t > numInsToIgnore t then t\<lparr>instructionIgnorePhase := False\<rparr> else t)))"

section \<open>Synchronisation functions and markers\<close>

definition FunStartInstrumentation :: "u64 \<Rightarrow> ('c tool, unit) prog" where
  "FunStartInstrumentation KnobSimulate =
     modify (\<lambda>t. t\<lparr>outOfROIPhase := False, numInsToSimulate := KnobSimulate\<rparr>)"

definition FunEndInstrumentation :: "('c tool, unit) prog" where
  "FunEndInstrumentation = modify (\<lambda>t. t\<lparr>outOfROIPhase := True\<rparr>)"

definition FunEntry :: "'c ipc \<Rightarrow> u64 \<Rightarrow> int \<Rightarrow> nat \<Rightarrow> ('c tool, unit) prog" where
  "FunEntry I first_arg encode tid = bindP ClockGetTime (\<lambda>time. bindP (findThreadMapping tid) (\<lambda>tid. block [
     sendTimerPacket I tid True,
     add_checkSum encode,
     send I tid time encode (MASK AND first_arg)]))"

definition FunExit :: "'c ipc \<Rightarrow> u64 \<Rightarrow> int \<Rightarrow> nat \<Rightarrow> ('c tool, unit) prog" where
  "FunExit I first_arg encode tid = bindP ClockGetTime (\<lambda>time. bindP (findThreadMapping tid) (\<lambda>tid. block [
     sendTimerPacket I tid False,
     add_checkSum encode,
     send I tid time encode (MASK AND first_arg)]))"

text \<open>Here the slot is taken to be \<open>threadMapping[tid]\<close>: the table read in the wrong direction.\<close>

definition BarrierInit :: "'c ipc \<Rightarrow> u64 \<Rightarrow> u64 \<Rightarrow> int \<Rightarrow> nat \<Rightarrow> ('c tool, unit) prog" where
  "BarrierInit I first_arg val encode tid = block [
     add_checkSum encode,
     bindP (getP threadMapping) (\<lambda>m.
       if tid < length m \<and> m ! tid < length m
       then send I (m ! tid) (MASK AND val) encode (MASK AND first_arg)
       else stops Undefined)]"

text \<open>\<open>app\<close> is \<open>PIN_CallApplicationFunction\<close>: the application's own lock function runs.\<close>

definition my_pthread_mutex_unlock :: "'c ipc \<Rightarrow> u64 \<Rightarrow> ('c tool, unit) prog \<Rightarrow> nat \<Rightarrow> ('c tool, unit) prog" where
  "my_pthread_mutex_unlock I lock_address app ptid = (let uarg = MASK AND lock_address in
     bindP ClockGetTime (\<lambda>time. bindP (findThreadMapping ptid) (\<lambda>tid. block [
       sendTimerPacket I tid True,
       block [PIN_MutexLock, modify (\<lambda>t. t\<lparr>checkSum := checkSum t + enc UNLOCK, num_unlocks := num_unlocks t + 1\<rparr>),
              PIN_MutexUnlock],
       send I tid time UNLOCK uarg,
       app,
       bindP ClockGetTime (\<lambda>time. block [
         sendTimerPacket I tid False,
         add_checkSum (UNLOCK + 1),
         send I tid time (UNLOCK + 1) uarg])])))"

definition my_pthread_mutex_lock :: "'c ipc \<Rightarrow> u64 \<Rightarrow> ('c tool, unit) prog \<Rightarrow> nat \<Rightarrow> ('c tool, unit) prog" where
  "my_pthread_mutex_lock I lock_address app ptid = (let uarg = MASK AND lock_address in
     bindP ClockGetTime (\<lambda>time. bindP (findThreadMapping ptid) (\<lambda>tid. block [
       sendTimerPacket I tid True,
       block [PIN_MutexLock, modify (\<lambda>t. t\<lparr>checkSum := checkSum t + enc LOCK, num_locks := num_locks t + 1\<rparr>),
              PIN_MutexUnlock],
       send I tid time LOCK uarg,
       app,
       bindP ClockGetTime (\<lambda>time. block [
         sendTimerPacket I tid False,
         add_checkSum (LOCK + 1),
         send I tid time (LOCK + 1) uarg])])))"

section \<open>printip: every instruction\<close>

definition SLICE :: u64 where "SLICE = 3000000"

text \<open>\<open>numIgn\<close> and \<open>numSim\<close>: the window of instructions to simulate, and the end of the subset.\<close>

definition in_window :: "'c tool \<Rightarrow> bool" where
  "in_window t \<longleftrightarrow> numInsToIgnore t \<le> totalNumCISC t \<and>
     (sint (numInsToSimulate t) < 0 \<or> totalNumCISC t < numInsToIgnore t + numInsToSimulate t)"

definition subset_done :: "'c tool \<Rightarrow> bool" where
  "subset_done t \<longleftrightarrow> 0 < sint (numInsToSimulate t)
     \<and> numInsToIgnore t + numInsToSimulate t \<le> totalNumCISC t"

definition subset_step :: "'c ipc \<Rightarrow> nat \<Rightarrow> ('c tool, unit) prog" where
  "subset_step I tid = block [
     modify (\<lambda>t. t\<lparr>instructionIgnorePhase := \<not> in_window t\<rparr>),
     bindP (getP (\<lambda>t. (subset_done t, numCISC t tid))) (\<lambda>(fin, k). whenP fin (block [
       finish_subset I tid k,
       set_complete I True,
       waitForThreadsAndTerminatePin I]))]"

text \<open>The loop over all \<open>MaxThreads\<close> thread ids at the end of the last slice.\<close>

fun finish_alive :: "'c ipc \<Rightarrow> nat list \<Rightarrow> ('c tool, unit) prog" where
  "finish_alive I [] = ret ()"
| "finish_alive I (i # is) = bindP (getP (\<lambda>t. (threadAlive t i, i < maxActive t, numCISC t i))) (\<lambda>(alive, inside, k).
     bindP (if \<not> alive then ret () else if \<not> inside then stops Undefined else block [
         finish_thread I i k,
         modify (\<lambda>t. t\<lparr>livethreads := livethreads t - 1, threadAlive := (threadAlive t)(i := False)\<rparr>)])
       (\<lambda>_. finish_alive I is))"

definition slice_step :: "'c ipc \<Rightarrow> ('c tool, unit) prog" where
  "slice_step I = bindP (getP (\<lambda>t. currentSlice t < numberOfSlices t)) (\<lambda>inside.
     if \<not> inside then stops Undefined else block [
       modify (\<lambda>t. let s = sliceArray t ! currentSlice t in
         if s * SLICE \<le> totalNumCISC t then
           if totalNumCISC t \<le> (s + 1) * SLICE then t\<lparr>instructionIgnorePhase := False\<rparr>
           else t\<lparr>instructionIgnorePhase := True, currentSlice := currentSlice t + 1\<rparr>
         else t\<lparr>instructionIgnorePhase := True\<rparr>),
       bindP (getP (\<lambda>t. (sliceArray t ! (numberOfSlices t - 1) + 1) * SLICE < totalNumCISC t)) (\<lambda>fin.
         whenP fin (block [
           finish_alive I [0..<MaxThreads],
           bindP (getP (\<lambda>t. livethreads t = 0)) (\<lambda>none. whenP none (waitForThreadsAndTerminatePin I))]))])"

definition printip :: "'c ipc \<Rightarrow> nat \<Rightarrow> u64 \<Rightarrow> string \<Rightarrow> ('c tool, unit) prog" where
  "printip I tid ip asmString = bindP (getP outOfROIPhase) (\<lambda>out. if out then ret () else
     bindP (findThreadMapping tid) (\<lambda>tid. block [
       PIN_MutexLock,
       modify (\<lambda>t. t\<lparr>numCISC := (numCISC t)(tid := numCISC t tid + 1), totalNumCISC := totalNumCISC t + 1\<rparr>),
       bindP (getP (\<lambda>t. pinpointsFilename t = ''nofile'')) (\<lambda>nofile.
         if nofile then subset_step I tid else slice_step I),
       bindP (getP (\<lambda>t. (instructionIgnorePhase t, traceMethod t))) (\<lambda>(ign, m). whenP (\<not> ign) (
         case m of SharedMemory \<Rightarrow> send I tid (MASK AND ip) INSTRUCTION 1
         | File \<Rightarrow> send_assembly I tid (MASK AND ip) ASSEMBLY asmString)),
       PIN_MutexUnlock]))"

text \<open>The end of the application.\<close>

definition Fini :: "'c ipc \<Rightarrow> ('c tool, unit) prog" where
  "Fini I = block [
     set_complete I True,
     bindP (getP (\<lambda>t. numCISC t 0)) (finish_subset I 0),
     waitForThreadsAndTerminatePin I]"

end
