(* ===== verification/Instrumentation.thy ===== *)
theory Instrumentation
  imports Causality Decimal
begin

text \<open>
  What \<open>causalityTool.cpp\<close> does before the application runs: \<open>main\<close> (the command line, the file of
  simulation points, the globals) and the three instrumentation callbacks, which decide for every
  image, routine and instruction which analysis functions of theory \<open>Causality\<close> Pin shall call.
  Pin's own functions are arguments: which routines an image has, the operands of an instruction.
\<close>

section \<open>Requests to Pin\<close>

datatype analysis = A_printip "string option" | A_BrnFun | A_RecordMemRead nat | A_RecordMemWrite nat
  | A_FunStart | A_FunEnd | A_FunEntry int | A_FunExit int | A_BarrierInit int | A_funcHandler

datatype request = Insert_before analysis | Insert_after analysis | Insert_predicated analysis
  | Replace_lock | Replace_unlock

text \<open>\<open>std::string::find(a) != npos\<close>.\<close>

fun starts_with :: "string \<Rightarrow> string \<Rightarrow> bool" where
  "starts_with [] s = True"
| "starts_with (c # p) [] = False"
| "starts_with (c # p) (d # s) = (c = d \<and> starts_with p s)"

fun contains :: "string \<Rightarrow> string \<Rightarrow> bool" where
  "contains p [] = (p = [])"
| "contains p (d # s) = (starts_with p (d # s) \<or> contains p s)"

section \<open>Instructions\<close>

record ins =
  is_direct_control_flow :: bool
  is_indirect_control_flow :: bool
  memory_operands :: "(bool \<times> bool) list"
  disassembly :: string

definition memory_calls :: "nat \<Rightarrow> bool \<times> bool \<Rightarrow> request list" where
  "memory_calls memOp rw =
     (if fst rw then [Insert_predicated (A_RecordMemRead memOp)] else [])
     @ (if snd rw then [Insert_predicated (A_RecordMemWrite memOp)] else [])"

definition Instruction :: "TraceMethod \<Rightarrow> ins \<Rightarrow> request list" where
  "Instruction m i =
     [Insert_before (A_printip (if m = File then Some (disassembly i) else None))]
     @ (if is_direct_control_flow i \<or> is_indirect_control_flow i then [Insert_before A_BrnFun] else [])
     @ concat (map (\<lambda>memOp. memory_calls memOp (memory_operands i ! memOp)) [0..<length (memory_operands i)])"

section \<open>Routines\<close>

definition routine_code :: "string \<Rightarrow> int" where
  "routine_code n =
     (if contains ''pthread_cond_broadcast'' n then BCAST
      else if contains ''pthread_cond_signal'' n then SIGNAL
      else if contains ''pthread_join'' n then JOIN
      else if contains ''pthread_cond_wait'' n then CONDWAIT
      else if contains ''pthread_barrier_wait'' n then BARRIERWAIT
      else if contains ''parsec_barrier_wait'' n then BARRIERWAIT
      else if contains ''pthread_barrier_init'' n then BARRIERINIT
      else -1)"

definition FlagRtn :: "string \<Rightarrow> string \<Rightarrow> bool \<Rightarrow> string \<Rightarrow> request list" where
  "FlagRtn start_marker end_marker valid n =
     (let encode = routine_code n in
      (if encode = -1 then
         (if start_marker \<noteq> '''' \<and> start_marker = n then [Insert_after A_FunStart] else [])
         @ (if end_marker \<noteq> '''' \<and> end_marker = n then [Insert_before A_FunEnd] else [])
       else [])
      @ (if encode \<noteq> -1 \<and> valid \<and> encode \<noteq> BARRIERINIT
         then [Insert_before (A_FunEntry encode), Insert_after (A_FunExit (encode + 1))]
         else if encode \<noteq> -1 \<and> valid then [Insert_before (A_BarrierInit encode)] else []))"

text \<open>\<open>found\<close> is \<open>RTN_FindByName\<close> followed by \<open>RTN_Valid\<close>.\<close>

definition Image :: "(string \<Rightarrow> bool) \<Rightarrow> (string \<times> request) list" where
  "Image found =
     (if found ''__parsec_roi_begin'' then [(''__parsec_roi_begin'', Insert_before A_funcHandler)] else [])
     @ (if found ''__parsec_roi_end'' then [(''__parsec_roi_end'', Insert_before A_funcHandler)] else [])
     @ (if found ''pthread_mutex_lock'' then [(''pthread_mutex_lock'', Replace_lock)] else [])
     @ (if found ''pthread_mutex_unlock'' then [(''pthread_mutex_unlock'', Replace_unlock)] else [])"

section \<open>The file of simulation points\<close>

text \<open>The strings \<open>getline\<close> delivers while \<open>good()\<close> holds: one more than there are newlines.\<close>

definition getlines :: "string \<Rightarrow> string list" where
  "getlines s = split_on (CHR 0x0A) s"

text \<open>\<open>while (line.at(index) != ' ')\<close>: \<open>at\<close> throws at the end of the string.\<close>

fun first_word :: "string \<Rightarrow> string option" where
  "first_word [] = None"
| "first_word (c # s) = (if c = CHR '' '' then Some [] else map_option ((#) c) (first_word s))"

text \<open>The second pass over the file fills the array that the first pass sized: \<open>k\<close> is
  \<open>sliceArrayIndex\<close>.  A store behind its end is undefined.\<close>

fun read_slices :: "string list \<Rightarrow> nat \<Rightarrow> u64 list \<Rightarrow> stop + u64 list" where
  "read_slices [] k arr = Inr arr"
| "read_slices (line # ls) k arr =
     (if line = [] then read_slices ls k arr
      else case first_word line of
        None \<Rightarrow> Inl Uncaught
      | Some w \<Rightarrow> if k < length arr then read_slices ls (Suc k) (arr[k := word_of_int (strtol w)])
                  else Inl Undefined)"

text \<open>\<open>content\<close> is \<open>None\<close> when the file cannot be opened: then the first loop does not run,
  \<open>numberOfSlices\<close> is -1 and the allocation throws.  \<open>junk\<close> is what the heap holds.\<close>

definition read_pinpoints :: "(nat \<Rightarrow> u64) \<Rightarrow> string option \<Rightarrow> stop + u64 list" where
  "read_pinpoints junk content =
     (case content of None \<Rightarrow> Inl Uncaught
      | Some s \<Rightarrow> read_slices (getlines s) 0 (map junk [0..<length (getlines s) - 1]))"

section \<open>main\<close>

record knobs =
  KnobIgnore :: u64
  KnobSimulate :: u64
  KnobMaxNumActiveThreads :: nat
  KnobId :: u64
  KnobPinPointsFile :: string
  KnobStartMarker :: string
  KnobEndMarker :: string
  KnobTraceMethod :: string

text \<open>How \<open>main\<close> goes on: it prints the usage and returns -1, the process ends, or the application is
  started and Pin's callbacks run on these globals.\<close>

datatype 'c started = Usage | Stopped stop | Running "'c tool"

text \<open>\<open>bad\<close> is the result of \<open>PIN_Init\<close>, \<open>files\<close> the file system, \<open>new_Shm\<close> the constructor; what
  \<open>main\<close> does not initialise is an argument (\<open>m0\<close> the allocated \<open>threadMapping\<close>); the static
  globals start at 0.\<close>

definition main ::
    "bool \<Rightarrow> (string \<Rightarrow> string option) \<Rightarrow> (u64 \<Rightarrow> nat \<Rightarrow> stop + 'c) \<Rightarrow> (nat \<Rightarrow> u64) \<Rightarrow> (nat \<Rightarrow> nat) \<Rightarrow>
     knobs \<Rightarrow> 'c started" where
  "main bad files new_Shm junk m0 k =
     (if bad then Usage
      else if KnobTraceMethod k \<noteq> ''sharedMemory'' \<and> KnobTraceMethod k \<noteq> ''file'' then Stopped (Exit 1)
      else
        let n = KnobMaxNumActiveThreads k in
        case (if KnobPinPointsFile k \<noteq> ''nofile'' then read_pinpoints junk (files (KnobPinPointsFile k)) else Inr []) of
          Inl e \<Rightarrow> Stopped e
        | Inr slices \<Rightarrow>
          (case new_Shm (KnobId k) n of
             Inl e \<Rightarrow> Stopped e
           | Inr c \<Rightarrow> Running \<lparr>
               mainLockForPintool = False, numThreads = 0, livethreads = 0, checkSum = 0, tst = c,
               pumpingStatus = (\<lambda>_. False), curSynchVar = (\<lambda>_. 0), numIns = 0,
               numInsToIgnore = KnobIgnore k, numInsToSimulate = KnobSimulate k,
               startMarker = KnobStartMarker k, endMarker = KnobEndMarker k,
               instructionIgnorePhase = True, outOfROIPhase = (KnobStartMarker k \<noteq> ''''),
               numCISC = (\<lambda>_. 0), totalNumCISC = 0, threadAlive = (\<lambda>_. False),
               pinpointsFilename = KnobPinPointsFile k, sliceArray = slices, currentSlice = 0,
               threadMapping = map m0 [0..<n], isThreadActive = replicate n False,
               parentId = replicate n (-1), currentId = replicate n (-1),
               countPacket = (\<lambda>_. 0), time_ctr = 0, num_locks = 0, num_unlocks = 0,
               traceMethod = (if KnobTraceMethod k = ''sharedMemory'' then SharedMemory else File)\<rparr>))"

end
