(* ===== verification/CausalityLaws.thy ===== *)
theory CausalityLaws
  imports ShmIPC Instrumentation
begin

text \<open>
  What the callbacks of \<open>causalityTool.cpp\<close> (theory \<open>Causality\<close>) do: the packets each one leaves in the
  channel of its thread, the counters and the checksum, the release of the mutex, the table of thread
  slots, the window of simulated instructions, the end of the program.  The lemmas are proved once over
  the contract of the transport (locales \<open>packet_channel\<close>, \<open>live_channel\<close>); the properties are
  their instances at the shared-memory transport.
\<close>

unbundle bit_operations_syntax

section \<open>Evaluation of the small programs\<close>

lemma MASK_AND [simp]: "MASK AND x = x"
proof -
  have m: "MASK = - 1" by (simp add: MASK_def)
  show ?thesis unfolding m by simp
qed

lemma first_index_SomeD: "first_index P xs = Some k \<Longrightarrow> k < length xs \<and> P (xs ! k) \<and> (\<forall>i < k. \<not> P (xs ! i))"
proof (induction xs arbitrary: k)
  case (Cons x xs)
  then show ?case by (cases k) (auto split: if_splits simp: nth_Cons split: nat.splits)
qed simp

lemma first_index_None: "first_index P xs = None \<longleftrightarrow> (\<forall>i < length xs. \<not> P (xs ! i))"
  by (induction xs) (auto simp: nth_Cons split: nat.splits)

lemma first_indexI: "k < length xs \<Longrightarrow> P (xs ! k) \<Longrightarrow> (\<And>i. i < k \<Longrightarrow> \<not> P (xs ! i)) \<Longrightarrow> first_index P xs = Some k"
  using first_index_None [of P xs] first_index_SomeD [of P xs]
  by (cases "first_index P xs") (auto, metis nat_neq_iff)

text \<open>The slot of a Pin thread id.\<close>

abbreviation slot_of :: "'c tool \<Rightarrow> nat \<Rightarrow> nat option" where
  "slot_of t pin \<equiv> first_index (\<lambda>x. x = pin) (threadMapping t)"

lemma findThreadMapping_apply [prog_simps]:
  "findThreadMapping pin t = (case slot_of t pin of Some k \<Rightarrow> Some (Inr (k, t)) | None \<Rightarrow> Some (Inl (Exit 0)))"
  by (simp add: findThreadMapping_def prog_simps split: option.splits)

lemma add_checkSum_apply [prog_simps]:
  "\<not> mainLockForPintool t \<Longrightarrow> add_checkSum c t = Some (Inr ((), t\<lparr>checkSum := checkSum t + enc c\<rparr>))"
  by (simp add: add_checkSum_def PIN_MutexLock_def PIN_MutexUnlock_def prog_simps)

lemma ClockGetTime_apply [prog_simps]:
  "ClockGetTime t = Some (Inr (scast (time_ctr t), t\<lparr>time_ctr := time_ctr t + 1\<rparr>))"
  by (simp add: ClockGetTime_def prog_simps)

lemma lift_loop_apply: "l (tst t) = Some (Inr c) \<Longrightarrow> lift_loop l t = Some (Inr ((), t\<lparr>tst := c\<rparr>))"
  by (simp add: lift_loop_def)

lemma lift_loop_Inr_iff:
  "lift_loop l t = Some (Inr (u, t')) \<longleftrightarrow> (\<exists>c. l (tst t) = Some (Inr c) \<and> t' = t\<lparr>tst := c\<rparr>)"
  by (auto simp: lift_loop_def split: option.splits sum.splits)

section \<open>A timer packet at every opportunity\<close>

text \<open>\<open>sendTimerPacket\<close> resets the counter it tests, so the test succeeds every time.\<close>

definition timers_due :: "'c tool \<Rightarrow> bool" where
  "timers_due t \<longleftrightarrow> (\<forall>k. countPacket t k = 0)"

named_theorems due_intros \<open>programs that leave every timer due\<close>

lemma due_lift_loop [due_intros]: "keeps timers_due (lift_loop l)"
  by (auto simp: keeps_def lift_loop_Inr_iff timers_due_def)

lemma due_send [due_intros]: "keeps timers_due (send I tid ip c a)"
  "keeps timers_due (send_assembly I tid ip c s)" "keeps timers_due (finish_thread I tid k)"
  "keeps timers_due (finish_subset I tid k)"
  by (simp_all add: send_def send_assembly_def finish_thread_def finish_subset_def due_lift_loop)

lemma due_lock [due_intros]: "keeps timers_due PIN_MutexLock" "keeps timers_due PIN_MutexUnlock"
  by (auto simp: keeps_def PIN_MutexLock_def PIN_MutexUnlock_def prog_simps timers_due_def split: if_splits)

lemma due_add_checkSum [due_intros]: "keeps timers_due (add_checkSum c)"
  unfolding add_checkSum_def by (auto intro!: keeps_intros due_intros simp: timers_due_def)

lemma due_ClockGetTime [due_intros]: "keeps timers_due ClockGetTime"
  unfolding ClockGetTime_def by (auto intro!: keeps_intros simp: timers_due_def)

lemma due_findThreadMapping [due_intros]: "keeps timers_due (findThreadMapping i)"
  unfolding findThreadMapping_def by (auto intro!: keeps_intros split: option.splits)

lemma due_sendTimerPacket [due_intros]: "keeps timers_due (sendTimerPacket I tid b)"
proof -
  define J where "J = (\<lambda>t :: 'a tool. \<forall>k. k \<noteq> tid \<longrightarrow> countPacket t k = 0)"
  have 1: "keeps J (add_checkSum TIMER)"
    unfolding add_checkSum_def keeps_def
    by (auto simp: J_def bindP_Inr_iff PIN_MutexLock_def PIN_MutexUnlock_def modify_def ret_def split: if_splits)
  have 2: "keeps timers_due (bindP ClockGetTime (\<lambda>time. send I tid time TIMER 0))"
    by (intro keeps_intros due_intros)
  show ?thesis
    unfolding keeps_def
  proof (intro allI impI)
    fix t u t' assume due: "timers_due t" and run: "sendTimerPacket I tid b t = Some (Inr (u, t'))"
    let ?t = "t\<lparr>countPacket := (countPacket t)(tid := 1)\<rparr>"
    have "countPacket t tid = 0" using due by (simp add: timers_due_def)
    with run have "block [add_checkSum TIMER, modify (\<lambda>t. t\<lparr>countPacket := (countPacket t)(tid := 0)\<rparr>),
        bindP ClockGetTime (\<lambda>time. send I tid time TIMER 0)] ?t = Some (Inr (u, t'))"
      by (simp add: sendTimerPacket_def bindP_getP bindP_modify whenP_def)
    then obtain t1 where a: "add_checkSum TIMER ?t = Some (Inr ((), t1))"
      and b: "bindP ClockGetTime (\<lambda>time. send I tid time TIMER 0) (t1\<lparr>countPacket := (countPacket t1)(tid := 0)\<rparr>)
        = Some (Inr ((), t'))"
      by (auto simp: bindP_Inr_iff modify_def ret_def)
    have "J ?t" using due by (simp add: J_def timers_due_def)
    then have "J t1" using keepsD [OF 1 a] by blast
    then have "timers_due (t1\<lparr>countPacket := (countPacket t1)(tid := 0)\<rparr>)"
      by (simp add: J_def timers_due_def)
    with keepsD [OF 2 b] show "timers_due t'" by blast
  qed
qed

lemma due_handlers [due_intros]:
  "keeps timers_due (RecordMemRead I tid x y)" "keeps timers_due (RecordMemWrite I tid x y)"
  "keeps timers_due (BrnFun I tid y b x)" "keeps timers_due (RegValRead I tid x y)"
  "keeps timers_due (RegValWrite I tid x y)" "keeps timers_due CountIns"
  "keeps timers_due (FunStartInstrumentation x)" "keeps timers_due FunEndInstrumentation"
  "keeps timers_due (FunEntry I x e tid)" "keeps timers_due (FunExit I x e tid)"
  "keeps timers_due (BarrierInit I x y e tid)" "keeps timers_due (ThreadFini I tid)"
  unfolding RecordMemRead_def RecordMemWrite_def BrnFun_def RegValRead_def RegValWrite_def CountIns_def
    FunStartInstrumentation_def FunEndInstrumentation_def FunEntry_def FunExit_def BarrierInit_def ThreadFini_def
  by (auto intro!: keeps_intros due_intros simp: timers_due_def Let_def)

lemma due_mutex [due_intros]:
  assumes "keeps timers_due app"
  shows "keeps timers_due (my_pthread_mutex_lock I a app tid)" "keeps timers_due (my_pthread_mutex_unlock I a app tid)"
  unfolding my_pthread_mutex_lock_def my_pthread_mutex_unlock_def Let_def
  using assms by (auto intro!: keeps_intros due_intros simp: timers_due_def)

lemma due_finish_alive [due_intros]: "keeps timers_due (finish_alive I ids)"
proof (induction ids)
  case (Cons i ids)
  have m: "keeps timers_due (modify (\<lambda>t. t\<lparr>livethreads := livethreads t - 1, threadAlive := (threadAlive t)(i := False)\<rparr>))"
    by (auto simp: keeps_def modify_def timers_due_def)
  from Cons show ?case
    by (auto intro!: keeps_getP keeps_bindP keeps_if keeps_ret keeps_stops keeps_block due_intros m split: prod.splits)
qed (simp add: keeps_ret)

lemma due_terminate [due_intros]: "keeps timers_due (waitForThreadsAndTerminatePin I)" "keeps timers_due (set_complete I b)"
  unfolding waitForThreadsAndTerminatePin_def set_complete_def
  by (auto intro!: keeps_intros simp: timers_due_def)

lemma due_printip [due_intros]: "keeps timers_due (printip I tid ip a)"
proof -
  have "keeps timers_due (subset_step I tid)" for tid
    unfolding subset_step_def by (auto intro!: keeps_intros due_intros simp: timers_due_def split: prod.splits)
  moreover have "keeps timers_due (slice_step I)"
    unfolding slice_step_def by (auto intro!: keeps_intros due_intros simp: timers_due_def Let_def split: prod.splits)
  ultimately show ?thesis
    unfolding printip_def
    by (auto intro!: keeps_intros due_intros simp: timers_due_def split: prod.splits TraceMethod.splits)
qed

lemma due_ThreadStart [due_intros]: "keeps timers_due (ThreadStart I tid p c)"
  unfolding ThreadStart_def
  by (auto intro!: keeps_intros due_intros simp: timers_due_def split: option.splits)

section \<open>Callbacks\<close>

text \<open>Pin's calls of the tool.  The application function that a replaced lock function runs changes none
  of the tool's globals.\<close>

datatype callback =
    Thread_start nat int int | Thread_fini nat
  | Mem_read nat u64 u64 | Mem_write nat u64 u64 | Branch nat u64 bool u64
  | Reg_read nat u64 u64 | Reg_write nat u64 u64 | Count_ins
  | Fun_start u64 | Fun_end | Fun_entry u64 int nat | Fun_exit u64 int nat | Barrier_init u64 u64 int nat
  | Mutex_lock u64 nat | Mutex_unlock u64 nat | Instr nat u64 string

fun run_callback :: "'c ipc \<Rightarrow> callback \<Rightarrow> ('c tool, unit) prog" where
  "run_callback I (Thread_start tid p c) = ThreadStart I tid p c"
| "run_callback I (Thread_fini tid) = ThreadFini I tid"
| "run_callback I (Mem_read tid x y) = RecordMemRead I tid x y"
| "run_callback I (Mem_write tid x y) = RecordMemWrite I tid x y"
| "run_callback I (Branch tid y b x) = BrnFun I tid y b x"
| "run_callback I (Reg_read tid x y) = RegValRead I tid x y"
| "run_callback I (Reg_write tid x y) = RegValWrite I tid x y"
| "run_callback I Count_ins = CountIns"
| "run_callback I (Fun_start k) = FunStartInstrumentation k"
| "run_callback I Fun_end = FunEndInstrumentation"
| "run_callback I (Fun_entry a e tid) = FunEntry I a e tid"
| "run_callback I (Fun_exit a e tid) = FunExit I a e tid"
| "run_callback I (Barrier_init a v e tid) = BarrierInit I a v e tid"
| "run_callback I (Mutex_lock a tid) = my_pthread_mutex_lock I a (ret ()) tid"
| "run_callback I (Mutex_unlock a tid) = my_pthread_mutex_unlock I a (ret ()) tid"
| "run_callback I (Instr tid x s) = printip I tid x s"

definition callbacks :: "'c ipc \<Rightarrow> callback list \<Rightarrow> ('c tool, unit) prog" where
  "callbacks I cs = block (map (run_callback I) cs)"

lemma due_callback: "keeps timers_due (run_callback I c)"
  by (cases c) (simp_all add: due_intros keeps_ret)

lemma due_callbacks: "keeps timers_due (callbacks I cs)"
  unfolding callbacks_def by (auto intro!: keeps_block due_callback)

section \<open>Exact results over a live transport\<close>

text \<open>The packet \<open>sendTimerPacket\<close> sends at the clock value \<open>n\<close>.\<close>

definition timer_packet :: "u32 \<Rightarrow> packet" where
  "timer_packet n = mk_packet (scast n) (enc TIMER) 0"

context live_channel
begin

text \<open>Ready: transport in order, mutex free, every timer due.\<close>

definition ready :: "'a tool \<Rightarrow> bool" where
  "ready t \<longleftrightarrow> ok (tst t) \<and> live (tst t) \<and> \<not> mainLockForPintool t \<and> timers_due t"

text \<open>A run that returns normally, leaves the packets \<open>ps\<close> in channel \<open>k\<close>, and changes nothing else than
  \<open>f\<close> does.\<close>

definition emits :: "('a tool, unit) prog \<Rightarrow> 'a tool \<Rightarrow> nat \<Rightarrow> packet list \<Rightarrow> ('a tool \<Rightarrow> 'a tool) \<Rightarrow> bool" where
  "emits m t k ps f \<longleftrightarrow> (\<exists>c. m t = Some (Inr ((), (f t)\<lparr>tst := c\<rparr>)) \<and> ok c \<and> live c
     \<and> hist c = (hist (tst t))(k := hist (tst t) k @ map Pkt ps))"

lemma emits_send:
  assumes "ok (tst t)" "live (tst t)" "k < n" "legal (enc code)"
  shows "emits (send I k ip code tgt) t k [mk_packet ip (enc code) tgt] (\<lambda>t. t)"
  using send_loop_ends [OF assms, of ip tgt] by (auto simp: emits_def send_def lift_loop_def)

lemma emits_add_checkSum:
  "ok (tst t) \<Longrightarrow> live (tst t) \<Longrightarrow> \<not> mainLockForPintool t \<Longrightarrow>
    emits (add_checkSum c) t k [] (\<lambda>t. t\<lparr>checkSum := checkSum t + enc c\<rparr>)"
  by (auto simp: emits_def add_checkSum_apply intro!: exI [of _ "tst t"])

lemma emits_modify:
  "ok (tst t) \<Longrightarrow> live (tst t) \<Longrightarrow> tst (f t) = tst t \<Longrightarrow> emits (modify f) t k [] f"
  by (auto simp: emits_def modify_apply intro!: exI [of _ "tst t"])

lemma emits_bind:
  assumes "emits m t k ps f" "\<And>c. ok c \<Longrightarrow> live c \<Longrightarrow> emits (g ()) ((f t)\<lparr>tst := c\<rparr>) k qs h"
    and "\<And>t c. h (t\<lparr>tst := c\<rparr>) = (h t)\<lparr>tst := c\<rparr>"
  shows "emits (bindP m g) t k (ps @ qs) (\<lambda>t. h (f t))"
proof -
  from assms(1) obtain c where c: "m t = Some (Inr ((), (f t)\<lparr>tst := c\<rparr>))" "ok c" "live c"
    "hist c = (hist (tst t))(k := hist (tst t) k @ map Pkt ps)" by (auto simp: emits_def)
  from assms(2) [OF c(2,3)] obtain d where d: "g () ((f t)\<lparr>tst := c\<rparr>) = Some (Inr ((), (h ((f t)\<lparr>tst := c\<rparr>))\<lparr>tst := d\<rparr>))"
    "ok d" "live d" "hist d = (hist c)(k := hist c k @ map Pkt qs)" by (auto simp: emits_def)
  show ?thesis
    using c d assms(3) by (auto simp: emits_def bindP_ret intro!: exI [of _ d])
qed

lemma emits_timer:
  assumes "ready t" "k < n" "legal (enc TIMER)"
  shows "emits (sendTimerPacket I k b) t k [timer_packet (time_ctr t)]
    (\<lambda>t. t\<lparr>checkSum := checkSum t + enc TIMER, time_ctr := time_ctr t + 1\<rparr>)"
proof -
  let ?t = "t\<lparr>checkSum := checkSum t + enc TIMER, countPacket := (countPacket t)(k := 0),
      time_ctr := time_ctr t + 1\<rparr>"
  have "emits (send I k (scast (time_ctr t)) TIMER 0) ?t k [timer_packet (time_ctr t)] (\<lambda>t. t)"
    unfolding timer_packet_def using assms by (intro emits_send) (simp_all add: ready_def)
  moreover have "(countPacket t)(k := 0) = countPacket t" "countPacket t k = 0"
    using assms(1) by (auto simp: ready_def timers_due_def)
  moreover have "sendTimerPacket I k b t = send I k (scast (time_ctr t)) TIMER 0 ?t"
    using assms(1) \<open>countPacket t k = 0\<close>
    by (simp add: sendTimerPacket_def bindP_getP bindP_modify whenP_def ready_def
        bindP_ret [OF add_checkSum_apply] bindP_ret [OF ClockGetTime_apply])
  ultimately show ?thesis by (simp add: emits_def)
qed

text \<open>The three statements almost every callback ends with.\<close>

lemma emits_record:
  assumes "ready t" "k < n" "\<And>v. legal v"
  shows "emits (block [sendTimerPacket I k b, add_checkSum c, send I k x c y]) t k
    [timer_packet (time_ctr t), mk_packet x (enc c) y]
    (\<lambda>t. t\<lparr>time_ctr := time_ctr t + 1, checkSum := checkSum t + enc TIMER + enc c\<rparr>)"
proof -
  have l: "\<not> mainLockForPintool t" using assms(1) by (simp add: ready_def)
  have 2: "emits (block [add_checkSum c, send I k x c y])
      ((t\<lparr>checkSum := checkSum t + enc TIMER, time_ctr := time_ctr t + 1\<rparr>)\<lparr>tst := d\<rparr>) k
      ([] @ [mk_packet x (enc c) y]) (\<lambda>t. t\<lparr>checkSum := checkSum t + enc c\<rparr>)" if "ok d" "live d" for d
    using that l assms(2,3) unfolding block_simps
    by (intro emits_bind [where h = "\<lambda>t. t", simplified] emits_add_checkSum)
       (auto intro!: emits_send)
  have "emits (block [sendTimerPacket I k b, add_checkSum c, send I k x c y]) t k
    ([timer_packet (time_ctr t)] @ [mk_packet x (enc c) y])
    (\<lambda>t. (t\<lparr>checkSum := checkSum t + enc TIMER, time_ctr := time_ctr t + 1\<rparr>)\<lparr>checkSum :=
       checkSum (t\<lparr>checkSum := checkSum t + enc TIMER, time_ctr := time_ctr t + 1\<rparr>) + enc c\<rparr>)"
    using 2 emits_timer [OF assms(1,2) assms(3)] unfolding block_more [of "sendTimerPacket I k b"]
    by (intro emits_bind [where h = "\<lambda>t. t\<lparr>checkSum := checkSum t + enc c\<rparr>"]) simp_all
  then show ?thesis by simp
qed

lemma find_bind: "slot_of t pin = Some k \<Longrightarrow> bindP (findThreadMapping pin) f t = f k t"
  by (simp add: bindP_ret findThreadMapping_apply)

lemma clock_bind: "bindP ClockGetTime f t = f (scast (time_ctr t)) (t\<lparr>time_ctr := time_ctr t + 1\<rparr>)"
  by (simp add: bindP_ret [OF ClockGetTime_apply])

text \<open>What one recorded access, branch or function event adds to the globals.\<close>

definition recorded :: "int \<Rightarrow> 'a tool \<Rightarrow> 'a tool" where
  "recorded c t = t\<lparr>time_ctr := time_ctr t + 1, checkSum := checkSum t + enc TIMER + enc c\<rparr>"

lemma emits_access:
  assumes "ready t" "k < n" "\<And>v. legal v" "slot_of t pin = Some k" "recording k t"
  shows "emits (RecordMemRead I pin ip addr) t k
      [timer_packet (time_ctr t), mk_packet ip (enc MEMREAD) addr] (recorded MEMREAD)"
    and "emits (RecordMemWrite I pin ip addr) t k
      [timer_packet (time_ctr t), mk_packet ip (enc MEMWRITE) addr] (recorded MEMWRITE)"
    and "emits (BrnFun I pin addr b ip) t k
      [timer_packet (time_ctr t), mk_packet ip (enc (if b then TAKEN else NOTTAKEN)) addr]
      (recorded (if b then TAKEN else NOTTAKEN))"
proof -
  have e: "recorded c = (\<lambda>t. t\<lparr>time_ctr := time_ctr t + 1, checkSum := checkSum t + enc TIMER + enc c\<rparr>)" for c
    by (simp add: fun_eq_iff recorded_def)
  note rec = emits_record [OF assms(1-3), of False]
  show "emits (RecordMemRead I pin ip addr) t k
      [timer_packet (time_ctr t), mk_packet ip (enc MEMREAD) addr] (recorded MEMREAD)"
    using rec [of MEMREAD ip addr] unfolding e emits_def
    by (simp only: RecordMemRead_def find_bind [OF assms(4)] bindP_getP whenP_def assms(5) if_True MASK_AND)
  show "emits (RecordMemWrite I pin ip addr) t k
      [timer_packet (time_ctr t), mk_packet ip (enc MEMWRITE) addr] (recorded MEMWRITE)"
    using rec [of MEMWRITE ip addr] unfolding e emits_def
    by (simp only: RecordMemWrite_def find_bind [OF assms(4)] bindP_getP whenP_def assms(5) if_True MASK_AND)
  show "emits (BrnFun I pin addr b ip) t k
      [timer_packet (time_ctr t), mk_packet ip (enc (if b then TAKEN else NOTTAKEN)) addr]
      (recorded (if b then TAKEN else NOTTAKEN))"
    using rec [of "if b then TAKEN else NOTTAKEN" ip addr] unfolding e emits_def
    by (cases b) (simp_all add: BrnFun_def find_bind [OF assms(4)] bindP_getP whenP_def assms(5))
qed

lemma emits_function:
  assumes "ready t" "k < n" "\<And>v. legal v" "slot_of t pin = Some k"
  shows "emits (FunEntry I arg c pin) t k
      [timer_packet (time_ctr t + 1), mk_packet (scast (time_ctr t)) (enc c) arg]
      (\<lambda>t. recorded c (t\<lparr>time_ctr := time_ctr t + 1\<rparr>))"
    and "emits (FunExit I arg c pin) t k
      [timer_packet (time_ctr t + 1), mk_packet (scast (time_ctr t)) (enc c) arg]
      (\<lambda>t. recorded c (t\<lparr>time_ctr := time_ctr t + 1\<rparr>))"
proof -
  let ?t = "t\<lparr>time_ctr := time_ctr t + 1\<rparr>"
  have r: "ready ?t" using assms(1) by (simp add: ready_def timers_due_def)
  have s: "slot_of ?t pin = Some k" using assms(4) by simp
  have rec: "emits (block [sendTimerPacket I k b, add_checkSum c, send I k (scast (time_ctr t)) c arg]) ?t k
      [timer_packet (time_ctr t + 1), mk_packet (scast (time_ctr t)) (enc c) arg] (recorded c)" for b
    unfolding recorded_def using emits_record [OF r assms(2,3), of b c "scast (time_ctr t)" arg] by simp
  show "emits (FunEntry I arg c pin) t k
      [timer_packet (time_ctr t + 1), mk_packet (scast (time_ctr t)) (enc c) arg]
      (\<lambda>t. recorded c (t\<lparr>time_ctr := time_ctr t + 1\<rparr>))"
    using rec [of True] by (simp only: emits_def FunEntry_def clock_bind find_bind [OF s] MASK_AND) simp
  show "emits (FunExit I arg c pin) t k
      [timer_packet (time_ctr t + 1), mk_packet (scast (time_ctr t)) (enc c) arg]
      (\<lambda>t. recorded c (t\<lparr>time_ctr := time_ctr t + 1\<rparr>))"
    using rec [of False] by (simp only: emits_def FunExit_def clock_bind find_bind [OF s] MASK_AND) simp
qed

end

text \<open>A callback that is not to record leaves everything as it was.\<close>

lemma not_recording:
  assumes "slot_of t pin = Some k" "\<not> recording k t"
  shows "RecordMemRead I pin ip addr t = Some (Inr ((), t))"
    "RecordMemWrite I pin ip addr t = Some (Inr ((), t))" "BrnFun I pin addr b ip t = Some (Inr ((), t))"
  using assms by (simp_all add: RecordMemRead_def RecordMemWrite_def BrnFun_def prog_simps)

section \<open>The mutex is always released\<close>

definition unlocked :: "'c tool \<Rightarrow> bool" where
  "unlocked t \<longleftrightarrow> \<not> mainLockForPintool t"

named_theorems unlocked_intros \<open>programs that give the mutex back\<close>

lemma unlocked_last [unlocked_intros]: "keeps unlocked (block (ms @ [PIN_MutexUnlock]))"
proof -
  have "(block (ms @ [PIN_MutexUnlock])) t = Some (Inr (u, t')) \<Longrightarrow> unlocked t'" for t u and t' :: "'a tool"
    by (induction ms arbitrary: t) (auto simp: block.simps(2) bindP_Inr_iff PIN_MutexUnlock_def modify_def ret_def unlocked_def)
  then show ?thesis by (simp add: keeps_def)
qed

lemmas unlocked_last2 = unlocked_last [of "[_, _]", simplified append.simps]
  unlocked_last [of "[_, _, _]", simplified append.simps] unlocked_last [of "[_, _, _, _]", simplified append.simps]

lemma unlocked_lift_loop [unlocked_intros]: "keeps unlocked (lift_loop l)"
  by (auto simp: keeps_def lift_loop_Inr_iff unlocked_def)

lemma unlocked_send [unlocked_intros]: "keeps unlocked (send I tid ip c a)"
  by (simp add: send_def unlocked_lift_loop)

lemma unlocked_modify [unlocked_intros]:
  "(\<And>t. mainLockForPintool (f t) = mainLockForPintool t) \<Longrightarrow> keeps unlocked (modify f)"
  by (auto simp: keeps_def modify_def unlocked_def)

lemma unlocked_small [unlocked_intros]: "keeps unlocked (add_checkSum c)" "keeps unlocked ClockGetTime"
  "keeps unlocked (findThreadMapping i)"
proof -
  show "keeps unlocked (add_checkSum c)"
    unfolding add_checkSum_def by (rule unlocked_last2)
  show "keeps unlocked ClockGetTime"
    unfolding ClockGetTime_def by (intro keeps_getP keeps_bindP keeps_ret unlocked_modify) simp
  show "keeps unlocked (findThreadMapping i)"
    unfolding findThreadMapping_def by (auto intro!: keeps_getP keeps_bindP keeps_ret keeps_stops split: option.splits)
qed

lemma unlocked_timer [unlocked_intros]: "keeps unlocked (sendTimerPacket I tid b)"
  unfolding sendTimerPacket_def
  by (auto intro!: keeps_getP keeps_bindP keeps_ret keeps_block keeps_whenP unlocked_intros)

lemma unlocked_callback: "keeps unlocked (run_callback I c)"
  by (cases c)
     (auto simp: ThreadStart_def ThreadFini_def RecordMemRead_def RecordMemWrite_def BrnFun_def RegValRead_def
        RegValWrite_def CountIns_def FunStartInstrumentation_def FunEndInstrumentation_def FunEntry_def
        FunExit_def BarrierInit_def my_pthread_mutex_lock_def my_pthread_mutex_unlock_def Let_def printip_def
        simp del: block_simps split: if_splits
        intro!: unlocked_last2 keeps_getP keeps_bindP keeps_ret keeps_stops keeps_block keeps_whenP keeps_if unlocked_intros)

section \<open>The checksum is the sum of the packets\<close>

text \<open>Every packet counts with its encoding, except the kinds for which the code does not touch
  \<open>checkSum\<close>: instructions, starting threads and final packets.\<close>

definition uncounted :: "u64 list" where
  "uncounted = map enc [INSTRUCTION, CHILD_START, PARENT_SPAWN, SUBSETSIMCOMPLETE]"

fun item_weight :: "item \<Rightarrow> u64" where
  "item_weight (Pkt p) = (if pk_value p \<in> set uncounted then 0 else pk_value p)"
| "item_weight (Final code k) = 0"

definition channel_sum :: "nat \<Rightarrow> (nat \<Rightarrow> item list) \<Rightarrow> u64" where
  "channel_sum n h = (\<Sum>k<n. sum_list (map item_weight (h k)))"

lemma channel_sum_append:
  assumes "k < n"
  shows "channel_sum n (h(k := h k @ xs)) = channel_sum n h + sum_list (map item_weight xs)"
proof -
  let ?f = "\<lambda>h i. sum_list (map item_weight (h i))"
  have "(\<Sum>i\<in>{..<n} - {k}. ?f (h(k := h k @ xs)) i) = (\<Sum>i\<in>{..<n} - {k}. ?f h i)"
    by (rule sum.cong) auto
  then show ?thesis
    using assms unfolding channel_sum_def
    by (subst (1 2) sum.remove [of "{..<n}" k]) (simp_all add: algebra_simps)
qed

text \<open>The callbacks after which the sum is right: all but the start of a thread, which may reset a
  channel that still holds packets.\<close>

fun checked_callback :: "callback \<Rightarrow> bool" where
  "checked_callback (Thread_start tid p c) = False"
| "checked_callback (Fun_entry a e tid) = (enc e \<notin> set uncounted)"
| "checked_callback (Fun_exit a e tid) = (enc e \<notin> set uncounted)"
| "checked_callback (Barrier_init a v e tid) = (enc e \<notin> set uncounted)"
| "checked_callback c = True"

context packet_channel
begin

definition tool_ok :: "'c tool \<Rightarrow> bool" where
  "tool_ok t \<longleftrightarrow> ok (tst t) \<and> length (threadMapping t) = n \<and> maxActive t = n \<and> traceMethod t = SharedMemory"

definition balance :: "'c tool \<Rightarrow> u64" where
  "balance t = checkSum t - channel_sum n (hist (tst t))"

definition effect :: "u64 \<Rightarrow> ('c tool, 'b) prog \<Rightarrow> ('b \<Rightarrow> bool) \<Rightarrow> bool" where
  "effect d m R \<longleftrightarrow> (\<forall>t a t'. tool_ok t \<longrightarrow> m t = Some (Inr (a, t')) \<longrightarrow>
     tool_ok t' \<and> balance t' = balance t + d \<and> R a)"

lemma effect_ret: "R a \<Longrightarrow> effect 0 (ret a) R" by (simp add: effect_def ret_def)
lemma effect_stops: "effect d (stops e) R" by (simp add: effect_def stops_def)
lemma effect_getP: "(\<And>t. tool_ok t \<Longrightarrow> R (f t)) \<Longrightarrow> effect 0 (getP f) R" by (simp add: effect_def getP_def)

lemma effect_bind:
  assumes m: "effect d1 m R" and f: "\<And>a. R a \<Longrightarrow> effect d2 (f a) R'" and d: "d = d1 + d2"
  shows "effect d (bindP m f) R'"
  unfolding effect_def
proof (intro allI impI)
  fix t b t'' assume t: "tool_ok t" and run: "bindP m f t = Some (Inr (b, t''))"
  from run obtain a t' where 1: "m t = Some (Inr (a, t'))" and 2: "f a t' = Some (Inr (b, t''))"
    unfolding bindP_Inr_iff by blast
  from m t 1 have 3: "tool_ok t'" "balance t' = balance t + d1" "R a" unfolding effect_def by blast+
  from f [OF 3(3)] 3(1) 2 have "tool_ok t''" "balance t'' = balance t' + d2" "R' b" unfolding effect_def by blast+
  with 3 d show "tool_ok t'' \<and> balance t'' = balance t + d \<and> R' b" by simp
qed

lemma effect_weaken: "effect d m R \<Longrightarrow> effect d m (\<lambda>_. True)" by (simp add: effect_def)

text \<open>Neutral programs keep the balance.\<close>

definition neutral :: "('c tool, 'b) prog \<Rightarrow> bool" where
  "neutral m \<longleftrightarrow> effect 0 m (\<lambda>_. True)"

lemma effect_modify:
  assumes "\<And>t. tst (f t) = tst t" "\<And>t. length (threadMapping (f t)) = length (threadMapping t)"
    "\<And>t. maxActive (f t) = maxActive t" "\<And>t. traceMethod (f t) = traceMethod t" "\<And>t. checkSum (f t) = checkSum t + d"
  shows "effect d (modify f) (\<lambda>_. True)"
  using assms by (auto simp: effect_def modify_def tool_ok_def balance_def)

lemma effect_send:
  "k < n \<Longrightarrow> legal (enc c) \<Longrightarrow> effect (- item_weight (Pkt (mk_packet ip (enc c) a))) (send I k ip c a) (\<lambda>_. True)"
  unfolding effect_def send_def lift_loop_Inr_iff
  by (auto simp: tool_ok_def balance_def channel_sum_append dest!: send_loop_sends)

lemma effect_finish:
  "k < n \<Longrightarrow> (\<And>c. sum_list (map item_weight (fin c)) = 0) \<Longrightarrow> neutral (finish_thread I k x)"
  unfolding neutral_def effect_def finish_thread_def lift_loop_Inr_iff
  by (auto simp: tool_ok_def balance_def channel_sum_append dest!: finish_loop_finishes)

lemma effect_add_checkSum: "effect (enc c) (add_checkSum c) (\<lambda>_. True)"
  unfolding effect_def add_checkSum_def PIN_MutexLock_def PIN_MutexUnlock_def
  by (auto simp: bindP_Inr_iff modify_def ret_def tool_ok_def balance_def split: if_splits)

lemma effect_find: "effect 0 (findThreadMapping i) (\<lambda>k. k < n)"
  unfolding effect_def by (auto simp: findThreadMapping_apply tool_ok_def dest: first_index_SomeD split: option.splits)

lemma neutral_ret: "neutral (ret a)" by (simp add: neutral_def effect_ret)
lemma neutral_stops: "neutral (stops e)" by (simp add: neutral_def effect_stops)
lemma neutral_getP: "neutral (getP f)" by (simp add: neutral_def effect_getP)
lemma neutral_bind: "neutral m \<Longrightarrow> (\<And>a. neutral (f a)) \<Longrightarrow> neutral (bindP m f)"
  unfolding neutral_def by (rule effect_bind [where ?d1.0 = 0 and ?d2.0 = 0]) auto
lemma neutral_bind_find: "(\<And>k. k < n \<Longrightarrow> neutral (f k)) \<Longrightarrow> neutral (bindP (findThreadMapping i) f)"
  unfolding neutral_def by (rule effect_bind [OF effect_find, where ?d2.0 = 0]) auto
lemma neutral_bind_get: "(\<And>t. tool_ok t \<Longrightarrow> R (g t)) \<Longrightarrow> (\<And>a. R a \<Longrightarrow> neutral (f a)) \<Longrightarrow> neutral (bindP (getP g) f)"
  unfolding neutral_def by (rule effect_bind [OF effect_getP, where ?d2.0 = 0 and R = R]) auto
lemma neutral_when: "(b \<Longrightarrow> neutral m) \<Longrightarrow> neutral (whenP b m)" by (simp add: whenP_def neutral_ret)
lemma neutral_if: "(b \<Longrightarrow> neutral m) \<Longrightarrow> (\<not> b \<Longrightarrow> neutral m') \<Longrightarrow> neutral (if b then m else m')" by simp
lemma neutral_block: "(\<And>m. m \<in> set ms \<Longrightarrow> neutral m) \<Longrightarrow> neutral (block ms)"
  by (induction ms) (auto simp: block.simps(2) intro: neutral_ret neutral_bind)
lemma neutral_modify:
  "(\<And>t. tst (f t) = tst t) \<Longrightarrow> (\<And>t. length (threadMapping (f t)) = length (threadMapping t)) \<Longrightarrow>
    (\<And>t. maxActive (f t) = maxActive t) \<Longrightarrow> (\<And>t. traceMethod (f t) = traceMethod t) \<Longrightarrow>
    (\<And>t. checkSum (f t) = checkSum t) \<Longrightarrow> neutral (modify f)"
  unfolding neutral_def by (rule effect_modify) simp_all
lemma neutral_mutex: "neutral PIN_MutexLock" "neutral PIN_MutexUnlock"
  by (auto simp: neutral_def effect_def PIN_MutexLock_def PIN_MutexUnlock_def modify_def tool_ok_def balance_def
      split: if_splits)
lemma neutral_clock: "neutral ClockGetTime"
  unfolding ClockGetTime_def by (intro neutral_bind neutral_getP neutral_ret neutral_modify) simp_all

text \<open>A packet counted and sent.\<close>

lemma neutral_counted:
  assumes "k < n" "\<And>v. legal v" "enc c \<notin> set uncounted" "effect (enc c) m (\<lambda>_. True)"
  shows "neutral (bindP m (\<lambda>_. send I k x c y))"
  unfolding neutral_def using assms
  by (intro effect_bind [OF assms(4) effect_send]) (simp_all add: right_minus)

lemma timer_counted: "enc TIMER \<notin> set uncounted"
  by (simp add: uncounted_def encoding_defs enc_def)

lemma neutral_timer: "k < n \<Longrightarrow> (\<And>v. legal v) \<Longrightarrow> neutral (sendTimerPacket I k b)"
proof -
  assume k: "k < n" and l: "\<And>v. legal v"
  have c: "neutral (modify (\<lambda>t. t\<lparr>countPacket := (countPacket t)(k := x t)\<rparr>))" for x
    by (rule neutral_modify) simp_all
  have s: "effect (- enc TIMER) (send I k ip TIMER 0) (\<lambda>_. True)" for ip
    using effect_send [OF k l, where c = TIMER and a = 0] timer_counted by simp
  have "effect (- enc TIMER) (bindP ClockGetTime (\<lambda>time. send I k time TIMER 0)) (\<lambda>_. True)"
    by (rule effect_bind [OF neutral_clock [unfolded neutral_def] s]) simp
  then have "effect (- enc TIMER) (block [modify (\<lambda>t. t\<lparr>countPacket := (countPacket t)(k := 0)\<rparr>),
      bindP ClockGetTime (\<lambda>time. send I k time TIMER 0)]) (\<lambda>_. True)"
    unfolding block_simps
    by (intro effect_bind [OF c [unfolded neutral_def]]) simp_all
  then have "neutral (block [add_checkSum TIMER, modify (\<lambda>t. t\<lparr>countPacket := (countPacket t)(k := 0)\<rparr>),
      bindP ClockGetTime (\<lambda>time. send I k time TIMER 0)])"
    unfolding neutral_def block_more [of "add_checkSum TIMER"]
    by (rule effect_bind [OF effect_add_checkSum _ right_minus [symmetric]])
  then show ?thesis
    unfolding sendTimerPacket_def block_more [of "modify _" "whenP _ _"] block_one
    by (intro neutral_bind neutral_getP neutral_when c)
qed

lemma neutral_record:
  "k < n \<Longrightarrow> (\<And>v. legal v) \<Longrightarrow> enc c \<notin> set uncounted \<Longrightarrow>
    neutral (block [sendTimerPacket I k b, add_checkSum c, send I k x c y])"
  unfolding block_simps
  by (rule neutral_bind [OF neutral_timer neutral_counted]) (simp_all add: effect_add_checkSum)

lemma never_returns_neutral: "(\<And>t a t'. m t \<noteq> Some (Inr (a, t'))) \<Longrightarrow> neutral m"
  by (auto simp: neutral_def effect_def)

lemma terminates: "waitForThreadsAndTerminatePin I' t \<noteq> Some (Inr (a, t'))"
  by (simp add: waitForThreadsAndTerminatePin_def bindP_modify stops_def)

lemma codes_counted: "enc MEMREAD \<notin> set uncounted" "enc MEMWRITE \<notin> set uncounted" "enc TAKEN \<notin> set uncounted"
  "enc NOTTAKEN \<notin> set uncounted" "enc LOCK \<notin> set uncounted" "enc UNLOCK \<notin> set uncounted"
  "enc (LOCK + 1) \<notin> set uncounted" "enc (UNLOCK + 1) \<notin> set uncounted"
  "enc 6 \<notin> set uncounted" "enc 7 \<notin> set uncounted"
  by (simp_all add: uncounted_def encoding_defs enc_def)

lemma neutral_finish_alive:
  assumes "\<And>c. sum_list (map item_weight (fin c)) = 0"
  shows "neutral (finish_alive I ids)"
proof (induction ids)
  case (Cons i ids)
  have m: "neutral (modify (\<lambda>t. t\<lparr>livethreads := livethreads t - 1, threadAlive := (threadAlive t)(i := False)\<rparr>))"
    by (rule neutral_modify) simp_all
  have f: "neutral (block [finish_thread I i k,
      modify (\<lambda>t. t\<lparr>livethreads := livethreads t - 1, threadAlive := (threadAlive t)(i := False)\<rparr>)])" if "i < n" for k
    unfolding block_simps using effect_finish [OF that assms] m by (rule neutral_bind)
  show ?case
    unfolding finish_alive.simps
    by (rule neutral_bind_get [where R = "\<lambda>(alive, inside, k). inside = (i < n)"])
       (auto simp: tool_ok_def intro!: neutral_bind neutral_if neutral_ret neutral_stops f Cons)
qed (simp add: neutral_ret)

lemma neutral_mutex_event:
  assumes "k < n" "\<And>v. legal v" "enc c \<notin> set uncounted" "effect (enc c) (modify f) (\<lambda>_. True)"
  shows "neutral (bindP (block [PIN_MutexLock, modify f, PIN_MutexUnlock]) (\<lambda>_. send I k x c y))"
proof -
  have "effect (enc c) (block [modify f, PIN_MutexUnlock]) (\<lambda>_. True)"
    unfolding block_simps
    by (rule effect_bind [OF assms(4) neutral_mutex(2) [unfolded neutral_def]]) simp
  then have "effect (enc c) (block [PIN_MutexLock, modify f, PIN_MutexUnlock]) (\<lambda>_. True)"
    unfolding block_more [of PIN_MutexLock]
    by (rule effect_bind [OF neutral_mutex(1) [unfolded neutral_def]]) simp_all
  then show ?thesis by (rule neutral_counted [OF assms(1-3)])
qed

lemma neutral_subset_step: "neutral (subset_step I' tid)"
proof -
  have "neutral (block [finish_subset I' tid k, set_complete I' True, waitForThreadsAndTerminatePin I'])" for k
    unfolding block_simps by (rule never_returns_neutral) (simp add: bindP_Inr_iff terminates)
  moreover have "neutral (modify (\<lambda>t. t\<lparr>instructionIgnorePhase := \<not> in_window t\<rparr>))"
    by (rule neutral_modify) simp_all
  ultimately show ?thesis
    unfolding subset_step_def block_one block_more case_prod_beta
    by (intro neutral_bind [OF _ neutral_bind [OF neutral_getP neutral_when]])
qed

lemma neutral_slice_step:
  assumes "\<And>c. sum_list (map item_weight (fin c)) = 0"
  shows "neutral (slice_step I)"
proof -
  have m: "neutral (modify (\<lambda>t. let s = sliceArray t ! currentSlice t in
         if s * SLICE \<le> totalNumCISC t then
           if totalNumCISC t \<le> (s + 1) * SLICE then t\<lparr>instructionIgnorePhase := False\<rparr>
           else t\<lparr>instructionIgnorePhase := True, currentSlice := currentSlice t + 1\<rparr>
         else t\<lparr>instructionIgnorePhase := True\<rparr>))"
    by (rule neutral_modify) (simp_all add: Let_def)
  have w: "neutral (waitForThreadsAndTerminatePin I)"
    by (rule never_returns_neutral) (rule terminates)
  show ?thesis
    unfolding slice_step_def block_one block_more
    by (intro neutral_bind neutral_getP neutral_if neutral_stops neutral_when m w neutral_finish_alive assms)
qed

lemma neutral_printip:
  assumes "\<And>v. legal v" "\<And>c. sum_list (map item_weight (fin c)) = 0"
  shows "neutral (printip I tid ip asm)"
proof -
  have m: "neutral (modify (\<lambda>t. t\<lparr>numCISC := (numCISC t)(k := numCISC t k + 1), totalNumCISC := totalNumCISC t + 1\<rparr>))" for k
    by (rule neutral_modify) simp_all
  have i: "neutral (send I k x INSTRUCTION 1)" if "k < n" for k x
    using effect_send [OF that assms(1), where c = INSTRUCTION and a = 1 and ip = x]
    by (simp add: neutral_def uncounted_def)
  have s: "neutral (bindP (getP (\<lambda>t. (instructionIgnorePhase t, traceMethod t))) (\<lambda>(ign, m). whenP (\<not> ign) (
         case m of SharedMemory \<Rightarrow> send I k x INSTRUCTION 1 | File \<Rightarrow> send_assembly I k x ASSEMBLY asm)))"
    if "k < n" for k x
    by (rule neutral_bind_get [where R = "\<lambda>(_, m). m = SharedMemory"])
       (auto simp: tool_ok_def intro!: neutral_when i that)
  show ?thesis
    unfolding printip_def block_one block_more MASK_AND
    by (intro neutral_bind_find neutral_bind neutral_getP neutral_if neutral_ret neutral_mutex m s
        neutral_subset_step neutral_slice_step assms(2))
qed

lemma neutral_ThreadFini:
  assumes "\<And>c. sum_list (map item_weight (fin c)) = 0"
  shows "neutral (ThreadFini I tid)"
proof -
  have m: "neutral (modify (\<lambda>t. t\<lparr>isThreadActive := (isThreadActive t)[k := False], livethreads := livethreads t - 1,
                     threadAlive := (threadAlive t)(k := False)\<rparr>))" for k
    by (rule neutral_modify) simp_all
  show ?thesis
    unfolding ThreadFini_def block_one block_more
    by (intro neutral_bind_find neutral_bind neutral_getP neutral_mutex m effect_finish assms)
qed

lemma neutral_registers:
  assumes "\<And>v. legal v"
  shows "neutral (RegValRead I tid ip r)" "neutral (RegValWrite I tid ip r)"
proof -
  have e: "(6 :: u64) = enc 6" "(7 :: u64) = enc 7" by (simp_all add: enc_def)
  have 6: "effect (enc 6) (modify (\<lambda>t. t\<lparr>checkSum := checkSum t + enc 6\<rparr>)) (\<lambda>_. True)"
    and 7: "effect (enc 7) (modify (\<lambda>t. t\<lparr>checkSum := checkSum t + enc 7\<rparr>)) (\<lambda>_. True)"
    by (rule effect_modify; simp)+
  have "effect (- enc 6) (send I k x 6 y) (\<lambda>_. True)" if "k < n" for k x y
    using effect_send [OF that assms, where c = 6 and a = y and ip = x] codes_counted by simp
  then have "effect (- enc 6) (bindP (findThreadMapping tid) (\<lambda>tid. send I tid x 6 y)) (\<lambda>_. True)" for x y
    by (rule effect_bind [OF effect_find]) simp_all
  then have "neutral (bindP (modify (\<lambda>t. t\<lparr>checkSum := checkSum t + enc 6\<rparr>))
      (\<lambda>_. bindP (findThreadMapping tid) (\<lambda>tid. send I tid x 6 y)))" for x y
    unfolding neutral_def by (rule effect_bind [OF 6 _ right_minus [symmetric]])
  then show "neutral (RegValRead I tid ip r)"
    unfolding RegValRead_def block_one block_more MASK_AND e(1)
    by (rule neutral_bind [OF neutral_getP neutral_when])
  show "neutral (RegValWrite I tid ip r)"
    unfolding RegValWrite_def block_one block_more MASK_AND e(2)
    by (intro neutral_bind [OF neutral_getP] neutral_when neutral_bind_find neutral_counted [OF _ assms codes_counted(10) 7])
qed

lemma neutral_then: "neutral (bindP m (\<lambda>_. s)) \<Longrightarrow> neutral x \<Longrightarrow> neutral (bindP m (\<lambda>_. bindP s (\<lambda>_. x)))"
  using neutral_bind [of "bindP m (\<lambda>_. s)" "\<lambda>_. x"] by (simp add: bindP_assoc)

lemma neutral_locks:
  assumes "\<And>v. legal v"
  shows "neutral (my_pthread_mutex_lock I a (ret ()) tid)" "neutral (my_pthread_mutex_unlock I a (ret ()) tid)"
proof -
  have lk: "neutral (bindP (block [PIN_MutexLock, modify (\<lambda>t. t\<lparr>checkSum := checkSum t + enc LOCK, num_locks := num_locks t + 1\<rparr>),
      PIN_MutexUnlock]) (\<lambda>_. send I k x LOCK y))" if "k < n" for k x y
    by (rule neutral_mutex_event [OF that assms codes_counted(5)]) (rule effect_modify; simp)
  have uk: "neutral (bindP (block [PIN_MutexLock, modify (\<lambda>t. t\<lparr>checkSum := checkSum t + enc UNLOCK, num_unlocks := num_unlocks t + 1\<rparr>),
      PIN_MutexUnlock]) (\<lambda>_. send I k x UNLOCK y))" if "k < n" for k x y
    by (rule neutral_mutex_event [OF that assms codes_counted(6)]) (rule effect_modify; simp)
  have e: "neutral (bindP ClockGetTime (\<lambda>time. block [sendTimerPacket I k False, add_checkSum c, send I k time c a]))"
    if "k < n" "enc c \<notin> set uncounted" for k c
    by (rule neutral_bind [OF neutral_clock neutral_record [OF that(1) assms that(2)]])
  have b5: "block [m1, m2, m3, m4, m5] = bindP m1 (\<lambda>_. bindP m2 (\<lambda>_. bindP m3 (\<lambda>_. bindP m4 (\<lambda>_. m5))))"
    for m1 m2 m3 m4 m5 :: "('c tool, unit) prog"
    by simp
  show "neutral (my_pthread_mutex_lock I a (ret ()) tid)"
    unfolding my_pthread_mutex_lock_def Let_def MASK_AND b5
    by (intro neutral_bind [OF neutral_clock] neutral_bind_find neutral_bind [OF neutral_timer] neutral_then lk
        neutral_bind [OF neutral_ret] e assms codes_counted)
  show "neutral (my_pthread_mutex_unlock I a (ret ()) tid)"
    unfolding my_pthread_mutex_unlock_def Let_def MASK_AND b5
    by (intro neutral_bind [OF neutral_clock] neutral_bind_find neutral_bind [OF neutral_timer] neutral_then uk
        neutral_bind [OF neutral_ret] e assms codes_counted)
qed

lemma neutral_access:
  assumes "\<And>v. legal v"
  shows "neutral (RecordMemRead I tid ip x)" "neutral (RecordMemWrite I tid ip x)" "neutral (BrnFun I tid x b ip)"
proof -
  show "neutral (RecordMemRead I tid ip x)"
    unfolding RecordMemRead_def
    by (intro neutral_bind_find neutral_bind [OF neutral_getP] neutral_when neutral_record assms codes_counted)
  show "neutral (RecordMemWrite I tid ip x)"
    unfolding RecordMemWrite_def
    by (intro neutral_bind_find neutral_bind [OF neutral_getP] neutral_when neutral_record assms codes_counted)
  show "neutral (BrnFun I tid x b ip)"
    unfolding BrnFun_def block_one block_more
    by (intro neutral_bind_find neutral_bind [OF neutral_getP] neutral_when neutral_bind [OF neutral_timer]
        neutral_if neutral_counted effect_add_checkSum assms codes_counted)
qed

lemma neutral_events:
  assumes "\<And>v. legal v" "enc e \<notin> set uncounted"
  shows "neutral (FunEntry I x e tid)" "neutral (FunExit I x e tid)" "neutral (BarrierInit I x y e tid)"
proof -
  show "neutral (FunEntry I x e tid)"
    unfolding FunEntry_def by (intro neutral_bind [OF neutral_clock] neutral_bind_find neutral_record assms)
  show "neutral (FunExit I x e tid)"
    unfolding FunExit_def by (intro neutral_bind [OF neutral_clock] neutral_bind_find neutral_record assms)
  have s: "effect (- enc e) (send I k v e w) (\<lambda>_. True)" if "k < n" for k v w
    using effect_send [OF that assms(1), where c = e and a = w and ip = v] assms(2) by simp
  have "effect (- enc e) (bindP (getP threadMapping) (\<lambda>m.
       if tid < length m \<and> m ! tid < length m then send I (m ! tid) (MASK AND y) e (MASK AND x)
       else stops Undefined)) (\<lambda>_. True)"
    by (rule effect_bind [OF effect_getP [where R = "\<lambda>m. length m = n"], where ?d2.0 = "- enc e"])
       (simp_all add: tool_ok_def s effect_stops)
  then show "neutral (BarrierInit I x y e tid)"
    unfolding BarrierInit_def block_one block_more neutral_def
    by (rule effect_bind [OF effect_add_checkSum _ right_minus [symmetric]])
qed

lemma neutral_callback:
  assumes "\<And>v. legal v" "\<And>c. sum_list (map item_weight (fin c)) = 0" "checked_callback c"
  shows "neutral (run_callback I c)"
proof (cases c)
  case Count_ins
  have "neutral (CountIns :: ('c tool, unit) prog)"
    unfolding CountIns_def
    by (intro neutral_bind [OF neutral_getP] neutral_when neutral_modify) (simp_all add: Let_def)
  then show ?thesis by (simp add: Count_ins)
next
  case (Fun_start k)
  have "neutral (FunStartInstrumentation k :: ('c tool, unit) prog)"
    unfolding FunStartInstrumentation_def by (rule neutral_modify) simp_all
  then show ?thesis by (simp add: Fun_start)
next
  case Fun_end
  have "neutral (FunEndInstrumentation :: ('c tool, unit) prog)"
    unfolding FunEndInstrumentation_def by (rule neutral_modify) simp_all
  then show ?thesis by (simp add: Fun_end)
qed (use assms neutral_access neutral_registers neutral_locks neutral_events neutral_printip neutral_ThreadFini
     in simp_all)

lemma callbacks_balanced:
  assumes "\<And>v. legal v" "\<And>c. sum_list (map item_weight (fin c)) = 0" "list_all checked_callback cs"
    and "tool_ok t" "callbacks I cs t = Some (Inr (u, t'))"
  shows "tool_ok t' \<and> balance t' = balance t"
proof -
  have "neutral (callbacks I cs)"
    unfolding callbacks_def using assms(1-3) by (auto intro!: neutral_block neutral_callback simp: list_all_iff)
  with assms(4,5) show ?thesis by (auto simp: neutral_def effect_def)
qed

end

end
