(* ===== verification/CausalityProps.thy ===== *)
theory CausalityProps
  imports CausalityLaws
begin

text \<open>
  The properties of the callbacks of \<open>causalityTool.cpp\<close> over the shared-memory transport, instances of
  the lemmas of \<open>CausalityLaws\<close>, and the properties of its thread table, of the window of simulated
  instructions and of the program's end.
\<close>

section \<open>States of the tool over shared memory\<close>

text \<open>The channel is in order, the subset is running, the mutex is free, and no timer packet is pending.\<close>

definition tool_ready :: "nat \<Rightarrow> sys tool \<Rightarrow> bool" where
  "tool_ready n t \<longleftrightarrow> sys_inv n (tst t) \<and> \<not> isSubsetsimComplete (emu (tst t))
     \<and> \<not> mainLockForPintool t \<and> timers_due t"

text \<open>A callback returns, has changed the globals as \<open>f\<close> says, and the packets accepted from the threads are
  those of before and \<open>ps\<close> more from thread slot \<open>k\<close>.\<close>

definition leaves :: "nat \<Rightarrow> (sys tool, unit) prog \<Rightarrow> sys tool \<Rightarrow> nat \<Rightarrow> packet list \<Rightarrow> (sys tool \<Rightarrow> sys tool) \<Rightarrow> bool" where
  "leaves n m t k ps f \<longleftrightarrow> (\<exists>\<sigma>. m t = Some (Inr ((), (f t)\<lparr>tst := \<sigma>\<rparr>)) \<and> sys_inv n \<sigma>
     \<and> \<not> isSubsetsimComplete (emu \<sigma>)
     \<and> accepted \<sigma> = (accepted (tst t))(k := accepted (tst t) k @ map Pkt ps))"

lemma shm_ready_iff: "shm.ready n t \<longleftrightarrow> tool_ready n t"
  by (simp add: shm.ready_def tool_ready_def shm_live_def)

lemma shm_emits_iff: "shm.emits n m t k ps f \<longleftrightarrow> leaves n m t k ps f"
  by (simp add: shm.emits_def leaves_def shm_live_def)

text \<open>What a recorded event does to the globals.\<close>

definition count_event :: "int \<Rightarrow> 'c tool \<Rightarrow> 'c tool" where
  "count_event c t = t\<lparr>time_ctr := time_ctr t + 1, checkSum := checkSum t + enc TIMER + enc c\<rparr>"

lemma shm_recorded: "shm.recorded = count_event"
  by (simp add: fun_eq_iff shm.recorded_def count_event_def)

text \<open>A state for the witnesses: two slots, Pin's threads 7 and 9 in them.\<close>

definition demo_tool :: "sys tool" where
  "demo_tool = \<lparr>mainLockForPintool = False, numThreads = 2, livethreads = 2, checkSum = 0,
     tst = sys_init (shm_of 0 2) 2, pumpingStatus = (\<lambda>_. True), curSynchVar = (\<lambda>_. 0), numIns = 0,
     numInsToIgnore = 0, numInsToSimulate = 3, startMarker = '''', endMarker = '''',
     instructionIgnorePhase = False, outOfROIPhase = False, numCISC = (\<lambda>_. 0), totalNumCISC = 0,
     threadAlive = (\<lambda>_. False), pinpointsFilename = ''nofile'', sliceArray = [], currentSlice = 0,
     threadMapping = [7, 9], isThreadActive = [True, True], parentId = [0, 0], currentId = [70, 90],
     countPacket = (\<lambda>_. 0), time_ctr = 0, num_locks = 0, num_unlocks = 0, traceMethod = SharedMemory\<rparr>"

lemma demo_ready: "tool_ready 2 demo_tool"
  using shm_of_inv [of 2] by (simp add: tool_ready_def demo_tool_def timers_due_def sys_init_def shm_of_def)

lemma demo_slots: "slot_of demo_tool 7 = Some 0" "slot_of demo_tool 9 = Some 1"
  by (simp_all add: demo_tool_def)

section \<open>Packets of the callbacks\<close>

text \<open>C11: a memory read, a memory write and a branch of an active thread inside the region of interest and
  the window each return, and leave exactly two packets in the thread's channel: a timer packet with the
  clock's value, then the event with its address, and the checksum counts both.\<close>

theorem accesses_recorded:
  assumes "tool_ready n t" "k < n" "slot_of t pin = Some k" "recording k t"
  shows "leaves n (RecordMemRead (std_ipc n sp d) pin ip addr) t k
      [timer_packet (time_ctr t), mk_packet ip (enc MEMREAD) addr] (count_event MEMREAD)
    \<and> leaves n (RecordMemWrite (std_ipc n sp d) pin ip addr) t k
      [timer_packet (time_ctr t), mk_packet ip (enc MEMWRITE) addr] (count_event MEMWRITE)
    \<and> leaves n (BrnFun (std_ipc n sp d) pin addr b ip) t k
      [timer_packet (time_ctr t), mk_packet ip (enc (if b then TAKEN else NOTTAKEN)) addr]
      (count_event (if b then TAKEN else NOTTAKEN))"
  using shm.emits_access(1,2) [where n = n and t = t and k = k and pin = pin and sp = sp and shmdt = d and ip = ip and addr = addr]
    shm.emits_access(3) [where n = n and t = t and k = k and pin = pin and sp = sp and shmdt = d and ip = ip and addr = addr and b = b]
    assms
  by (simp only: shm_emits_iff shm_recorded shm_ready_iff simp_thms)

theorem accesses_recorded_witness:
  "leaves 2 (RecordMemRead (std_ipc 2 9 (\<lambda>_. 0)) 9 100 200) demo_tool 1
      [timer_packet 0, mk_packet 100 (enc MEMREAD) 200] (count_event MEMREAD)
    \<and> leaves 2 (RecordMemWrite (std_ipc 2 9 (\<lambda>_. 0)) 9 100 200) demo_tool 1
      [timer_packet 0, mk_packet 100 (enc MEMWRITE) 200] (count_event MEMWRITE)
    \<and> leaves 2 (BrnFun (std_ipc 2 9 (\<lambda>_. 0)) 9 200 False 100) demo_tool 1
      [timer_packet 0, mk_packet 100 (enc NOTTAKEN) 200] (count_event NOTTAKEN)"
proof -
  have "recording 1 demo_tool" "time_ctr demo_tool = 0" by (simp_all add: recording_def demo_tool_def)
  with accesses_recorded [OF demo_ready _ demo_slots(2), of 9 "\<lambda>_. 0" 100 200 False] show ?thesis by simp
qed

text \<open>a timer packet sent on the way into a synchronisation function carries a later time than the
  function's own packet that follows it in the channel: the clock is read for the function first.\<close>

theorem function_entry_time_reversed:
  assumes "tool_ready n t" "k < n" "slot_of t pin = Some k"
  shows "leaves n (FunEntry (std_ipc n sp d) arg c pin) t k
      [timer_packet (time_ctr t + 1), mk_packet (scast (time_ctr t)) (enc c) arg]
      (\<lambda>t. count_event c (t\<lparr>time_ctr := time_ctr t + 1\<rparr>))
    \<and> leaves n (FunExit (std_ipc n sp d) arg c pin) t k
      [timer_packet (time_ctr t + 1), mk_packet (scast (time_ctr t)) (enc c) arg]
      (\<lambda>t. count_event c (t\<lparr>time_ctr := time_ctr t + 1\<rparr>))"
  using shm.emits_function [where n = n and t = t and k = k and pin = pin and sp = sp and shmdt = d and arg = arg and c = c] assms
  by (simp only: shm_emits_iff shm_recorded shm_ready_iff simp_thms)

theorem function_entry_time_reversed_witness:
  "leaves 2 (FunEntry (std_ipc 2 9 (\<lambda>_. 0)) 500 CONDWAIT 7) demo_tool 0
      [timer_packet 1, mk_packet 0 (enc CONDWAIT) 500]
      (\<lambda>t. count_event CONDWAIT (t\<lparr>time_ctr := time_ctr t + 1\<rparr>))
    \<and> leaves 2 (FunExit (std_ipc 2 9 (\<lambda>_. 0)) 500 CONDWAIT 7) demo_tool 0
      [timer_packet 1, mk_packet 0 (enc CONDWAIT) 500]
      (\<lambda>t. count_event CONDWAIT (t\<lparr>time_ctr := time_ctr t + 1\<rparr>))"
proof -
  have "time_ctr demo_tool = 0" by (simp add: demo_tool_def)
  with function_entry_time_reversed [OF demo_ready _ demo_slots(1), of 9 "\<lambda>_. 0" 500 CONDWAIT]
  show ?thesis by simp
qed

text \<open>however many callbacks of whatever kind and thread have run since \<open>main\<close>, the counter that shall
  space the timer packets \<open>PacketEpoch\<close> apart is 0 for every thread, so its test succeeds at every
  opportunity: the epoch has no effect.\<close>

theorem timer_spacing_ineffective:
  assumes "main False files new_Shm junk m0 kn = Running t0" "callbacks I cs t0 = Some (Inr ((), t))"
  shows "\<forall>k. countPacket t k mod PacketEpoch = 0 \<and> countPacket t k = 0"
proof -
  have "timers_due t0"
    using assms(1) by (auto simp: main_def timers_due_def Let_def split: if_splits sum.splits)
  then have "timers_due t" using keepsD [OF due_callbacks assms(2)] by blast
  then show ?thesis by (simp add: timers_due_def)
qed

definition std_knobs :: knobs where
  "std_knobs = \<lparr>KnobIgnore = 5, KnobSimulate = 100, KnobMaxNumActiveThreads = 2, KnobId = 1,
     KnobPinPointsFile = ''nofile'', KnobStartMarker = '''', KnobEndMarker = '''', KnobTraceMethod = ''sharedMemory''\<rparr>"

theorem timer_spacing_ineffective_witness:
  "\<exists>t0 t. main False (\<lambda>_. None) (\<lambda>_ n. Inr (sys_init (shm_of 0 n) n)) (\<lambda>_. 0) (\<lambda>_. 0) std_knobs = Running t0
    \<and> callbacks (std_ipc 2 9 (\<lambda>_. 0)) [Count_ins, Fun_end] t0 = Some (Inr ((), t))
    \<and> (\<forall>k. countPacket t k mod PacketEpoch = 0 \<and> countPacket t k = 0)"
proof -
  obtain t0 where t0: "main False (\<lambda>_. None) (\<lambda>_ n. Inr (sys_init (shm_of 0 n) n)) (\<lambda>_. 0) (\<lambda>_. 0) std_knobs = Running t0"
    by (simp add: main_def std_knobs_def)
  obtain t where "callbacks (std_ipc 2 9 (\<lambda>_. 0)) [Count_ins, Fun_end] t0 = Some (Inr ((), t))"
    by (cases "instructionIgnorePhase t0")
       (simp_all add: callbacks_def CountIns_def FunEndInstrumentation_def getP_def whenP_def
        modify_def bindP_def ret_def)
  with timer_spacing_ineffective [OF t0 this] t0 show ?thesis by blast
qed

text \<open>C19: every callback that returns has given the mutex back, if it was free before.\<close>

theorem callbacks_release_mutex:
  assumes "\<not> mainLockForPintool t" "run_callback I c t = Some (Inr ((), t'))"
  shows "\<not> mainLockForPintool t'"
  using keepsD [OF unlocked_callback assms(2)] assms(1) by (simp add: unlocked_def)

theorem callbacks_release_mutex_witness:
  "\<exists>t'. run_callback (std_ipc 2 9 (\<lambda>_. 0)) (Mem_read 9 100 200) demo_tool = Some (Inr ((), t')) \<and> \<not> mainLockForPintool t'"
proof -
  have r: "recording 1 demo_tool" "\<not> mainLockForPintool demo_tool" by (simp_all add: recording_def demo_tool_def)
  from shm.emits_access(1) [where n = 2 and t = demo_tool and k = 1 and pin = 9 and sp = 9 and shmdt = "\<lambda>_. 0" and ip = 100 and addr = 200] demo_ready demo_slots(2) r(1)
  obtain t' where "run_callback (std_ipc 2 9 (\<lambda>_. 0)) (Mem_read 9 100 200) demo_tool = Some (Inr ((), t'))"
    by (auto simp: shm_ready_iff shm.emits_def)
  with callbacks_release_mutex [OF r(2) this] show ?thesis by blast
qed

text \<open>C9: the checksum the tool prints at its end is the sum (modulo \<open>2 ^ 64\<close>) of the encodings of all packets
  it has handed to the channels, instructions, thread starts and final packets apart; every sequence of
  callbacks that starts no thread keeps it so.\<close>

theorem checksum_is_sum_of_packets:
  assumes "sys_inv n (tst t)" "maxActive t = n" "length (threadMapping t) = n" "traceMethod t = SharedMemory"
    and "checkSum t = channel_sum n (accepted (tst t))" "list_all checked_callback cs"
    and "callbacks (std_ipc n sp d) cs t = Some (Inr ((), t'))"
  shows "checkSum t' = channel_sum n (accepted (tst t'))"
proof -
  have "shm.tool_ok n t" using assms by (simp add: shm.tool_ok_def)
  from shm.callbacks_balanced [OF _ _ assms(6) this assms(7)] assms(5)
  show ?thesis by (simp add: shm.balance_def)
qed

theorem checksum_is_sum_of_packets_witness:
  "\<exists>t'. callbacks (std_ipc 2 9 (\<lambda>_. 0)) [Mem_read 9 100 200] demo_tool = Some (Inr ((), t'))
    \<and> checkSum t' = channel_sum 2 (accepted (tst t'))"
proof -
  have r: "recording 1 demo_tool" by (simp add: recording_def demo_tool_def)
  from shm.emits_access(1) [where n = 2 and t = demo_tool and k = 1 and pin = 9 and sp = 9 and shmdt = "\<lambda>_. 0" and ip = 100 and addr = 200] demo_ready demo_slots(2) r
  obtain t' where t': "callbacks (std_ipc 2 9 (\<lambda>_. 0)) [Mem_read 9 100 200] demo_tool = Some (Inr ((), t'))"
    by (auto simp: shm_ready_iff shm.emits_def callbacks_def)
  show ?thesis
    using checksum_is_sum_of_packets [OF _ _ _ _ _ _ t'] t' demo_ready
    by (simp add: tool_ready_def demo_tool_def channel_sum_def sys_init_def)
qed

section \<open>Barriers\<close>

text \<open>the packet of a barrier's initialisation goes to the channel \<open>threadMapping[tid]\<close>, the Pin id stored
  in the slot with the number of the caller's Pin id, and not to the caller's slot: whenever the two differ, the
  caller's channel stays as it was and another thread's gets the packet.\<close>

theorem barrier_init_wrong_channel:
  assumes "tool_ready n t" "pin < length (threadMapping t)" "threadMapping t ! pin = j" "j < n"
    "length (threadMapping t) = n" "slot_of t pin = Some k" "j \<noteq> k"
  shows "leaves n (BarrierInit (std_ipc n sp d) arg v e pin) t j [mk_packet v (enc e) arg]
      (\<lambda>t. t\<lparr>checkSum := checkSum t + enc e\<rparr>)
    \<and> (\<exists>t'. BarrierInit (std_ipc n sp d) arg v e pin t = Some (Inr ((), t'))
        \<and> accepted (tst t') k = accepted (tst t) k)"
proof -
  let ?t = "t\<lparr>checkSum := checkSum t + enc e\<rparr>"
  have r: "sys_inv n (tst ?t)" "shm_live (tst ?t)" "\<not> mainLockForPintool t"
    using assms(1) by (auto simp: tool_ready_def shm_live_def)
  have s: "shm.emits n (send (std_ipc n sp d) j v e arg) ?t j [mk_packet v (enc e) arg] (\<lambda>t. t)"
    by (rule shm.emits_send [OF r(1,2) assms(4) TrueI])
  have b: "BarrierInit (std_ipc n sp d) arg v e pin t = send (std_ipc n sp d) j v e arg ?t"
    using assms(2-5) by (simp add: BarrierInit_def bindP_ret [where m = "add_checkSum e" and s = t, OF add_checkSum_apply [OF r(3)]] bindP_getP)
  have "leaves n (BarrierInit (std_ipc n sp d) arg v e pin) t j [mk_packet v (enc e) arg]
      (\<lambda>t. t\<lparr>checkSum := checkSum t + enc e\<rparr>)"
    using s unfolding shm_emits_iff leaves_def b by simp
  then show ?thesis using assms(7) by (auto simp: leaves_def)
qed

text \<open>Three slots that hold Pin's threads 1, 2 and 0.\<close>

definition rotated_tool :: "sys tool" where
  "rotated_tool = demo_tool\<lparr>tst := sys_init (shm_of 0 3) 3, threadMapping := [1, 2, 0],
     isThreadActive := [True, True, True]\<rparr>"

theorem barrier_init_wrong_channel_witness:
  "leaves 3 (BarrierInit (std_ipc 3 9 (\<lambda>_. 0)) 500 4 BARRIERINIT 0) rotated_tool 1 [mk_packet 4 (enc BARRIERINIT) 500]
      (\<lambda>t. t\<lparr>checkSum := checkSum t + enc BARRIERINIT\<rparr>)
    \<and> (\<exists>t'. BarrierInit (std_ipc 3 9 (\<lambda>_. 0)) 500 4 BARRIERINIT 0 rotated_tool = Some (Inr ((), t'))
        \<and> accepted (tst t') 2 = accepted (tst rotated_tool) 2)"
proof -
  have "tool_ready 3 rotated_tool"
    using demo_ready shm_of_inv [of 3]
    by (simp add: tool_ready_def rotated_tool_def timers_due_def sys_init_def shm_of_def)
  then show ?thesis
    by (rule barrier_init_wrong_channel) (simp_all add: rotated_tool_def)
qed

section \<open>The table of threads\<close>

text \<open>Threads start and end in any order; Pin gives no two live threads the same id.  Other callbacks leave the
  table alone.\<close>

abbreviation active_slot :: "'c tool \<Rightarrow> nat \<Rightarrow> bool" where
  "active_slot t k \<equiv> k < maxActive t \<and> isThreadActive t ! k"

inductive thread_history :: "'c ipc \<Rightarrow> nat \<Rightarrow> 'c tool \<Rightarrow> bool" for I n where
  initial: "isThreadActive t = replicate n False \<Longrightarrow> length (threadMapping t) = n \<Longrightarrow> livethreads t = 0 \<Longrightarrow>
    thread_history I n t"
| start: "thread_history I n t \<Longrightarrow> (\<And>k. active_slot t k \<Longrightarrow> threadMapping t ! k \<noteq> pin) \<Longrightarrow>
    ThreadStart I pin p c t = Some (Inr ((), t')) \<Longrightarrow> thread_history I n t'"
| fini: "thread_history I n t \<Longrightarrow> active_slot t k \<Longrightarrow> threadMapping t ! k = pin \<Longrightarrow>
    ThreadFini I pin t = Some (Inr ((), t')) \<Longrightarrow> thread_history I n t'"
| other: "thread_history I n t \<Longrightarrow> isThreadActive t' = isThreadActive t \<Longrightarrow> threadMapping t' = threadMapping t \<Longrightarrow>
    livethreads t' = livethreads t \<Longrightarrow> thread_history I n t'"

definition table_ok :: "nat \<Rightarrow> 'c tool \<Rightarrow> bool" where
  "table_ok n t \<longleftrightarrow> maxActive t = n \<and> length (threadMapping t) = n
     \<and> livethreads t = int (length (filter (\<lambda>a. a) (isThreadActive t)))
     \<and> (\<forall>k i. active_slot t k \<longrightarrow> i < n \<longrightarrow> i < k \<or> active_slot t i \<longrightarrow> i \<noteq> k \<longrightarrow>
          threadMapping t ! i \<noteq> threadMapping t ! k)"

lemma table_slot: "table_ok n t \<Longrightarrow> active_slot t k \<Longrightarrow> slot_of t (threadMapping t ! k) = Some k"
  by (rule first_indexI) (auto simp: table_ok_def)

lemma filter_update:
  "k < length xs \<Longrightarrow> int (length (filter (\<lambda>a. a) (xs[k := b]))) =
     int (length (filter (\<lambda>a. a) xs)) + of_bool b - of_bool (xs ! k)"
proof (induction xs arbitrary: k)
  case (Cons x xs)
  then show ?case by (cases k) auto
qed simp

text \<open>The part of the state the table is about, and the programs that leave it alone.\<close>

definition same_table :: "'c tool \<Rightarrow> 'c tool \<Rightarrow> bool" where
  "same_table t t' \<longleftrightarrow> isThreadActive t' = isThreadActive t \<and> threadMapping t' = threadMapping t
     \<and> livethreads t' = livethreads t"

lemma same_table_loop: "keeps (same_table t) (lift_loop l)"
  by (auto simp: keeps_def lift_loop_Inr_iff same_table_def)

lemma ThreadStart_table:
  assumes "ThreadStart I pin p c t = Some (Inr ((), t'))"
  shows "\<exists>i. first_index Not (isThreadActive t) = Some i \<and> isThreadActive t' = (isThreadActive t)[i := True]
    \<and> threadMapping t' = (threadMapping t)[i := pin] \<and> livethreads t' = livethreads t + 1"
proof -
  let ?t0 = "t\<lparr>mainLockForPintool := True, numThreads := numThreads t + 1, livethreads := livethreads t + 1\<rparr>"
  obtain i where i: "first_index Not (isThreadActive t) = Some i"
    using assms by (cases "first_index Not (isThreadActive t)")
      (auto simp: ThreadStart_def bindP_Inr_iff PIN_MutexLock_def modify_def getP_def stops_def split: if_splits)
  let ?t = "t\<lparr>livethreads := livethreads t + 1, threadMapping := (threadMapping t)[i := pin],
      isThreadActive := (isThreadActive t)[i := True]\<rparr>"
  have "same_table ?t t'"
    using assms i
    by (auto simp: ThreadStart_def bindP_Inr_iff PIN_MutexLock_def PIN_MutexUnlock_def modify_def getP_def stops_def
        findThreadMapping_def ret_def whenP_def send_def lift_loop_Inr_iff same_table_def
        split: if_splits option.splits)
  with i show ?thesis by (simp add: same_table_def)
qed

lemma ThreadFini_table:
  assumes "ThreadFini I pin t = Some (Inr ((), t'))"
  shows "\<exists>k. slot_of t pin = Some k \<and> isThreadActive t' = (isThreadActive t)[k := False]
    \<and> threadMapping t' = threadMapping t \<and> livethreads t' = livethreads t - 1
    \<and> threadAlive t' = (threadAlive t)(k := False)"
  using assms
  by (auto simp: ThreadFini_def bindP_Inr_iff PIN_MutexLock_def PIN_MutexUnlock_def modify_def getP_def
      findThreadMapping_apply finish_thread_def lift_loop_Inr_iff split: if_splits option.splits)

lemma history_table: "thread_history I n t \<Longrightarrow> table_ok n t"
proof (induction rule: thread_history.induct)
  case (initial t)
  then show ?case by (auto simp: table_ok_def filter_replicate)
next
  case (start t pin p c t')
  from ThreadStart_table [OF start(3)] obtain i where
    i: "first_index Not (isThreadActive t) = Some i" "isThreadActive t' = (isThreadActive t)[i := True]"
      "threadMapping t' = (threadMapping t)[i := pin]" "livethreads t' = livethreads t + 1"
    by blast
  note f = first_index_SomeD [OF i(1)]
  have len: "i < n" "maxActive t = n" "length (threadMapping t) = n"
    using start.IH f by (auto simp: table_ok_def)
  have old: "threadMapping t' ! k \<noteq> pin" if "active_slot t' k" "k \<noteq> i" for k
    using start(2) [of k] that i by (auto simp: nth_list_update)
  have below: "active_slot t j" if "j < i" for j using f that by auto
  have "threadMapping t' ! j \<noteq> threadMapping t' ! k"
    if h: "active_slot t' k" "j < n" "j < k \<or> active_slot t' j" "j \<noteq> k" for j k
  proof (cases "k = i")
    case True
    then have "active_slot t' j" using h below i by (auto simp: nth_list_update)
    then show ?thesis using True h old [of j] i len by auto
  next
    case False
    show ?thesis
    proof (cases "j = i")
      case True
      then show ?thesis using old [OF h(1) False] i len by auto
    next
      case j: False
      then show ?thesis
        using start.IH False h i by (auto simp: table_ok_def nth_list_update)
    qed
  qed
  moreover have "livethreads t' = int (length (filter (\<lambda>a. a) (isThreadActive t')))"
    using start.IH f i by (auto simp: table_ok_def filter_update)
  ultimately show ?case using i len by (auto simp: table_ok_def)
next
  case (fini t k pin t')
  from ThreadFini_table [OF fini(4)] table_slot [OF fini.IH fini(2)] fini(3)
  have e: "isThreadActive t' = (isThreadActive t)[k := False]" "threadMapping t' = threadMapping t"
    "livethreads t' = livethreads t - 1" by auto
  with fini e show ?case
    by (auto simp: table_ok_def filter_update nth_list_update split: if_splits)
next
  case (other t t')
  then show ?case by (simp add: table_ok_def)
qed


text \<open>when every slot is in use, the start of one more thread writes outside the arrays before the code
  compares the number of live threads with the maximum.\<close>

theorem too_many_threads_undefined:
  assumes "\<not> mainLockForPintool t" "list_all id (isThreadActive t)"
  shows "ThreadStart I pin p c t = Some (Inl Undefined)"
proof -
  have "first_index Not (isThreadActive t) = None"
    using assms(2) by (simp add: first_index_None list_all_length)
  then show ?thesis
    using assms(1) by (simp add: ThreadStart_def PIN_MutexLock_def bindP_def modify_def getP_def stops_def)
qed

theorem too_many_threads_undefined_witness:
  "ThreadStart (std_ipc 2 9 (\<lambda>_. 0)) 11 70 71 demo_tool = Some (Inl Undefined)"
  by (rule too_many_threads_undefined) (simp_all add: demo_tool_def)

text \<open>the end of a thread clears \<open>threadAlive\<close> of its slot, its start has set that of its Pin id: a
  thread whose slot and id differ stays alive in that table, and the loop at the end of the simulation
  points finishes it again.\<close>

theorem ended_thread_stays_alive:
  assumes "ThreadFini I pin t = Some (Inr ((), t'))" "slot_of t pin = Some k" "k \<noteq> pin" "threadAlive t pin"
  shows "threadAlive t' pin"
  using ThreadFini_table [OF assms(1)] assms(2-4) by auto

theorem ended_thread_stays_alive_witness:
  "\<exists>t'. ThreadFini (std_ipc 2 9 (\<lambda>_. 0)) 9 (demo_tool\<lparr>threadAlive := (\<lambda>i. i = 9)\<rparr>) = Some (Inr ((), t'))
    \<and> threadAlive t' 9"
proof -
  let ?t = "demo_tool\<lparr>threadAlive := (\<lambda>i. i = 9)\<rparr>"
  obtain t' where t': "ThreadFini (std_ipc 2 9 (\<lambda>_. 0)) 9 ?t = Some (Inr ((), t'))"
  proof -
    have "\<exists>\<sigma>. sys_finish (sys_init (shm_of 0 2) 2) (Suc 0) 0 = (\<sigma>, 0)"
      by (simp add: sys_finish_def run_defs)
    then obtain \<sigma> where "sys_finish (sys_init (shm_of 0 2) 2) (Suc 0) 0 = (\<sigma>, 0)" by blast
    then have "until_sent (\<lambda>c. Some (op_onThread_finish (std_ipc 2 9 (\<lambda>_. 0)) c (Suc 0) 0))
        (PIN_Yield (std_ipc 2 9 (\<lambda>_. 0))) (sys_init (shm_of 0 2) 2) = Some (Inr \<sigma>)"
      by (subst until_sent.simps) (simp add: std_ipc_def shm_ipc_def)
    then show ?thesis
      by (intro that) (simp add: ThreadFini_def demo_tool_def PIN_MutexLock_def PIN_MutexUnlock_def bindP_def
        findThreadMapping_apply getP_def modify_def finish_thread_def lift_loop_def)
  qed
  show ?thesis
    using ended_thread_stays_alive [OF t', of 1] t' by (simp add: demo_tool_def)
qed


section \<open>The window of instructions\<close>

text \<open>The globals after \<open>printip\<close> has counted an instruction of slot \<open>k\<close>.\<close>

definition counted :: "nat \<Rightarrow> 'c tool \<Rightarrow> 'c tool" where
  "counted k t = t\<lparr>numCISC := (numCISC t)(k := numCISC t k + 1), totalNumCISC := totalNumCISC t + 1\<rparr>"

lemma lock_bind: "\<not> mainLockForPintool t \<Longrightarrow> bindP PIN_MutexLock f t = f () (t\<lparr>mainLockForPintool := True\<rparr>)"
  by (simp add: bindP_def PIN_MutexLock_def)

lemma slot_bind: "slot_of t pin = Some k \<Longrightarrow> bindP (findThreadMapping pin) f t = f k t"
  by (simp add: bindP_def findThreadMapping_apply)

lemma printip_nofile:
  assumes "\<not> mainLockForPintool t" "\<not> outOfROIPhase t" "slot_of t pin = Some k" "pinpointsFilename t = ''nofile''"
    "traceMethod t = SharedMemory" "\<not> subset_done (counted k t)"
  shows "printip I pin ip asm t =
    bindP (whenP (in_window (counted k t)) (send I k ip INSTRUCTION 1)) (\<lambda>_. PIN_MutexUnlock)
      ((counted k t)\<lparr>mainLockForPintool := True, instructionIgnorePhase := \<not> in_window (counted k t)\<rparr>)"
proof -
  let ?t = "t\<lparr>mainLockForPintool := True, numCISC := (numCISC t)(k := numCISC t k + 1), totalNumCISC := totalNumCISC t + 1\<rparr>"
  have w: "in_window ?t = in_window (counted k t)" "subset_done (?t\<lparr>instructionIgnorePhase := b\<rparr>) = subset_done (counted k t)" for b
    by (simp_all add: in_window_def subset_done_def counted_def)
  have f: "printip I pin ip asm t = bindP (subset_step I k) (\<lambda>_. bindP (getP (\<lambda>t. (instructionIgnorePhase t, traceMethod t)))
      (\<lambda>a. bindP (case a of (ign, m) \<Rightarrow> whenP (\<not> ign) (case m of SharedMemory \<Rightarrow> send I k (MASK AND ip) INSTRUCTION 1
         | File \<Rightarrow> send_assembly I k (MASK AND ip) ASSEMBLY asm)) (\<lambda>_. PIN_MutexUnlock))) ?t"
    using assms(1-4)
    by (simp add: printip_def bindP_getP slot_bind lock_bind bindP_modify bindP_assoc)
  have "subset_step I k ?t = Some (Inr ((), ?t\<lparr>instructionIgnorePhase := \<not> in_window (counted k t)\<rparr>))"
    using assms(6) w by (simp add: subset_step_def bindP_modify bindP_getP whenP_def ret_def)
  then have "printip I pin ip asm t = bindP (getP (\<lambda>t. (instructionIgnorePhase t, traceMethod t)))
      (\<lambda>a. bindP (case a of (ign, m) \<Rightarrow> whenP (\<not> ign) (case m of SharedMemory \<Rightarrow> send I k (MASK AND ip) INSTRUCTION 1
         | File \<Rightarrow> send_assembly I k (MASK AND ip) ASSEMBLY asm)) (\<lambda>_. PIN_MutexUnlock))
      (?t\<lparr>instructionIgnorePhase := \<not> in_window (counted k t)\<rparr>)"
    unfolding f by (simp add: bindP_def [of "subset_step I k"])
  moreover have "?t\<lparr>instructionIgnorePhase := b\<rparr> =
      (counted k t)\<lparr>mainLockForPintool := True, instructionIgnorePhase := b\<rparr>" for b
    by (rule tool.equality) (simp_all add: counted_def)
  ultimately show ?thesis using assms(5) by (simp add: bindP_getP counted_def)
qed


lemma demo_window: "in_window (counted 1 demo_tool)" "\<not> subset_done (counted 1 demo_tool)"
  by (simp_all add: in_window_def subset_done_def counted_def demo_tool_def word_le_nat_alt word_less_nat_alt)


text \<open>the window holds exactly \<open>numSim\<close> instructions, unless nothing is ignored: since the count starts at 1,
  with \<open>numIgn = 0\<close> one instruction less than asked for is simulated.\<close>

theorem window_holds_numSim:
  assumes "numInsToIgnore t = of_nat i" "numInsToSimulate t = of_nat s" "0 < s" "s < 2 ^ 63" "i + s < 2 ^ 64"
  shows "{c. 1 \<le> c \<and> c < 2 ^ 64 \<and> in_window (t\<lparr>totalNumCISC := of_nat c\<rparr>)} = {max 1 i..<i + s}
    \<and> card {c. 1 \<le> c \<and> c < 2 ^ 64 \<and> in_window (t\<lparr>totalNumCISC := of_nat c\<rparr>)} = (if i = 0 then s - 1 else s)"
proof -
  have s: "unat (of_nat s :: u64) = s" "unat (of_nat i :: u64) = i" "unat (of_nat (i + s) :: u64) = i + s"
    using assms by (intro unat_of_nat_small; simp)+
  have "sint (of_nat s :: u64) = int s"
    using assms(4) s(1) sint_small [of "of_nat s :: u64"] by simp
  then have w: "in_window (t\<lparr>totalNumCISC := of_nat c\<rparr>) \<longleftrightarrow> i \<le> c \<and> c < i + s" if "c < 2 ^ 64" for c
    using that s assms by (simp add: in_window_def word_le_nat_alt word_less_nat_alt unat_of_nat_small flip: of_nat_add)
  then have "{c. 1 \<le> c \<and> c < 2 ^ 64 \<and> in_window (t\<lparr>totalNumCISC := of_nat c\<rparr>)} = {max 1 i..<i + s}"
    using assms(5) by auto
  then show ?thesis by auto
qed

theorem window_holds_numSim_witness:
  "card {c. 1 \<le> c \<and> c < 2 ^ 64 \<and> in_window (demo_tool\<lparr>totalNumCISC := of_nat c\<rparr>)} = 2"
  using window_holds_numSim [of demo_tool 0 3] by (simp add: demo_tool_def)

section \<open>The end of the program\<close>

lemma until_sent_never:
  assumes "\<And>c r. call c = Some r \<Longrightarrow> \<exists>c'. r = Inr (c', -1)"
  shows "until_sent call y c = None"
proof -
  have "P" if "until_sent call y c = Some r" for r P
  proof -
    let ?P = "\<lambda>m (y :: 'a \<Rightarrow> 'a) (c :: 'a) (r :: stop + 'a). m = call \<longrightarrow> False"
    have "?P call y c r"
    proof (rule until_sent.raw_induct [where P = ?P, OF _ that], intro impI)
      fix f m and y :: "'a \<Rightarrow> 'a" and c r
      assume IH: "\<And>m y c r. f m y c = Some r \<Longrightarrow> ?P m y c r"
        and body: "(case m c of None \<Rightarrow> None | Some (Inl e) \<Rightarrow> Some (Inl e)
          | Some (Inr (c', r)) \<Rightarrow> if r = -1 then f m y (y c') else Some (Inr c')) = Some r"
        and m: "m = call"
      show False
      proof (cases "call c")
        case (Some q)
        from assms [OF Some] obtain c' where "q = Inr (c', -1)" by blast
        with Some body m have "f m y (y c') = Some r" by simp
        from IH [OF this] m show False by simp
      qed (use body m in simp)
    qed
    then show ?thesis by simp
  qed
  then show ?thesis by (metis not_None_eq)
qed

lemma finish_subset_never: "finish_subset (std_ipc n sp d) k x t = None"
proof -
  have "until_sent (\<lambda>c. op_onSubset_finish (std_ipc n sp d) c k x) y c = None" for y c
  proof (rule until_sent_never)
    fix \<sigma> r assume "op_onSubset_finish (std_ipc n sp d) \<sigma> k x = Some r"
    then obtain s q where s: "onSubset_finish (\<lambda>s. s) (emu \<sigma>) k x = Some (s, q)" "r = Inr (\<sigma>\<lparr>emu := s\<rparr>, q)"
      by (auto simp: std_ipc_def shm_ipc_def)
    have "send_forever (\<lambda>s. s) k 0 (enc SUBSETSIMCOMPLETE) x s' = None" for s'
      using send_forever_never by (metis not_Some_eq)
    then have "q = -1" using s(1) by (auto simp: onSubset_finish_def split: prod.splits bool.splits)
    then show "\<exists>c'. r = Inr (c', -1)" using s(2) by blast
  qed
  then show ?thesis by (simp add: finish_subset_def lift_loop_def)
qed

text \<open>C28: when the last instruction of the subset has been counted, \<open>printip\<close> does not return and the process does
  not end by itself: the code behind the loop around \<open>onSubset_finish\<close>, which sets \<open>isSubsetsimComplete\<close>,
  unloads the transport and exits, is never reached.\<close>

theorem subset_end_never_returns:
  assumes "\<not> mainLockForPintool t" "\<not> outOfROIPhase t" "slot_of t pin = Some k" "pinpointsFilename t = ''nofile''"
    "subset_done (counted k t)"
  shows "printip (std_ipc n sp d) pin ip asm t = None"
proof -
  let ?t = "t\<lparr>mainLockForPintool := True, numCISC := (numCISC t)(k := numCISC t k + 1), totalNumCISC := totalNumCISC t + 1\<rparr>"
  have w: "subset_done (?t\<lparr>instructionIgnorePhase := b\<rparr>)" for b
    using assms(5) by (simp add: subset_done_def counted_def)
  have "subset_step (std_ipc n sp d) k ?t = None"
    using w by (simp add: subset_step_def bindP_modify bindP_getP whenP_def bindP_def [of "finish_subset _ _ _"] finish_subset_never)
  then show ?thesis
    using assms(1-4)
    by (simp add: printip_def bindP_getP slot_bind lock_bind bindP_modify bindP_assoc bindP_def [of "subset_step _ _"])
qed

theorem subset_end_never_returns_witness:
  "printip (std_ipc 2 9 (\<lambda>_. 0)) 9 100 ''nop'' (demo_tool\<lparr>totalNumCISC := 2\<rparr>) = None"
  by (rule subset_end_never_returns) (simp_all add: demo_tool_def subset_done_def counted_def)


end
