(* ===== verification/Peterson.thy ===== *)
theory Peterson
  imports ShmQueue
begin

text \<open>
  The lock around the shared queue, one memory access per step.  The emulator's thread runs
  \<open>get_lock\<close>, the body of \<open>shmwrite\<close>, \<open>release_lock\<close> (\<open>shmem.cc\<close>); the simulator runs
  \<open>tejas_get_lock\<close>, the body of \<open>numPacketsAlternate\<close>, of \<open>shmreadMult\<close> or of
  \<open>tejasUpdateQueueSize\<close>, \<open>tejas_release_lock\<close> (\<open>JNIShm.c\<close>).  The two exclude each other with
  Peterson's algorithm on the cells \<open>COUNT + 1\<close> (the emulator's flag), \<open>COUNT + 2\<close> (the
  simulator's flag) and \<open>COUNT + 3\<close> (the turn).  A step is one process doing its next access; the
  full barriers the code puts between the accesses (\<open>__sync_synchronize\<close>) are what makes
  the interleaving of single accesses the right model.

  Reading the queue size, copying, reading the queue size again and storing it are separate steps: that
  no update of the queue size is lost is a consequence of the lock, not of the model.
\<close>

section \<open>State and steps\<close>

text \<open>Where the emulator's thread is.  \<open>P_turn\<close> and \<open>P_chk\<close> are the two reads of the busy-wait's
  condition; the numbers are \<open>numWrite\<close> and the value of \<open>queue_size\<close> read back.\<close>

datatype ppc =
    P_idle | P_flag | P_turn | P_chk
  | P_crit | P_copy nat | P_reread nat | P_store nat int | P_release

text \<open>What the simulator does next in its critical section, and where it is.\<close>

datatype cop = Count | Copy nat | Update nat

datatype cpc =
    C_idle cop | C_flag cop | C_turn cop | C_chk cop
  | C_crit cop | C_store nat int | C_release cop

record 'a machine =
  flag0 :: int
  flag1 :: int
  turn :: int
  queue_size :: int
  ring :: "nat \<Rightarrow> 'a"
  local_q :: "'a list"
  prod_at :: nat
  read_at :: nat
  ppc :: ppc
  cpc :: cpc
  sent :: "'a list"
  got :: "'a list"

text \<open>The emulator's thread.  \<open>sent\<close> is a history variable: all packets copied to the ring.\<close>

inductive pstep :: "'a machine \<Rightarrow> 'a machine \<Rightarrow> bool" where
  p_log: "ppc s = P_idle \<Longrightarrow> length (local_q s) < locQ \<Longrightarrow>
    pstep s (s\<lparr>local_q := local_q s @ [x]\<rparr>)"
| p_flag: "ppc s = P_idle \<Longrightarrow> pstep s (s\<lparr>flag0 := 1, ppc := P_flag\<rparr>)"
| p_turn: "ppc s = P_flag \<Longrightarrow> pstep s (s\<lparr>turn := 1, ppc := P_turn\<rparr>)"
| p_read_flag: "ppc s = P_turn \<Longrightarrow>
    pstep s (s\<lparr>ppc := (if flag1 s = 1 then P_chk else P_crit)\<rparr>)"
| p_read_turn: "ppc s = P_chk \<Longrightarrow>
    pstep s (s\<lparr>ppc := (if turn s = 1 then P_turn else P_crit)\<rparr>)"
| p_room: "ppc s = P_crit \<Longrightarrow> n = int COUNT - queue_size s \<Longrightarrow>
    pstep s (s\<lparr>ppc := (if n = 0 then P_release
                       else P_copy (nat (min n (int (length (local_q s))))))\<rparr>)"
| p_copy: "ppc s = P_copy k \<Longrightarrow>
    pstep s (s\<lparr>ring := ring_write COUNT (ring s) (prod_at s) (take k (local_q s)),
              local_q := drop k (local_q s), prod_at := (prod_at s + k) mod COUNT,
              sent := sent s @ take k (local_q s), ppc := P_reread k\<rparr>)"
| p_reread: "ppc s = P_reread k \<Longrightarrow> pstep s (s\<lparr>ppc := P_store k (queue_size s)\<rparr>)"
| p_store: "ppc s = P_store k q \<Longrightarrow>
    pstep s (s\<lparr>queue_size := q + int k, ppc := P_release\<rparr>)"
| p_release: "ppc s = P_release \<Longrightarrow> pstep s (s\<lparr>flag0 := 0, ppc := P_idle\<rparr>)"

text \<open>The simulator.  A round that counted \<open>n > 0\<close> packets reads some \<open>m\<close> of them (as many as
  fit in its own queue) and then subtracts \<open>m\<close>.\<close>

inductive cstep :: "'a machine \<Rightarrow> 'a machine \<Rightarrow> bool" where
  c_flag: "cpc s = C_idle c \<Longrightarrow> cstep s (s\<lparr>flag1 := 1, cpc := C_flag c\<rparr>)"
| c_turn: "cpc s = C_flag c \<Longrightarrow> cstep s (s\<lparr>turn := 0, cpc := C_turn c\<rparr>)"
| c_read_flag: "cpc s = C_turn c \<Longrightarrow>
    cstep s (s\<lparr>cpc := (if flag0 s = 1 then C_chk c else C_crit c)\<rparr>)"
| c_read_turn: "cpc s = C_chk c \<Longrightarrow>
    cstep s (s\<lparr>cpc := (if turn s = 0 then C_turn c else C_crit c)\<rparr>)"
| c_count_none: "cpc s = C_crit Count \<Longrightarrow> cstep s (s\<lparr>cpc := C_release Count\<rparr>)"
| c_count: "cpc s = C_crit Count \<Longrightarrow> 0 < m \<Longrightarrow> int m \<le> queue_size s \<Longrightarrow>
    cstep s (s\<lparr>cpc := C_release (Copy m)\<rparr>)"
| c_copy: "cpc s = C_crit (Copy m) \<Longrightarrow>
    cstep s (s\<lparr>got := got s @ ring_read COUNT (ring s) (read_at s) m,
              read_at := (read_at s + m) mod COUNT, cpc := C_release (Update m)\<rparr>)"
| c_reread: "cpc s = C_crit (Update m) \<Longrightarrow> cstep s (s\<lparr>cpc := C_store m (queue_size s)\<rparr>)"
| c_store: "cpc s = C_store m q \<Longrightarrow>
    cstep s (s\<lparr>queue_size := q - int m, cpc := C_release Count\<rparr>)"
| c_release: "cpc s = C_release c \<Longrightarrow> cstep s (s\<lparr>flag1 := 0, cpc := C_idle c\<rparr>)"

definition machine_step :: "'a machine \<Rightarrow> 'a machine \<Rightarrow> bool" where
  "machine_step s s' \<longleftrightarrow> pstep s s' \<or> cstep s s'"

definition machine_init :: "(nat \<Rightarrow> 'a) \<Rightarrow> int \<Rightarrow> 'a machine" where
  "machine_init r t = \<lparr>flag0 = 0, flag1 = 0, turn = t, queue_size = 0, ring = r, local_q = [],
     prod_at = 0, read_at = 0, ppc = P_idle, cpc = C_idle Count, sent = [], got = []\<rparr>"

inductive reachable :: "'a machine \<Rightarrow> bool" where
  start: "reachable (machine_init r t)"
| step: "reachable s \<Longrightarrow> machine_step s s' \<Longrightarrow> reachable s'"

section \<open>Mutual exclusion\<close>

fun p_in :: "ppc \<Rightarrow> bool" where
  "p_in P_crit = True" | "p_in (P_copy k) = True" | "p_in (P_reread k) = True"
| "p_in (P_store k q) = True" | "p_in P_release = True" | "p_in pc = False"

fun p_past :: "ppc \<Rightarrow> bool" where
  "p_past P_turn = True" | "p_past P_chk = True" | "p_past pc = p_in pc"

fun c_in :: "cpc \<Rightarrow> bool" where
  "c_in (C_crit c) = True" | "c_in (C_store m q) = True" | "c_in (C_release c) = True"
| "c_in pc = False"

fun c_past :: "cpc \<Rightarrow> bool" where
  "c_past (C_turn c) = True" | "c_past (C_chk c) = True" | "c_past pc = c_in pc"

fun c_is_idle :: "cpc \<Rightarrow> bool" where
  "c_is_idle (C_idle c) = True" | "c_is_idle pc = False"

lemma p_in_past: "p_in pc \<Longrightarrow> p_past pc" by (cases pc) simp_all
lemma c_in_past: "c_in pc \<Longrightarrow> c_past pc" by (cases pc) simp_all
lemma c_idle_out: "c_is_idle pc \<Longrightarrow> \<not> c_past pc" by (cases pc) simp_all

text \<open>Each flag says whether its owner is outside; who is inside while the other has passed its
  store of the turn knows the turn.\<close>

definition lock_inv :: "'a machine \<Rightarrow> bool" where
  "lock_inv s \<longleftrightarrow> flag0 s = (if ppc s = P_idle then 0 else 1)
     \<and> flag1 s = (if c_is_idle (cpc s) then 0 else 1)
     \<and> (p_past (ppc s) \<or> c_past (cpc s) \<longrightarrow> turn s = 0 \<or> turn s = 1)
     \<and> (p_in (ppc s) \<and> c_past (cpc s) \<longrightarrow> turn s = 0)
     \<and> (c_in (cpc s) \<and> p_past (ppc s) \<longrightarrow> turn s = 1)"

lemma pstep_lock_inv: "pstep s s' \<Longrightarrow> lock_inv s \<Longrightarrow> lock_inv s'"
  by (induction rule: pstep.induct) (auto simp: lock_inv_def dest: c_in_past c_idle_out split: if_splits)

lemma cstep_lock_inv: "cstep s s' \<Longrightarrow> lock_inv s \<Longrightarrow> lock_inv s'"
  by (induction rule: cstep.induct) (auto simp: lock_inv_def dest: p_in_past split: if_splits)

lemma reachable_lock_inv: "reachable s \<Longrightarrow> lock_inv s"
proof (induction rule: reachable.induct)
  case (start r t)
  show ?case by (simp add: lock_inv_def machine_init_def)
next
  case (step s s')
  then show ?case
    by (auto simp: machine_step_def intro: pstep_lock_inv cstep_lock_inv)
qed

section \<open>No update of the queue size is lost\<close>

text \<open>Packets copied to the ring but not yet counted, packets read but not yet subtracted, and
  packets the simulator has decided to read.\<close>

fun p_pending :: "ppc \<Rightarrow> nat" where
  "p_pending (P_reread k) = k" | "p_pending (P_store k q) = k" | "p_pending pc = 0"

fun op_pending :: "cop \<Rightarrow> nat" where
  "op_pending (Update m) = m" | "op_pending c = 0"

fun op_wanted :: "cop \<Rightarrow> nat" where
  "op_wanted (Copy m) = m" | "op_wanted c = 0"

fun c_op :: "cpc \<Rightarrow> cop" where
  "c_op (C_idle c) = c" | "c_op (C_flag c) = c" | "c_op (C_turn c) = c" | "c_op (C_chk c) = c"
| "c_op (C_crit c) = c" | "c_op (C_release c) = c" | "c_op (C_store m q) = Update m"

abbreviation c_pending :: "cpc \<Rightarrow> nat" where "c_pending pc \<equiv> op_pending (c_op pc)"
abbreviation c_wanted :: "cpc \<Rightarrow> nat" where "c_wanted pc \<equiv> op_wanted (c_op pc)"

definition count_inv :: "'a machine \<Rightarrow> bool" where
  "count_inv s \<longleftrightarrow>
     queue_size s + int (p_pending (ppc s)) + int (length (got s)) =
       int (length (sent s)) + int (c_pending (cpc s))
     \<and> queue_size s + int (p_pending (ppc s)) \<le> int COUNT
     \<and> int (c_pending (cpc s)) \<le> queue_size s \<and> int (c_wanted (cpc s)) \<le> queue_size s
     \<and> (\<forall>k. ppc s = P_copy k \<longrightarrow> k \<le> length (local_q s) \<and> queue_size s + int k \<le> int COUNT)
     \<and> (\<forall>k q. ppc s = P_store k q \<longrightarrow> q = queue_size s)
     \<and> (\<forall>m q. cpc s = C_store m q \<longrightarrow> q = queue_size s)"

lemma excluded: "lock_inv s \<Longrightarrow> p_in (ppc s) \<Longrightarrow> \<not> c_in (cpc s)"
  by (auto simp: lock_inv_def dest: p_in_past c_in_past)

lemma wanted_or_pending: "op_wanted c = 0 \<or> op_pending c = 0"
  by (cases c) simp_all

lemma length_take_local:
  "count_inv s \<Longrightarrow> ppc s = P_copy k \<Longrightarrow> length (take k (local_q s)) = k"
  by (simp add: count_inv_def)

lemma pstep_count_inv:
  assumes "pstep s s'" "lock_inv s" "count_inv s"
  shows "count_inv s'"
  using assms
proof (induction rule: pstep.induct)
  case (p_store s k q)
  then have "\<not> c_in (cpc s)" using excluded [of s] by simp
  then have "cpc s \<noteq> C_store m q'" for m q' by auto
  with p_store show ?case by (auto simp: count_inv_def)
qed (auto simp: count_inv_def split: if_splits)

lemma cstep_count_inv:
  assumes "cstep s s'" "lock_inv s" "count_inv s"
  shows "count_inv s'"
  using assms
proof (induction rule: cstep.induct)
  case (c_store s m q)
  then have "\<not> p_in (ppc s)" using excluded [of s] by auto
  then have "ppc s \<noteq> P_store k q'" "ppc s \<noteq> P_copy k" "p_pending (ppc s) = 0" for k q'
    by (cases "ppc s"; auto)+
  with c_store show ?case by (auto simp: count_inv_def)
qed (auto simp: count_inv_def split: if_splits)

text \<open>The ring between the two indices holds what was sent and not yet read.\<close>

definition fifo_inv :: "'a machine \<Rightarrow> bool" where
  "fifo_inv s \<longleftrightarrow> prod_at s = length (sent s) mod COUNT \<and> read_at s = length (got s) mod COUNT
     \<and> sent s = got s @ ring_read COUNT (ring s) (read_at s) (length (sent s) - length (got s))"

lemma fifo_invD:
  assumes "fifo_inv s"
  shows "prod_at s = length (sent s) mod COUNT" "read_at s = length (got s) mod COUNT"
    and "got s @ ring_read COUNT (ring s) (read_at s) (length (sent s) - length (got s)) = sent s"
  using assms unfolding fifo_inv_def by metis+

lemma sent_ge_got: "count_inv s \<Longrightarrow> length (got s) \<le> length (sent s)
    \<and> length (sent s) - length (got s) + c_pending (cpc s) = nat (queue_size s) + p_pending (ppc s)"
  using wanted_or_pending [of "c_op (cpc s)"] by (auto simp: count_inv_def)

lemma pstep_fifo_inv:
  assumes "pstep s s'" "count_inv s" "fifo_inv s"
  shows "fifo_inv s'"
  using assms
proof (induction rule: pstep.induct)
  case (p_copy s k)
  let ?l = "length (sent s) - length (got s)"
  from p_copy sent_ge_got [of s] have l: "length (got s) \<le> length (sent s)" "?l + k \<le> COUNT"
    by (auto simp: count_inv_def)
  have k: "length (take k (local_q s)) = k" using p_copy by (intro length_take_local)
  note f = fifo_invD [OF \<open>fifo_inv s\<close>]
  note w = f(3)
  have "(length (got s) mod COUNT + ?l) mod COUNT = length (sent s) mod COUNT"
    using l(1) by (subst mod_add_left_eq) simp
  then have "prod_at s mod COUNT = (read_at s + ?l) mod COUNT" by (simp add: f(1,2))
  then have "ring_write COUNT (ring s) (prod_at s) (take k (local_q s))
      = ring_write COUNT (ring s) (read_at s + ?l) (take k (local_q s))"
    by (metis ring_write_mod_start)
  then have r: "ring_read COUNT (ring_write COUNT (ring s) (prod_at s) (take k (local_q s))) (read_at s) (?l + k)
      = ring_read COUNT (ring s) (read_at s) ?l @ take k (local_q s)"
    using ring_read_write [of ?l "take k (local_q s)" COUNT "ring s" "read_at s"] l k by simp
  have n: "length (sent s @ take k (local_q s)) - length (got s) = ?l + k" using l k by simp
  have "sent s @ take k (local_q s) = got s @ ring_read COUNT (ring_write COUNT (ring s) (prod_at s)
      (take k (local_q s))) (read_at s) (length (sent s @ take k (local_q s)) - length (got s))"
    unfolding n r using w by (metis append_assoc)
  moreover have "(prod_at s + k) mod COUNT = length (sent s @ take k (local_q s)) mod COUNT"
    using k by (simp add: f(1,2) mod_simps)
  ultimately show ?case
    using f(2) by (simp only: fifo_inv_def) simp
qed (auto simp: fifo_inv_def)

lemma cstep_fifo_inv:
  assumes "cstep s s'" "count_inv s" "fifo_inv s"
  shows "fifo_inv s'"
  using assms
proof (induction rule: cstep.induct)
  case (c_copy s m)
  let ?l = "length (sent s) - length (got s)"
  from c_copy sent_ge_got [of s] have l: "length (got s) \<le> length (sent s)" "m \<le> ?l"
    by (auto simp: count_inv_def)
  note f = fifo_invD [OF \<open>fifo_inv s\<close>]
  note w = f(3)
  define r where "r = (read_at s + m) mod COUNT"
  have "ring_read COUNT (ring s) (read_at s) ?l
      = ring_read COUNT (ring s) (read_at s) m @ ring_read COUNT (ring s) (read_at s + m) (?l - m)"
    by (metis le_add_diff_inverse l(2) ring_read_add)
  moreover have "length (sent s) - length (got s @ ring_read COUNT (ring s) (read_at s) m) = ?l - m"
    by simp
  ultimately have "sent s = (got s @ ring_read COUNT (ring s) (read_at s) m) @ ring_read COUNT (ring s) r
      (length (sent s) - length (got s @ ring_read COUNT (ring s) (read_at s) m))"
    using w unfolding r_def by (metis append_assoc ring_read_mod_start)
  moreover have "r = length (got s @ ring_read COUNT (ring s) (read_at s) m) mod COUNT"
    by (simp add: r_def f(1,2) mod_simps)
  ultimately show ?case
    using f(1) by (simp only: fifo_inv_def) (simp add: r_def)
qed (auto simp: fifo_inv_def)

lemma reachable_inv:
  "reachable s \<Longrightarrow> lock_inv s \<and> count_inv s \<and> fifo_inv s"
proof (induction rule: reachable.induct)
  case (start r t)
  show ?case by (simp add: lock_inv_def count_inv_def fifo_inv_def machine_init_def)
next
  case (step s s')
  then show ?case
    unfolding machine_step_def
    using pstep_lock_inv pstep_count_inv pstep_fifo_inv cstep_lock_inv cstep_count_inv cstep_fifo_inv
    by blast
qed

section \<open>Schedules\<close>

text \<open>A schedule names who moves; it makes the step relation executable on a given interleaving.\<close>

datatype 'a move = Log 'a | P | C nat

fun p_next :: "'a machine \<Rightarrow> 'a machine" where
  "p_next s = (case ppc s of
     P_idle \<Rightarrow> s\<lparr>flag0 := 1, ppc := P_flag\<rparr>
   | P_flag \<Rightarrow> s\<lparr>turn := 1, ppc := P_turn\<rparr>
   | P_turn \<Rightarrow> s\<lparr>ppc := (if flag1 s = 1 then P_chk else P_crit)\<rparr>
   | P_chk \<Rightarrow> s\<lparr>ppc := (if turn s = 1 then P_turn else P_crit)\<rparr>
   | P_crit \<Rightarrow> s\<lparr>ppc := (if int COUNT - queue_size s = 0 then P_release
        else P_copy (nat (min (int COUNT - queue_size s) (int (length (local_q s))))))\<rparr>
   | P_copy k \<Rightarrow> s\<lparr>ring := ring_write COUNT (ring s) (prod_at s) (take k (local_q s)),
        local_q := drop k (local_q s), prod_at := (prod_at s + k) mod COUNT,
        sent := sent s @ take k (local_q s), ppc := P_reread k\<rparr>
   | P_reread k \<Rightarrow> s\<lparr>ppc := P_store k (queue_size s)\<rparr>
   | P_store k q \<Rightarrow> s\<lparr>queue_size := q + int k, ppc := P_release\<rparr>
   | P_release \<Rightarrow> s\<lparr>flag0 := 0, ppc := P_idle\<rparr>)"

fun c_next :: "nat \<Rightarrow> 'a machine \<Rightarrow> 'a machine" where
  "c_next m s = (case cpc s of
     C_idle c \<Rightarrow> s\<lparr>flag1 := 1, cpc := C_flag c\<rparr>
   | C_flag c \<Rightarrow> s\<lparr>turn := 0, cpc := C_turn c\<rparr>
   | C_turn c \<Rightarrow> s\<lparr>cpc := (if flag0 s = 1 then C_chk c else C_crit c)\<rparr>
   | C_chk c \<Rightarrow> s\<lparr>cpc := (if turn s = 0 then C_turn c else C_crit c)\<rparr>
   | C_crit Count \<Rightarrow> s\<lparr>cpc := C_release (if 0 < m \<and> int m \<le> queue_size s then Copy m else Count)\<rparr>
   | C_crit (Copy k) \<Rightarrow> s\<lparr>got := got s @ ring_read COUNT (ring s) (read_at s) k,
        read_at := (read_at s + k) mod COUNT, cpc := C_release (Update k)\<rparr>
   | C_crit (Update k) \<Rightarrow> s\<lparr>cpc := C_store k (queue_size s)\<rparr>
   | C_store k q \<Rightarrow> s\<lparr>queue_size := q - int k, cpc := C_release Count\<rparr>
   | C_release c \<Rightarrow> s\<lparr>flag1 := 0, cpc := C_idle c\<rparr>)"

fun make_move :: "'a move \<Rightarrow> 'a machine \<Rightarrow> 'a machine" where
  "make_move (Log x) s =
     (if ppc s = P_idle \<and> length (local_q s) < locQ then s\<lparr>local_q := local_q s @ [x]\<rparr> else p_next s)"
| "make_move P s = p_next s"
| "make_move (C m) s = c_next m s"

definition schedule :: "'a move list \<Rightarrow> 'a machine \<Rightarrow> 'a machine" where
  "schedule ms s = fold make_move ms s"

lemma pstep_p_next: "pstep s (p_next s)"
  using pstep.intros [of s] by (cases "ppc s") (simp_all del: p_next.simps add: p_next.simps [of s] min_def)

lemma cstep_c_next: "cstep s (c_next m s)"
proof (cases "cpc s")
  case (C_crit c)
  then show ?thesis using cstep.intros [of s] by (cases c) auto
qed (use cstep.intros [of s] in \<open>simp_all\<close>)

lemma make_move_step: "machine_step s (make_move x s)"
proof (cases x)
  case (Log y)
  then show ?thesis using p_log [of s y] pstep_p_next [of s] by (auto simp: machine_step_def simp del: p_next.simps)
qed (use pstep_p_next cstep_c_next in \<open>auto simp: machine_step_def simp del: p_next.simps c_next.simps\<close>)

lemma reachable_schedule: "reachable s \<Longrightarrow> reachable (schedule ms s)"
  unfolding schedule_def by (induction ms arbitrary: s) (auto intro: reachable.step make_move_step)

lemmas reachable_by = reachable_schedule [OF reachable.start]

section \<open>What the lock guarantees\<close>

text \<open>Whoever waits for the lock is at one of the two reads of its busy-wait.\<close>

fun p_waits :: "ppc \<Rightarrow> bool" where
  "p_waits P_turn = True" | "p_waits P_chk = True" | "p_waits pc = False"

fun c_waits :: "cpc \<Rightarrow> bool" where
  "c_waits (C_turn c) = True" | "c_waits (C_chk c) = True" | "c_waits pc = False"

lemma p_waits_past: "p_waits pc \<Longrightarrow> p_past pc" by (cases pc) simp_all
lemma c_waits_past: "c_waits pc \<Longrightarrow> c_past pc" by (cases pc) simp_all

text \<open>C2: at no moment are both the emulator's thread and the simulator between \<open>get_lock\<close> and
  \<open>release_lock\<close>, whatever the interleaving of their single memory accesses.\<close>

theorem lock_mutual_exclusion: "reachable s \<Longrightarrow> \<not> (p_in (ppc s) \<and> c_in (cpc s))"
  using reachable_lock_inv excluded by blast

text \<open>Both try at the same time, and the one whose store of the turn came first enters.\<close>

definition contended :: "nat machine" where
  "contended = schedule [P, C 0, P, C 0, C 0, C 0, P] (machine_init (\<lambda>_. 0) 0)"

theorem lock_mutual_exclusion_witness:
  "\<not> (p_in (ppc contended) \<and> c_in (cpc contended))"
  unfolding contended_def by (rule lock_mutual_exclusion [OF reachable_by])



text \<open>C22: the lock does not deadlock: when both sides wait for it, one of them enters by its own
  next steps, with the other one standing still.\<close>

theorem lock_no_deadlock:
  assumes "reachable s" "p_waits (ppc s)" "c_waits (cpc s)"
  shows "p_in (ppc (p_next (p_next s))) \<or> c_in (cpc (c_next m (c_next m s)))"
proof -
  have inv: "lock_inv s" by (rule reachable_lock_inv [OF assms(1)])
  then have "turn s = 0 \<or> turn s = 1"
    using assms by (auto simp: lock_inv_def dest: p_waits_past)
  moreover have "p_in (ppc (p_next (p_next s)))" if "turn s = 0"
    using assms(2) that by (cases "ppc s") auto
  moreover have "c_in (cpc (c_next m (c_next m s)))" if "turn s = 1"
    using assms(3) that by (cases "cpc s") (auto split: cop.splits)
  ultimately show ?thesis by blast
qed


text \<open>Both have stored the turn, the simulator last.\<close>

definition both_wait :: "nat machine" where
  "both_wait = schedule [P, P, C 0, C 0] (machine_init (\<lambda>_. 0) 0)"

lemma both_wait_state:
  "reachable both_wait" "p_waits (ppc both_wait)" "c_waits (cpc both_wait)" "turn both_wait = 0"
  unfolding both_wait_def by (rule reachable_by) (simp_all add: schedule_def machine_init_def)

theorem lock_no_deadlock_witness:
  "p_in (ppc (p_next (p_next both_wait))) \<or> c_in (cpc (c_next 0 (c_next 0 both_wait)))"
  by (rule lock_no_deadlock [OF both_wait_state(1-3)])


section \<open>Restarting a slot\<close>

text \<open>
  \<open>onThread_start\<close> clears the queue size and \<^emph>\<open>both\<close> flags, without taking the lock (its
  \<open>get_lock\<close> is commented out).  While both sides are outside this is the initial state of the lock
  again; but the simulator polls the slots all the time, and a thread that starts while the simulator is
  in its critical section lets the emulator in as well.
\<close>

definition restart :: "'a machine \<Rightarrow> 'a machine" where
  "restart s = s\<lparr>queue_size := 0, flag0 := 0, flag1 := 0\<rparr>"

text \<open>a thread started while both sides are outside the lock and everything sent has been read
  leaves a state in which all invariants hold.\<close>

theorem quiet_thread_start_safe:
  assumes "reachable s" "ppc s = P_idle" "cpc s = C_idle Count" "sent s = got s"
  shows "lock_inv (restart s) \<and> count_inv (restart s) \<and> fifo_inv (restart s)"
  using reachable_inv [OF assms(1)] assms(2-4)
  by (auto simp: lock_inv_def count_inv_def fifo_inv_def restart_def)

theorem quiet_thread_start_safe_witness:
  "let s = machine_init (\<lambda>_. 0 :: nat) 0
   in lock_inv (restart s) \<and> count_inv (restart s) \<and> fifo_inv (restart s)"
  unfolding Let_def
  by (rule quiet_thread_start_safe [OF reachable.start]) (simp_all add: machine_init_def)

text \<open>C29: a thread started while the simulator is inside the lock breaks mutual exclusion: there is
  a reachable state from which the restart and three steps of the emulator put both inside.\<close>

theorem thread_start_breaks_exclusion:
  "\<exists>s :: nat machine. reachable s \<and> ppc s = P_idle \<and>
     (let s' = schedule [P, P, P] (restart s) in p_in (ppc s') \<and> c_in (cpc s'))"
proof (intro exI conjI)
  let ?s = "schedule [C 0, C 0, C 0] (machine_init (\<lambda>_. 0 :: nat) 0)"
  show "reachable ?s" by (rule reachable_by)
  show "ppc ?s = P_idle" by (simp add: schedule_def machine_init_def)
  show "let s' = schedule [P, P, P] (restart ?s) in p_in (ppc s') \<and> c_in (cpc s')"
    by (simp add: schedule_def machine_init_def restart_def)
qed

end
