(* ===== verification/LockRefinement.thy ===== *)
theory LockRefinement
  imports Peterson Channel
begin

text \<open>
  The two models of the shared queue fit together.  Theory \<open>ShmQueue\<close> takes a critical section as one
  step and shows it to be an operation of the abstract channel \<open>chan\<close>; theory \<open>Peterson\<close> takes every
  memory access as a step.  Here the second refines the same abstract channel: \<open>chan_view\<close> is a refinement
  mapping under which every access of either side, in any interleaving, changes nothing or is
  \<open>spec_push\<close>, \<open>spec_flush\<close> or \<open>spec_fetch\<close>.  A flush takes effect when the packets are copied, a fetch
  when the simulator stores the new queue size.
\<close>

section \<open>The abstract system\<close>

text \<open>The channel and what the simulator has taken from it.\<close>

type_synonym chan_state = "chan \<times> packet list"

inductive chan_step :: "chan_state \<Rightarrow> chan_state \<Rightarrow> bool" where
  log_packet: "length (ch_local c) < locQ \<Longrightarrow> chan_step (c, d) (spec_push p c, d)"
| flush_packets: "spec_flush c = (c', 0) \<Longrightarrow> chan_step (c, d) (c', d)"
| fetch_packets: "spec_fetch space c = (c', ps) \<Longrightarrow> chan_step (c, d) (c', d @ ps)"

text \<open>The rules for states that are not written as pairs.\<close>

lemma flush_step: "spec_flush (fst v) = (fst v', 0) \<Longrightarrow> snd v' = snd v \<Longrightarrow> chan_step v v'"
  by (cases v; cases v') (simp add: chan_step.flush_packets)

lemma fetch_step: "spec_fetch space (fst v) = (fst v', ps) \<Longrightarrow> snd v' = snd v @ ps \<Longrightarrow> chan_step v v'"
  by (cases v; cases v') (simp add: chan_step.fetch_packets)

definition chan_init :: chan_state where
  "chan_init = (\<lparr>ch_done = False, ch_local = [], ch_shared = [], ch_total = 0, ch_sum = 0\<rparr>, [])"

section \<open>The refinement mapping\<close>

text \<open>Packets read but not yet subtracted from the queue size still count as queued.\<close>

definition fetched :: "packet machine \<Rightarrow> nat" where
  "fetched s = length (got s) - c_pending (cpc s)"

definition chan_view :: "packet machine \<Rightarrow> chan_state" where
  "chan_view s = (\<lparr>ch_done = False, ch_local = local_q s, ch_shared = drop (fetched s) (sent s),
      ch_total = of_nat (length (sent s)), ch_sum = sum_list (map pk_value (sent s))\<rparr>,
    take (fetched s) (sent s))"

text \<open>The number the emulator decided to copy is still the right one when it copies.\<close>

definition copy_exact :: "'a machine \<Rightarrow> bool" where
  "copy_exact s \<longleftrightarrow> (\<forall>k. ppc s = P_copy k \<longrightarrow>
     queue_size s \<noteq> int COUNT \<and> k = nat (min (int COUNT - queue_size s) (int (length (local_q s)))))"

lemma pstep_copy_exact: "pstep s s' \<Longrightarrow> copy_exact s \<Longrightarrow> copy_exact s'"
  by (induction rule: pstep.induct) (auto simp: copy_exact_def split: if_splits)

lemma cstep_copy_exact: "cstep s s' \<Longrightarrow> lock_inv s \<Longrightarrow> copy_exact s \<Longrightarrow> copy_exact s'"
  by (induction rule: cstep.induct) (auto simp: copy_exact_def dest: excluded split: if_splits)

lemma reachable_copy_exact: "reachable s \<Longrightarrow> copy_exact s"
proof (induction rule: reachable.induct)
  case (start r t)
  show ?case by (simp add: copy_exact_def machine_init_def)
next
  case (step s s')
  then show ?case
    using reachable_inv [OF step.hyps(1)] pstep_copy_exact cstep_copy_exact by (auto simp: machine_step_def)
qed

text \<open>What was read and not subtracted was read.\<close>

definition pending_read :: "'a machine \<Rightarrow> bool" where
  "pending_read s \<longleftrightarrow> c_pending (cpc s) \<le> length (got s)"

lemma pstep_pending_read: "pstep s s' \<Longrightarrow> pending_read s \<Longrightarrow> pending_read s'"
  by (induction rule: pstep.induct) (auto simp: pending_read_def)

lemma cstep_pending_read: "cstep s s' \<Longrightarrow> pending_read s \<Longrightarrow> pending_read s'"
  by (induction rule: cstep.induct) (auto simp: pending_read_def)

lemma reachable_pending_read: "reachable s \<Longrightarrow> pending_read s"
  by (induction rule: reachable.induct)
    (auto simp: machine_step_def pending_read_def machine_init_def dest: pstep_pending_read cstep_pending_read)

lemma reachable_facts:
  assumes "reachable s"
  shows "lock_inv s" "count_inv s" "fifo_inv s" "copy_exact s" "pending_read s"
  using reachable_inv [OF assms] reachable_copy_exact [OF assms] reachable_pending_read [OF assms] by auto

lemma queued_length:
  assumes "count_inv s" "pending_read s"
  shows "fetched s \<le> length (sent s)"
    and "int (length (drop (fetched s) (sent s))) = queue_size s + int (p_pending (ppc s))"
  using assms unfolding count_inv_def pending_read_def fetched_def by auto

section \<open>Every access is an operation of the channel or none\<close>

lemma pstep_refines:
  assumes "pstep s s'" "count_inv s" "copy_exact s" "pending_read s"
  shows "chan_view s' = chan_view s \<or> chan_step (chan_view s) (chan_view s')"
  using assms
proof (induction rule: pstep.induct)
  case (p_log s x)
  then have "chan_view (s\<lparr>local_q := local_q s @ [x]\<rparr>) = (spec_push x (fst (chan_view s)), snd (chan_view s))"
    by (simp add: chan_view_def spec_push_def fetched_def)
  with p_log chan_step.log_packet [of "fst (chan_view s)" "snd (chan_view s)" x] show ?case
    by (simp add: chan_view_def)
next
  case (p_copy s k)
  let ?s' = "s\<lparr>ring := ring_write COUNT (ring s) (prod_at s) (take k (local_q s)),
              local_q := drop k (local_q s), prod_at := (prod_at s + k) mod COUNT,
              sent := sent s @ take k (local_q s), ppc := P_reread k\<rparr>"
  note q = queued_length [OF p_copy(2,4)]
  have n: "length (sent s) - fetched s \<noteq> COUNT" "k = min (COUNT - (length (sent s) - fetched s)) (length (local_q s))"
    using p_copy q by (auto simp: copy_exact_def)
  have "length (take k (local_q s)) = k" using length_take_local p_copy by blast
  then have "spec_flush (fst (chan_view s)) = (fst (chan_view ?s'), 0)" and "snd (chan_view ?s') = snd (chan_view s)"
    using n q(1) by (simp_all add: chan_view_def spec_flush_def fetched_def Let_def)
  then show ?case by (intro disjI2 flush_step)
qed (simp_all add: chan_view_def fetched_def)

lemma cstep_refines:
  assumes "cstep s s'" "count_inv s" "fifo_inv s" "pending_read s"
  shows "chan_view s' = chan_view s \<or> chan_step (chan_view s) (chan_view s')"
  using assms
proof (induction rule: cstep.induct)
  case (c_store s m q)
  let ?s' = "s\<lparr>queue_size := q - int m, cpc := C_release Count\<rparr>"
  note l = queued_length [OF c_store(2,4)]
  have m: "m \<le> length (got s)" "fetched s = length (got s) - m" "fetched ?s' = length (got s)"
    using c_store by (simp_all add: pending_read_def fetched_def)
  have "m \<le> length (sent s) - fetched s" using c_store l by (auto simp: count_inv_def)
  then have "spec_fetch (int m) (fst (chan_view s)) = (fst (chan_view ?s'), take m (drop (fetched s) (sent s)))"
    and "snd (chan_view ?s') = snd (chan_view s) @ take m (drop (fetched s) (sent s))"
    using m by (simp_all add: chan_view_def spec_fetch_def Let_def min_def add.commute take_add [symmetric])
  then show ?case by (intro disjI2 fetch_step)
next
  case (c_copy s m)
  then show ?case by (simp add: chan_view_def fetched_def)
qed (simp_all add: chan_view_def fetched_def)

lemma machine_refines:
  assumes "reachable s" "machine_step s s'"
  shows "chan_view s' = chan_view s \<or> chan_step (chan_view s) (chan_view s')"
  using assms(2) pstep_refines cstep_refines reachable_facts [OF assms(1)] by (auto simp: machine_step_def)

lemma chan_view_init: "chan_view (machine_init r t) = chan_init"
  by (simp add: chan_view_def chan_init_def machine_init_def fetched_def)

lemma reachable_view: "reachable s \<Longrightarrow> chan_step\<^sup>*\<^sup>* chan_init (chan_view s)"
proof (induction rule: reachable.induct)
  case (start r t)
  show ?case by (simp add: chan_view_init)
next
  case (step s s')
  then show ?case using machine_refines [OF step.hyps] by (auto intro: rtranclp.rtrancl_into_rtrancl)
qed


text \<open>A packet is logged; the emulator's next access copies it to the ring.\<close>

definition about_to_copy :: "packet machine" where
  "about_to_copy = schedule [Log (mk_packet 1 2 3), P, P, P, P] (machine_init (\<lambda>_. mk_packet 0 0 0) 0)"


end
