(* ===== verification/EndToEnd.thy ===== *)
theory EndToEnd
  imports CausalityProps LockRefinement
begin

text \<open>
  From the tool to the simulator.  The tool's callbacks hand packets to the transport and add their
  encodings to \<open>checkSum\<close>, which \<open>Fini\<close> prints so that it can be compared with what arrived.  Here the
  laws of the callbacks (\<open>CausalityLaws\<close>) and the invariant of the two ends of the channel
  (\<open>Channel\<close>) are put together.
\<close>

section \<open>What the simulator adds up\<close>

definition received_sum :: "nat \<Rightarrow> (nat \<Rightarrow> packet list) \<Rightarrow> u64" where
  "received_sum n r = (\<Sum>k<n. sum_list (map (\<lambda>p. item_weight (Pkt p)) (r k)))"

text \<open>The final packets of threads, which the tool does not count.\<close>

fun final_weight :: "item \<Rightarrow> u64" where
  "final_weight (Pkt p) = 0"
| "final_weight (Final c k) = (if enc c \<in> set uncounted then 0 else enc c)"

definition final_sum :: "nat \<Rightarrow> (nat \<Rightarrow> item list) \<Rightarrow> u64" where
  "final_sum n h = (\<Sum>k<n. sum_list (map final_weight (h k)))"

lemma matching_weight: "matches i p \<Longrightarrow> item_weight (Pkt p) = item_weight i + final_weight i"
  by (cases i) (auto simp: final_packet_def)

lemma matching_sum:
  "list_all2 matches xs ps \<Longrightarrow>
    sum_list (map (\<lambda>p. item_weight (Pkt p)) ps) = sum_list (map item_weight xs) + sum_list (map final_weight xs)"
proof (induction rule: list_all2_induct)
  case (Cons x xs p ps)
  then show ?case by (simp add: matching_weight del: item_weight.simps)
qed simp

lemma fetches_keep_accepted:
  assumes "sys_run j \<sigma> (map (\<lambda>(k, m). Fetch k m) fs) = Some \<sigma>'"
  shows "accepted \<sigma>' = accepted \<sigma>"
  using assms by (induction fs arbitrary: \<sigma>) (auto split: bind_splits)

lemma all_received:
  assumes "sys_inv n \<sigma>" "k < n" "length (received \<sigma> k) = length (accepted \<sigma> k)"
  shows "list_all2 matches (accepted \<sigma> k) (received \<sigma> k)"
proof -
  from assms(1,2) have m: "list_all2 matches (accepted \<sigma> k) (received \<sigma> k @ stream (abs_chan (emu \<sigma>) k (rloc \<sigma> k)))"
    by (simp add: sys_inv_def thread_ok_def)
  with list_all2_lengthD [OF m] assms(3) show ?thesis by simp
qed

lemma received_sum_eq:
  assumes "sys_inv n \<sigma>" "\<And>k. k < n \<Longrightarrow> length (received \<sigma> k) = length (accepted \<sigma> k)"
  shows "received_sum n (received \<sigma>) = channel_sum n (accepted \<sigma>) + final_sum n (accepted \<sigma>)"
  unfolding received_sum_def channel_sum_def final_sum_def sum.distrib [symmetric]
  using matching_sum [OF all_received [OF assms(1)]] assms(2) by (intro sum.cong) auto

section \<open>The printed checksum\<close>


text \<open>A thread ends and the simulator reads what it left.\<close>

lemma demo_thread_ends:
  obtains \<sigma> where "callbacks (std_ipc 2 9 (\<lambda>_. 0)) [Thread_fini 9] demo_tool =
      Some (Inr ((), demo_tool\<lparr>isThreadActive := [True, False], livethreads := 1, tst := \<sigma>\<rparr>))"
    "sys_inv 2 \<sigma>" "accepted \<sigma> = (\<lambda>_. [])(1 := [Final THREADCOMPLETE 0])" "received \<sigma> = (\<lambda>_. [])"
    "ch_local (abs_chan (emu \<sigma>) 1 (rloc \<sigma> 1)) = []"
proof -
  let ?\<sigma> = "sys_init (shm_of 0 2) 2"
  obtain s where s: "onThread_finish (emu ?\<sigma>) 1 0 = (s, 0)" by (simp add: run_defs)
  define \<sigma> where "\<sigma> = ?\<sigma>\<lparr>emu := s, accepted := (accepted ?\<sigma>)(1 := [Final THREADCOMPLETE 0])\<rparr>"
  have f: "sys_finish ?\<sigma> 1 0 = (\<sigma>, 0)" and a: "accepted \<sigma> = (\<lambda>_. [])(1 := [Final THREADCOMPLETE 0])"
    and r: "received \<sigma> = (\<lambda>_. [])" "emu \<sigma> = s" "rloc \<sigma> = rloc ?\<sigma>"
    using s by (simp_all add: sys_finish_def sys_init_def \<sigma>_def)
  have "until_sent (\<lambda>c. Some (op_onThread_finish (std_ipc 2 9 (\<lambda>_. 0)) c (Suc 0) 0))
      (PIN_Yield (std_ipc 2 9 (\<lambda>_. 0))) ?\<sigma> = Some (Inr \<sigma>)"
    using f by (subst until_sent.simps) (simp add: std_ipc_def shm_ipc_def)
  then have c: "callbacks (std_ipc 2 9 (\<lambda>_. 0)) [Thread_fini 9] demo_tool =
      Some (Inr ((), demo_tool\<lparr>isThreadActive := [True, False], livethreads := 1, tst := \<sigma>\<rparr>))"
    by (simp add: callbacks_def ThreadFini_def demo_tool_def PIN_MutexLock_def PIN_MutexUnlock_def bindP_def
        findThreadMapping_apply getP_def modify_def finish_thread_def lift_loop_def ret_def fun_eq_iff)
  have l: "ch_local (abs_chan (emu \<sigma>) 1 (rloc \<sigma> 1)) = []"
    using finish_empties [OF shm_of_inv _ s] r by simp
  have "sys_inv 2 \<sigma>" using sys_finish_cases [OF shm_of_inv _ f] by simp
  from that [OF c this a r(1) l] show ?thesis .
qed


end
