(* ===== verification/InstrumentationLaws.thy ===== *)
theory InstrumentationLaws
  imports Instrumentation
begin

text \<open>
  Properties of the instrumentation of \<open>causalityTool.cpp\<close> (theory \<open>Instrumentation\<close>): which calls an
  instruction and a routine get, and how \<open>main\<close> reads the file of simulation points.
\<close>

section \<open>Instructions\<close>

lemma memory_calls_not_other:
  "Insert_before x \<notin> set (memory_calls j rw)" "Insert_after x \<notin> set (memory_calls j rw)"
  by (auto simp: memory_calls_def)

text \<open>every instruction is counted once, first; a branch is reported exactly for control-flow
  instructions; and memory operand \<open>j\<close> gets a read report exactly if it is read and a write report exactly
  if it is written (both for an operand that is both), each once.\<close>

theorem instruction_calls_exact:
  "hd (Instruction m i) = Insert_before (A_printip (if m = File then Some (disassembly i) else None))
   \<and> (Insert_before A_BrnFun \<in> set (Instruction m i)
        \<longleftrightarrow> is_direct_control_flow i \<or> is_indirect_control_flow i)
   \<and> (Insert_predicated (A_RecordMemRead j) \<in> set (Instruction m i)
        \<longleftrightarrow> j < length (memory_operands i) \<and> fst (memory_operands i ! j))
   \<and> (Insert_predicated (A_RecordMemWrite j) \<in> set (Instruction m i)
        \<longleftrightarrow> j < length (memory_operands i) \<and> snd (memory_operands i ! j))
   \<and> distinct (Instruction m i)"
proof -
  let ?calls = "concat (map (\<lambda>memOp. memory_calls memOp (memory_operands i ! memOp)) [0..<length (memory_operands i)])"
  have d: "distinct (concat (map (\<lambda>memOp. memory_calls memOp (f memOp)) [0..<k]))" for f k
  proof (induction k)
    case (Suc k)
    then show ?case by (auto simp: memory_calls_def split: if_splits)
  qed simp
  have "Insert_before x \<notin> set ?calls" for x by (auto simp: memory_calls_not_other)
  then have "distinct (Instruction m i)"
    using d [of "\<lambda>memOp. memory_operands i ! memOp"] by (auto simp: Instruction_def)
  then show ?thesis
    by (auto simp: Instruction_def memory_calls_def split: if_splits)
qed

section \<open>Routines\<close>

lemma routine_code_cases:
  "routine_code n \<in> {BCAST, SIGNAL, JOIN, CONDWAIT, BARRIERWAIT, BARRIERINIT, -1}"
  by (simp add: routine_code_def)



section \<open>The file of simulation points\<close>

text \<open>A line of the file: a slice number, a space, the weight.\<close>

definition point_line :: "int \<times> string \<Rightarrow> string" where
  "point_line p = show_int (fst p) @ CHR '' '' # snd p"

definition points_file :: "(int \<times> string) list \<Rightarrow> string" where
  "points_file ps = concat (map (\<lambda>p. point_line p @ [CHR 0x0A]) ps)"

definition points_ok :: "(int \<times> string) list \<Rightarrow> bool" where
  "points_ok ps \<longleftrightarrow> list_all (\<lambda>p. - (2 ^ 63) \<le> fst p \<and> fst p < 2 ^ 63 \<and> CHR 0x0A \<notin> set (snd p)) ps"

lemma point_line_plain: "CHR 0x0A \<notin> set (snd p) \<Longrightarrow> CHR 0x0A \<notin> set (point_line p)"
  using show_int_plain [of _ "fst p"] by (auto simp: point_line_def)

lemma getlines_points: "points_ok ps \<Longrightarrow> getlines (points_file ps @ s) = map point_line ps @ getlines s"
  using split_on_pieces [of "map point_line ps" "CHR 0x0A" s] point_line_plain
  by (auto simp: getlines_def points_file_def points_ok_def list_all_iff o_def)

lemma first_word_point: "first_word (point_line p) = Some (show_int (fst p))"
proof -
  have "first_word (w @ CHR '' '' # s) = Some w" if "\<forall>c \<in> set w. c \<noteq> CHR '' ''" for w s
    using that by (induction w) auto
  then show ?thesis unfolding point_line_def using show_int_plain by blast
qed

lemma point_line_nonempty [simp]: "point_line p \<noteq> []"
  by (simp add: point_line_def)

lemma read_slices_points:
  "points_ok ps \<Longrightarrow> k + length ps \<le> length arr \<Longrightarrow>
    read_slices (map point_line ps @ ls) k arr =
    read_slices ls (k + length ps) (take k arr @ map (\<lambda>p. word_of_int (fst p)) ps @ drop (k + length ps) arr)"
proof (induction ps arbitrary: k arr)
  case (Cons p ps)
  then have p: "strtol (show_int (fst p)) = fst p" "points_ok ps"
    by (auto simp: points_ok_def strtol_show_int)
  let ?w = "word_of_int (fst p) :: u64"
  have "take (Suc k) (arr[k := ?w]) = take k arr @ [?w]"
    using Cons.prems(2) by (simp add: take_Suc_conv_app_nth)
  moreover have "read_slices (map point_line (p # ps) @ ls) k arr
      = read_slices (map point_line ps @ ls) (Suc k) (arr[k := ?w])"
    using Cons.prems(2) p(1) by (simp add: first_word_point)
  ultimately show ?case
    using Cons.IH [OF p(2), of "Suc k" "arr[k := ?w]"] Cons.prems(2) by simp
qed simp

text \<open>C24: a file of simulation points, one per line, each line ended by a newline, is read into exactly the
  array of their numbers.\<close>

theorem pinpoints_file_read:
  assumes "points_ok ps"
  shows "read_pinpoints junk (Some (points_file ps)) = Inr (map (\<lambda>p. word_of_int (fst p)) ps)"
proof -
  have "getlines (points_file ps) = map point_line ps @ [[]]"
    using getlines_points [OF assms, of "[]"] by (simp add: getlines_def)
  then show ?thesis
    using read_slices_points [OF assms, of 0 "map junk [0..<length ps]" "[[]]"]
    by (simp add: read_pinpoints_def)
qed

theorem pinpoints_file_read_witness:
  "read_pinpoints (\<lambda>_. 0) (Some (points_file [(12, ''0.5''), (40, ''0.25'')])) = Inr [12, 40]"
  using pinpoints_file_read [of "[(12, ''0.5''), (40, ''0.25'')]" "\<lambda>_. 0"]
  by (simp add: points_ok_def)

text \<open>if the last line has no newline, which \<open>getline\<close> permits, the array is one entry too short and the
  last point is stored behind its end.\<close>

theorem pinpoints_without_final_newline:
  assumes "points_ok (ps @ [p])"
  shows "read_pinpoints junk (Some (points_file ps @ point_line p)) = Inl Undefined"
proof -
  have ok: "points_ok ps" "CHR 0x0A \<notin> set (snd p)" using assms by (auto simp: points_ok_def)
  have "getlines (points_file ps @ point_line p) = map point_line ps @ [point_line p]"
    using getlines_points [OF ok(1), of "point_line p"] split_on_last [OF point_line_plain [OF ok(2)]]
    by (simp add: getlines_def)
  then show ?thesis
    using read_slices_points [OF ok(1), of 0 "map junk [0..<length ps]" "[point_line p]"]
    by (simp add: read_pinpoints_def first_word_point)
qed

theorem pinpoints_without_final_newline_witness:
  "read_pinpoints (\<lambda>_. 0) (Some (points_file [(12, ''0.5'')] @ point_line (40, ''0.25''))) = Inl Undefined"
  by (rule pinpoints_without_final_newline) (simp add: points_ok_def)

end
