(* ===== verification/FilePacket.thy ===== *)
theory FilePacket
  imports IPCBase Decimal
begin

text \<open>
  The transport that writes trace files, \<open>communication/filePacket/filePacket.cc\<close>: one text file per
  thread, a line per packet, later read by \<open>FilePacket.java\<close>.  The record \<open>filepacket\<close> is the object
  together with the directory it writes to (name to content, before compression); whether a
  file can be created is a parameter.  The callbacks \<open>lock\<close> and \<open>unlock\<close> are the caller's and only
  bracket the writing; the lines printed to the terminal are not modelled.
\<close>

section \<open>filePacket.cc\<close>

record filepacket =
  fp_max :: nat
  fp_complete :: bool
  basefileName :: string
  files :: "nat \<Rightarrow> bool"
  disk :: "string \<Rightarrow> string option"

text \<open>\<open>sprintf(fileName, "%s_%d.gz", baseFileName, tid)\<close>.\<close>

definition trace_file :: "string \<Rightarrow> nat \<Rightarrow> string" where
  "trace_file base tid = base @ ''_'' @ show_nat tid @ ''.gz''"

text \<open>The constructor: an existing file of any thread ends the process.\<close>

definition FilePacket_new :: "(string \<Rightarrow> string option) \<Rightarrow> nat \<Rightarrow> string \<Rightarrow> stop + filepacket" where
  "FilePacket_new d n base =
     (if list_ex (\<lambda>tid. d (trace_file base tid) \<noteq> None) [0..<n] then Inl (Exit 1)
      else Inr \<lparr>fp_max = n, fp_complete = False, basefileName = base, files = (\<lambda>_. False), disk = d\<rparr>)"

definition createPacketFileForThread :: "(string \<Rightarrow> bool) \<Rightarrow> filepacket \<Rightarrow> nat \<Rightarrow> stop + filepacket" where
  "createPacketFileForThread creatable f tid =
     (if \<not> files f tid then
        let name = trace_file (basefileName f) tid in
        if \<not> creatable name then Inl (Exit 1)
        else Inr (f\<lparr>files := (files f)(tid := True), disk := (disk f)(name \<mapsto> [])\<rparr>)
      else Inr f)"

text \<open>\<open>"%ld"\<close> of an unsigned 64-bit value prints its signed reading.\<close>

definition packet_line :: "u64 \<Rightarrow> u64 \<Rightarrow> u64 \<Rightarrow> string" where
  "packet_line ip v a = show_int (sint ip) @ '' '' @ show_int (sint v) @ '' '' @ show_int (sint a) @ [CHR 0x0A]"

definition assembly_line :: "u64 \<Rightarrow> u64 \<Rightarrow> string \<Rightarrow> string" where
  "assembly_line ip v str = show_int (sint ip) @ '' '' @ show_int (sint v) @ '' '' @ str @ [CHR 0x0A]"

definition append_line :: "filepacket \<Rightarrow> nat \<Rightarrow> string \<Rightarrow> filepacket" where
  "append_line f tid l =
     (let name = trace_file (basefileName f) tid
      in f\<lparr>disk := (disk f)(name \<mapsto> the (disk f name) @ l)\<rparr>)"

definition printToFileIpValAddr :: "filepacket \<Rightarrow> nat \<Rightarrow> u64 \<Rightarrow> u64 \<Rightarrow> u64 \<Rightarrow> filepacket" where
  "printToFileIpValAddr f tid ip v a = append_line f tid (packet_line ip v a)"

definition printToFileIpValAsmString :: "filepacket \<Rightarrow> nat \<Rightarrow> u64 \<Rightarrow> u64 \<Rightarrow> string \<Rightarrow> filepacket" where
  "printToFileIpValAsmString f tid ip v str = append_line f tid (assembly_line ip v str)"

definition fp_analysisFn ::
    "(string \<Rightarrow> bool) \<Rightarrow> filepacket \<Rightarrow> nat \<Rightarrow> u64 \<Rightarrow> u64 \<Rightarrow> u64 \<Rightarrow> stop + filepacket \<times> int" where
  "fp_analysisFn cr f tid ip v a =
     (case createPacketFileForThread cr f tid of Inl e \<Rightarrow> Inl e
      | Inr f \<Rightarrow> if v = enc INSTRUCTION then Inl (Exit 1) else Inr (printToFileIpValAddr f tid ip v a, 0))"

definition fp_analysisFnAssembly ::
    "(string \<Rightarrow> bool) \<Rightarrow> filepacket \<Rightarrow> nat \<Rightarrow> u64 \<Rightarrow> u64 \<Rightarrow> string \<Rightarrow> stop + filepacket \<times> int" where
  "fp_analysisFnAssembly cr f tid ip v str =
     (case createPacketFileForThread cr f tid of Inl e \<Rightarrow> Inl e
      | Inr f \<Rightarrow> Inr (printToFileIpValAsmString f tid ip v str, 0))"

definition fp_onThread_start :: "filepacket \<Rightarrow> nat \<Rightarrow> filepacket" where
  "fp_onThread_start f tid = f"

definition fp_onThread_finish :: "filepacket \<Rightarrow> nat \<Rightarrow> u64 \<Rightarrow> filepacket \<times> int" where
  "fp_onThread_finish f tid k = (f, 0)"

text \<open>\<open>while (analysisFn(...) == -1) continue;\<close>: \<open>analysisFn\<close> returns 0 the first time.\<close>

definition fp_onSubset_finish :: "(string \<Rightarrow> bool) \<Rightarrow> filepacket \<Rightarrow> nat \<Rightarrow> u64 \<Rightarrow> (stop + filepacket \<times> int) option" where
  "fp_onSubset_finish cr f tid k =
     (case until_sent (\<lambda>f. Some (fp_analysisFn cr f tid 0 (enc SUBSETSIMCOMPLETE) k)) (\<lambda>f. f) f of
        None \<Rightarrow> None | Some (Inl e) \<Rightarrow> Some (Inl e) | Some (Inr f) \<Rightarrow> Some (Inr (f, 0)))"

definition fp_setSubsetsimComplete :: "filepacket \<Rightarrow> bool \<Rightarrow> filepacket \<times> bool" where
  "fp_setSubsetsimComplete f b = (let f' = f\<lparr>fp_complete := b\<rparr> in (f', fp_complete f'))"

definition fp_isSubsetsimCompleted :: "filepacket \<Rightarrow> bool" where
  "fp_isSubsetsimCompleted f = fp_complete f"

text \<open>All entries of the array are closed, opened or not (\<open>gzclose(NULL)\<close> only reports an error).\<close>

definition closeAllFiles :: "filepacket \<Rightarrow> nat list" where
  "closeAllFiles f = [0..<fp_max f]"

text \<open>\<open>unload\<close> has no \<open>return\<close> behind the closing of the files: its value is undefined when
  \<open>files\<close> is allocated, which the constructor always does.\<close>

definition fp_unload :: "bool \<Rightarrow> filepacket \<Rightarrow> stop + bool" where
  "fp_unload allocated f = (if \<not> allocated then Inr True else Inl Undefined)"

definition fp_ipc :: "(string \<Rightarrow> bool) \<Rightarrow> filepacket ipc" where
  "fp_ipc cr = \<lparr>
     op_analysisFn = fp_analysisFn cr,
     op_analysisFnAssembly = fp_analysisFnAssembly cr,
     op_onThread_start = fp_onThread_start,
     op_onThread_finish = (\<lambda>f tid k. Inr (fp_onThread_finish f tid k)),
     op_onSubset_finish = fp_onSubset_finish cr,
     op_isSubsetsimCompleted = fp_isSubsetsimCompleted,
     op_setSubsetsimComplete = fp_setSubsetsimComplete,
     op_unload = (\<lambda>f. f),
     PIN_Yield = (\<lambda>f. f)\<rparr>"

section \<open>Reading the file\<close>

text \<open>A line as \<open>FilePacket.java\<close> takes it apart: instruction pointer and value, then the target, or for
  an assembly packet the rest of the line.\<close>

datatype trace_item = T_packet packet | T_assembly u64 u64 string

definition number :: "string \<Rightarrow> u64" where
  "number s = word_of_int (strtol s)"

definition parse_line :: "string \<Rightarrow> trace_item option" where
  "parse_line l =
     (case split_on (CHR '' '') l of
        i # v # a # rest \<Rightarrow>
          if number v = enc ASSEMBLY
          then Some (T_assembly (number i) (number v) (drop (length i + length v + 2) l))
          else Some (T_packet (mk_packet (number i) (number v) (number a)))
      | _ \<Rightarrow> None)"

definition parse_trace :: "string \<Rightarrow> trace_item list" where
  "parse_trace s = map (the \<circ> parse_line) (butlast (split_on (CHR 0x0A) s))"

fun item_line :: "trace_item \<Rightarrow> string" where
  "item_line (T_packet p) = packet_line (pk_ip p) (pk_value p) (pk_tgt p)"
| "item_line (T_assembly ip v str) = assembly_line ip v str"

fun item_ok :: "trace_item \<Rightarrow> bool" where
  "item_ok (T_packet p) = (pk_value p \<noteq> enc ASSEMBLY)"
| "item_ok (T_assembly ip v str) = (v = enc ASSEMBLY \<and> CHR 0x0A \<notin> set str)"

lemma number_show: "number (show_int (sint w)) = w"
proof -
  have "- (2 ^ 63) \<le> sint w" "sint w < 2 ^ 63" using sint_ge [of w] sint_lt [of w] by simp_all
  then show ?thesis by (simp add: number_def strtol_show_int)
qed

lemma item_line_split:
  "\<exists>l. item_line x = l @ [CHR 0x0A] \<and> (item_ok x \<longrightarrow> CHR 0x0A \<notin> set l \<and> parse_line l = Some x)"
proof (cases x)
  case (T_packet p)
  let ?l = "show_int (sint (pk_ip p)) @ '' '' @ show_int (sint (pk_value p)) @ '' '' @ show_int (sint (pk_tgt p))"
  have n: "CHR '' '' \<notin> set (show_int i)" "CHR 0x0A \<notin> set (show_int i)" for i
    using show_int_plain by blast+
  have "parse_line ?l = Some x" if "pk_value p \<noteq> enc ASSEMBLY"
    using that n by (simp add: parse_line_def split_on_piece split_on_last number_show T_packet)
  then show ?thesis
    using n T_packet by (intro exI [of _ ?l]) (simp add: packet_line_def)
next
  case (T_assembly ip v str)
  let ?l = "show_int (sint ip) @ '' '' @ show_int (sint v) @ '' '' @ str"
  have n: "CHR '' '' \<notin> set (show_int i)" "CHR 0x0A \<notin> set (show_int i)" for i
    using show_int_plain by blast+
  obtain w ws where "split_on (CHR '' '') str = w # ws" by (cases "split_on (CHR '' '') str") simp_all
  then have "parse_line ?l = Some x" if "v = enc ASSEMBLY"
    using that n by (simp add: parse_line_def split_on_piece number_show T_assembly)
  then show ?thesis
    using n T_assembly by (intro exI [of _ ?l]) (simp add: assembly_line_def)
qed

lemma parse_trace_items:
  assumes "list_all item_ok xs"
  shows "parse_trace (concat (map item_line xs)) = xs"
proof -
  have "\<forall>x. \<exists>l. item_line x = l @ [CHR 0x0A] \<and> (item_ok x \<longrightarrow> CHR 0x0A \<notin> set l \<and> parse_line l = Some x)"
    using item_line_split by blast
  then obtain b where b: "\<And>x. item_line x = b x @ [CHR 0x0A]"
      "\<And>x. item_ok x \<Longrightarrow> CHR 0x0A \<notin> set (b x) \<and> parse_line (b x) = Some x"
    by metis
  have "item_line = (\<lambda>x. b x @ [CHR 0x0A])" using b(1) by blast
  then have "split_on (CHR 0x0A) (concat (map item_line xs)) = map b xs @ [[]]"
    using split_on_pieces [of "map b xs" "CHR 0x0A" "[]"] b(2) assms
    by (auto simp: o_def list_all_iff)
  then show ?thesis
    using b(2) assms by (auto simp: parse_trace_def list_all_iff intro: map_idI)
qed

section \<open>The contract of the transport\<close>

lemma show_nat_inject: "show_nat m = show_nat n \<Longrightarrow> m = n"
  by (metis digits_value_show of_nat_eq_iff)

lemma trace_file_inject: "trace_file base m = trace_file base n \<Longrightarrow> m = n"
  by (rule show_nat_inject) (simp add: trace_file_def)

text \<open>What thread \<open>tid\<close> has written: the items of its file.\<close>

definition written :: "filepacket \<Rightarrow> nat \<Rightarrow> trace_item list" where
  "written f tid = (if files f tid then parse_trace (the (disk f (trace_file (basefileName f) tid))) else [])"

fun packet_of :: "trace_item \<Rightarrow> item list" where
  "packet_of (T_packet p) = [Pkt p]" | "packet_of (T_assembly ip v str) = []"

definition fp_hist :: "filepacket \<Rightarrow> nat \<Rightarrow> item list" where
  "fp_hist f tid = concat (map packet_of (written f tid))"

text \<open>Every open file is a sequence of lines as written by the transport.\<close>

definition fp_ok :: "filepacket \<Rightarrow> bool" where
  "fp_ok f \<longleftrightarrow> (\<forall>tid. files f tid \<longrightarrow>
     (\<exists>xs. disk f (trace_file (basefileName f) tid) = Some (concat (map item_line xs)) \<and> list_all item_ok xs))"

lemma append_written:
  assumes "fp_ok f" "item_ok x" "createPacketFileForThread (\<lambda>_. True) f tid = Inr g"
  shows "fp_ok (append_line g tid (item_line x))"
    "written (append_line g tid (item_line x)) = (written f)(tid := written f tid @ [x])"
proof -
  let ?h = "append_line g tid (item_line x)" and ?name = "trace_file (basefileName f)"
  have base: "basefileName g = basefileName f" and fl: "files g = (files f)(tid := True)"
    using assms(3) by (auto simp: createPacketFileForThread_def Let_def split: if_splits)
  obtain xs where xs: "disk g (?name tid) = Some (concat (map item_line xs))" "list_all item_ok xs" "written f tid = xs"
  proof (cases "files f tid")
    case True
    then obtain xs where x: "disk f (?name tid) = Some (concat (map item_line xs))" "list_all item_ok xs"
      using assms(1) by (auto simp: fp_ok_def)
    moreover have "g = f" using True assms(3) by (simp add: createPacketFileForThread_def)
    ultimately show ?thesis using that True by (simp add: written_def parse_trace_items)
  next
    case False
    then show ?thesis
      using that [of "[]"] assms(3) by (auto simp: createPacketFileForThread_def written_def Let_def)
  qed
  have other: "disk ?h (?name t) = disk f (?name t)" if "t \<noteq> tid" for t
  proof -
    have "?name t \<noteq> ?name tid" using that trace_file_inject by blast
    moreover have "disk g = disk f \<or> disk g = (disk f)(?name tid \<mapsto> [])"
      using assms(3) by (auto simp: createPacketFileForThread_def Let_def split: if_splits)
    ultimately show ?thesis by (auto simp: append_line_def Let_def base)
  qed
  have own: "disk ?h (?name tid) = Some (concat (map item_line (xs @ [x])))"
    using xs(1) by (simp add: append_line_def Let_def base)
  have fh: "files ?h = (files f)(tid := True)" "basefileName ?h = basefileName f"
    using fl base by (simp_all add: append_line_def Let_def)
  show "fp_ok ?h"
    unfolding fp_ok_def
  proof (intro allI impI)
    fix t assume "files ?h t"
    show "\<exists>xs. disk ?h (trace_file (basefileName ?h) t) = Some (concat (map item_line xs)) \<and> list_all item_ok xs"
    proof (cases "t = tid")
      case True
      then show ?thesis using own xs(2) assms(2) fh(2) by (intro exI [of _ "xs @ [x]"]) simp
    next
      case False
      then show ?thesis using other assms(1) fh \<open>files ?h t\<close> by (auto simp: fp_ok_def)
    qed
  qed
  show "written ?h = (written f)(tid := written f tid @ [x])"
  proof
    fix t
    show "written ?h t = ((written f)(tid := written f tid @ [x])) t"
    proof (cases "t = tid")
      case True
      have "written ?h tid = parse_trace (concat (map item_line (xs @ [x])))"
        unfolding written_def fh own by simp
      also have "\<dots> = xs @ [x]" using xs(2) assms(2) by (intro parse_trace_items) simp
      finally show ?thesis using True xs(3) by simp
    next
      case False
      then show ?thesis using other [OF False] fh by (simp add: written_def)
    qed
  qed
qed

lemma fp_packet_channel:
  "packet_channel (fp_ipc (\<lambda>_. True)) fp_ok fp_hist n (\<lambda>v. v \<noteq> enc INSTRUCTION \<and> v \<noteq> enc ASSEMBLY) (\<lambda>k. [])"
proof unfold_locales
  fix f tid i v a
  assume f: "fp_ok f" and v: "v \<noteq> enc INSTRUCTION \<and> v \<noteq> enc ASSEMBLY"
  obtain g where g: "createPacketFileForThread (\<lambda>_. True) f tid = Inr g"
    by (cases "files f tid") (simp_all add: createPacketFileForThread_def Let_def)
  have ok: "item_ok (T_packet (mk_packet i v a))" using v by simp
  have r: "fp_analysisFn (\<lambda>_. True) f tid i v a = Inr (append_line g tid (item_line (T_packet (mk_packet i v a))), 0)"
    using g v by (simp add: fp_analysisFn_def printToFileIpValAddr_def)
  show "\<exists>c' r. op_analysisFn (fp_ipc (\<lambda>_. True)) f tid i v a = Inr (c', r) \<and> fp_ok c' \<and>
      (r = 0 \<and> fp_hist c' = (fp_hist f)(tid := fp_hist f tid @ [Pkt (mk_packet i v a)]) \<or> r = -1 \<and> fp_hist c' = fp_hist f)"
    using r append_written [OF f ok g] by (auto simp: fp_ipc_def fp_hist_def fun_eq_iff)
next
  fix f tid k assume "fp_ok f"
  then show "\<exists>c' r. op_onThread_finish (fp_ipc (\<lambda>_. True)) f tid k = Inr (c', r) \<and> fp_ok c' \<and>
      (r = 0 \<and> fp_hist c' = (fp_hist f)(tid := fp_hist f tid @ []) \<or> r = -1 \<and> fp_hist c' = fp_hist f)"
    by (simp add: fp_ipc_def fp_onThread_finish_def)
qed (simp add: fp_ipc_def)

lemma fp_live_channel:
  "live_channel (fp_ipc (\<lambda>_. True)) fp_ok fp_hist n (\<lambda>v. v \<noteq> enc INSTRUCTION \<and> v \<noteq> enc ASSEMBLY) (\<lambda>k. []) (\<lambda>_. True)"
proof (intro live_channel.intro live_channel_axioms.intro fp_packet_channel)
  fix f tid i v a f'
  assume "op_analysisFn (fp_ipc (\<lambda>_. True)) f tid i v a = Inr (f', -1)"
  then show "\<exists>c''. op_analysisFn (fp_ipc (\<lambda>_. True)) (PIN_Yield (fp_ipc (\<lambda>_. True)) f') tid i v a = Inr (c'', 0)"
    by (auto simp: fp_ipc_def fp_analysisFn_def split: sum.splits if_splits)
qed simp_all

interpretation fp: live_channel "fp_ipc (\<lambda>_. True)" fp_ok fp_hist n "\<lambda>v. v \<noteq> enc INSTRUCTION \<and> v \<noteq> enc ASSEMBLY"
    "\<lambda>k. []" "\<lambda>_. True" for n
  by (rule fp_live_channel)

section \<open>Properties\<close>



text \<open>over trace files a tool's busy loop ends at once and adds exactly its packet to the thread's file, the
  other threads' files staying as they are.\<close>

theorem trace_file_send:
  assumes "fp_ok f" "v \<noteq> enc INSTRUCTION" "v \<noteq> enc ASSEMBLY"
  shows "\<exists>f'. send_loop (fp_ipc (\<lambda>_. True)) tid i v a f = Some (Inr f') \<and> fp_ok f'
    \<and> fp_hist f' = (fp_hist f)(tid := fp_hist f tid @ [Pkt (mk_packet i v a)])"
  using fp.send_loop_ends [of f tid "Suc tid" v i a] assms by auto

theorem trace_file_send_witness:
  "\<exists>f'. send_loop (fp_ipc (\<lambda>_. True)) 3 10 (enc MEMREAD) 20
      \<lparr>fp_max = 4, fp_complete = False, basefileName = ''t'', files = (\<lambda>_. False), disk = (\<lambda>_. None)\<rparr> = Some (Inr f')
    \<and> fp_ok f' \<and> fp_hist f' 3 = [Pkt (mk_packet 10 (enc MEMREAD) 20)]"
proof -
  let ?f = "\<lparr>fp_max = 4, fp_complete = False, basefileName = ''t'', files = (\<lambda>_. False), disk = (\<lambda>_. None)\<rparr>"
  have "fp_ok ?f" "fp_hist ?f 3 = []" by (simp_all add: fp_ok_def fp_hist_def written_def)
  moreover have "enc MEMREAD \<noteq> enc INSTRUCTION" "enc MEMREAD \<noteq> enc ASSEMBLY" by (simp_all add: enc_def encoding_defs)
  ultimately show ?thesis using trace_file_send [of ?f "enc MEMREAD" 3 10 20] by (metis append_Nil fun_upd_same)
qed

text \<open>an instruction packet, and a trace file that is already there, end the process with status 1.\<close>

theorem trace_file_errors:
  "fp_analysisFn (\<lambda>_. True) f tid ip (enc INSTRUCTION) a = Inl (Exit 1)
   \<and> ((\<exists>tid < n. d (trace_file base tid) \<noteq> None) \<longleftrightarrow> FilePacket_new d n base = Inl (Exit 1))"
  by (auto simp: fp_analysisFn_def FilePacket_new_def createPacketFileForThread_def Let_def list_ex_iff
      split: if_splits)

end
