(* ===== verification/Mmap.thy ===== *)
theory Mmap
  imports Prog Encoding
begin

text \<open>
  The transport over a memory-mapped file, \<open>communication/mmap/mmap.h\<close> and \<open>mmap.cc\<close>; no tool constructs
  it any more.  The record \<open>mm\<close> is the object together with the file, seen as packets from the start of
  the mapping.  Of the mapping, \<open>mapped\<close> bytes are in the address space and \<open>backed\<close> bytes are pages of the
  file; an access behind the latter raises a bus error, as \<open>mmap\<close> documents, one behind the former is
  undefined.  A local queue that was never allocated is \<open>None\<close>.  The lock is the stores it leaves, as in
  theory \<open>Shm\<close>.
\<close>

definition mm_COUNT :: nat where "mm_COUNT = 1000"
definition mm_locQ :: nat where "mm_locQ = 50"
definition mm_MaxThreads :: nat where "mm_MaxThreads = 10000"

text \<open>\<open>sizeof(packet)\<close> is 24, the size of a page 4096.\<close>

definition mm_FILESIZE :: nat where "mm_FILESIZE = (mm_COUNT + 5) * 24"

definition pages :: "nat \<Rightarrow> nat" where
  "pages n = (n + 4095) div 4096 * 4096"

record mm_thread =
  mm_tlqsize :: u32
  mm_in :: u32
  mm_out :: u32
  mm_map :: nat
  mm_tlq :: "(nat \<Rightarrow> packet) option"
  mm_prod_ptr :: u32
  mm_tot_prod :: u32
  mm_sum :: u64

record mm =
  mm_tldata :: "nat \<Rightarrow> mm_thread"
  mm_cells :: "nat \<Rightarrow> packet"
  backed :: nat
  mapped :: nat

section \<open>The mapping\<close>

text \<open>An access to the bytes up to \<open>hi\<close>.\<close>

definition reach :: "nat \<Rightarrow> (mm, unit) prog" where
  "reach hi = (\<lambda>s. if hi \<le> backed s then ret () s else if hi \<le> mapped s then stops Bus_error s else stops Undefined s)"

definition read_value :: "nat \<Rightarrow> (mm, u64) prog" where
  "read_value i = bindP (reach (24 * i + 16)) (\<lambda>_. getP (\<lambda>s. pk_value (mm_cells s i)))"

definition write_value :: "nat \<Rightarrow> u64 \<Rightarrow> (mm, unit) prog" where
  "write_value i v = bindP (reach (24 * i + 16)) (\<lambda>_.
     modify (\<lambda>s. s\<lparr>mm_cells := (mm_cells s)(i := (mm_cells s i)\<lparr>pk_value := v\<rparr>)\<rparr>))"

definition write_packet :: "nat \<Rightarrow> packet \<Rightarrow> (mm, unit) prog" where
  "write_packet i p = bindP (reach (24 * i + 24)) (\<lambda>_. modify (\<lambda>s. s\<lparr>mm_cells := (mm_cells s)(i := p)\<rparr>))"

definition mm_get_lock :: "nat \<Rightarrow> (mm, unit) prog" where
  "mm_get_lock region = block [
     write_value (region + mm_COUNT + 1) 1,
     write_value (region + mm_COUNT + 3) 1,
     bindP (read_value (region + mm_COUNT + 2)) (\<lambda>_. ret ())]"

definition mm_release_lock :: "nat \<Rightarrow> (mm, unit) prog" where
  "mm_release_lock region = write_value (region + mm_COUNT + 1) 0"

section \<open>Construction\<close>

text \<open>\<open>opened\<close>, \<open>wrote\<close> and \<open>mapped_ok\<close> are the results of the system calls; the file is truncated and
  one byte is written to it.  \<open>junk\<close> is what the uninitialised members hold.\<close>

definition mm_new :: "bool \<Rightarrow> bool \<Rightarrow> bool \<Rightarrow> (nat \<Rightarrow> mm_thread) \<Rightarrow> (nat \<Rightarrow> packet) \<Rightarrow> stop + mm" where
  "mm_new opened wrote mapped_ok junk file =
     (if \<not> opened \<or> \<not> wrote \<or> \<not> mapped_ok then Inl (Exit 1)
      else Inr \<lparr>mm_tldata = (\<lambda>t. if t < mm_MaxThreads
                  then (junk t)\<lparr>mm_tlqsize := 0, mm_in := 0, mm_out := 0, mm_sum := 0, mm_tlq := None,
                                mm_map := (mm_COUNT + 5) * t\<rparr>
                  else junk t),
                mm_cells = file, backed = pages 1, mapped = pages mm_FILESIZE\<rparr>)"

section \<open>Writing to the file\<close>

text \<open>The packet at an index of the local queue.\<close>

definition local_packet :: "nat \<Rightarrow> u32 \<Rightarrow> (mm, packet) prog" where
  "local_packet tid i = bindP (getP (\<lambda>s. mm_tlq (mm_tldata s tid))) (\<lambda>q.
     case q of None \<Rightarrow> stops Undefined | Some q \<Rightarrow> ret (q (unat (i mod of_nat mm_locQ))))"

definition set_thread :: "nat \<Rightarrow> (mm_thread \<Rightarrow> mm_thread) \<Rightarrow> (mm, unit) prog" where
  "set_thread tid f = modify (\<lambda>s. s\<lparr>mm_tldata := (mm_tldata s)(tid := f (mm_tldata s tid))\<rparr>)"

definition copy_packet :: "nat \<Rightarrow> nat \<Rightarrow> (mm, unit) prog" where
  "copy_packet tid i = bindP (getP (\<lambda>s. mm_tldata s tid)) (\<lambda>myData.
     bindP (local_packet tid (mm_out myData + of_nat i)) (\<lambda>p. block [
       set_thread tid (\<lambda>d. d\<lparr>mm_sum := mm_sum d + pk_value p\<rparr>),
       write_packet (mm_map myData + unat ((mm_prod_ptr myData + of_nat i) mod of_nat mm_COUNT)) p]))"

text \<open>Unlike in \<open>shmem.cc\<close> the final packet goes through the bookkeeping of the local queue.\<close>

definition filewrite :: "nat \<Rightarrow> int \<Rightarrow> (mm, int) prog" where
  "filewrite tid last_one =
     bindP (getP (\<lambda>s. mm_tldata s tid)) (\<lambda>myData. let region = mm_map myData in
     bindP (mm_get_lock region) (\<lambda>_.
     bindP (read_value (region + mm_COUNT)) (\<lambda>v. let queue_size = (ucast v :: u32) in
     bindP (mm_release_lock region) (\<lambda>_. let numWrite = of_nat mm_COUNT - queue_size in
     if numWrite = 0 then ret (-1)
     else
       let numWrite = (if last_one = 0 then (if numWrite < mm_tlqsize myData then numWrite else mm_tlqsize myData) else 1) in
       bindP (if last_one = 0 then block (List.map (copy_packet tid) [0..<nat (sint numWrite)])
              else write_value (region + unat (mm_prod_ptr myData mod of_nat mm_COUNT)) (enc (-1))) (\<lambda>_.
       bindP (set_thread tid (\<lambda>d. d\<lparr>mm_out := (mm_out d + numWrite) mod of_nat mm_locQ,
                                    mm_tlqsize := mm_tlqsize d - numWrite,
                                    mm_prod_ptr := (mm_prod_ptr d + numWrite) mod of_nat mm_COUNT\<rparr>)) (\<lambda>_.
       bindP (mm_get_lock region) (\<lambda>_.
       bindP (read_value (region + mm_COUNT)) (\<lambda>v. let queue_size = (ucast v :: u32) + numWrite in
       bindP (set_thread tid (\<lambda>d. d\<lparr>mm_tot_prod := mm_tot_prod d + numWrite\<rparr>)) (\<lambda>_.
       bindP (getP (\<lambda>s. mm_tot_prod (mm_tldata s tid))) (\<lambda>tot.
       bindP (block [write_value (region + mm_COUNT) (scast queue_size),
                     write_value (region + mm_COUNT + 4) (ucast tot),
                     mm_release_lock region]) (\<lambda>_. ret 0)))))))))))"

section \<open>The interface\<close>

definition mm_analysisFn :: "nat \<Rightarrow> u64 \<Rightarrow> int \<Rightarrow> u64 \<Rightarrow> (mm, int) prog" where
  "mm_analysisFn tid ip val addr =
     bindP (getP (\<lambda>s. mm_tlqsize (mm_tldata s tid))) (\<lambda>n.
     bindP (if n = of_nat mm_locQ then filewrite tid 0 else ret 0) (\<lambda>r.
     if r = -1 then ret (-1)
     else bindP (getP (\<lambda>s. mm_tlq (mm_tldata s tid))) (\<lambda>q.
       case q of None \<Rightarrow> stops Undefined
       | Some q \<Rightarrow> bindP (set_thread tid (\<lambda>d. d\<lparr>
             mm_tlq := Some (q(unat (mm_in d) := mk_packet ip (enc val) addr)),
             mm_in := (mm_in d + 1) mod of_nat mm_locQ,
             mm_tlqsize := mm_tlqsize d + 1\<rparr>)) (\<lambda>_. ret 0))))"

definition mm_onThread_start :: "nat \<Rightarrow> (mm, unit) prog" where
  "mm_onThread_start tid = bindP (getP (\<lambda>s. mm_map (mm_tldata s tid))) (\<lambda>region. block [
     write_value (region + mm_COUNT) 0,
     write_value (region + mm_COUNT + 1) 0,
     write_value (region + mm_COUNT + 2) 0])"

text \<open>The loop that empties the local queue: whether it came to its end.\<close>

partial_function (option) mm_drain :: "nat \<Rightarrow> mm \<Rightarrow> (stop + bool \<times> mm) option" where
  "mm_drain tid s =
     (if mm_tlqsize (mm_tldata s tid) = 0 then Some (Inr (True, s))
      else Option.bind (filewrite tid 0 s) (\<lambda>r.
        case r of Inl e \<Rightarrow> Some (Inl e)
        | Inr (n, s') \<Rightarrow> if n = -1 then Some (Inr (False, s')) else mm_drain tid s'))"

definition mm_onThread_finish :: "nat \<Rightarrow> (mm, int) prog" where
  "mm_onThread_finish tid = bindP (mm_drain tid) (\<lambda>done.
     if done then filewrite tid 1 else ret (-1))"

text \<open>A \<open>bool\<close> function that returns nothing, and a destructor that deletes what was never allocated.\<close>

definition mm_unload :: "bool \<Rightarrow> (mm, bool) prog" where
  "mm_unload munmapped = bindP (modify (\<lambda>s. if munmapped then s\<lparr>backed := 0, mapped := 0\<rparr> else s)) (\<lambda>_. stops Undefined)"

definition mm_delete :: "(mm, unit) prog" where
  "mm_delete = bindP (getP (\<lambda>s. \<exists>t < mm_MaxThreads. mm_tlq (mm_tldata s t) = None)) (\<lambda>bad.
     if bad then stops Undefined else ret ())"

section \<open>What becomes of it\<close>

lemma reach_apply [prog_simps]:
  "reach hi s = (if hi \<le> backed s then Some (Inr ((), s)) else Some (Inl (if hi \<le> mapped s then Bus_error else Undefined)))"
  by (simp add: reach_def ret_def stops_def)

lemma reach_ok: "hi \<le> backed s \<Longrightarrow> reach hi s = Some (Inr ((), s))"
  by (simp add: reach_apply)

text \<open>as it stands the memory-mapped transport cannot be used: the file it maps is one byte long, so the
  first thread to start is killed by a bus error at the queue size, any other thread is outside the
  mapping, an instruction that is reported is written through a pointer that was never set, and the
  end of the first thread is a bus error as well.\<close>
theorem mapped_file_too_short:
  assumes "mm_new opened wrote mapped_ok junk file = Inr s" and "tid < mm_MaxThreads"
  shows "mm_onThread_start tid s = Some (Inl (if tid = 0 then Bus_error else Undefined)) \<and>
    mm_analysisFn tid ip val addr s = Some (Inl Undefined) \<and>
    mm_onThread_finish tid s = Some (Inl (if tid = 0 then Bus_error else Undefined))"
proof -
  have s: "backed s = 4096" "mapped s = 24576"
    "mm_tldata s tid = (junk tid)\<lparr>mm_tlqsize := 0, mm_in := 0, mm_out := 0, mm_sum := 0,
        mm_tlq := None, mm_map := 1005 * tid\<rparr>"
    using assms by (auto simp: mm_new_def pages_def mm_FILESIZE_def mm_COUNT_def split: if_splits)
  have far: "write_value (1005 * tid + mm_COUNT + k) v s = Some (Inl (if tid = 0 then Bus_error else Undefined))"
    if "k \<le> 3" for k v
    using s(1,2) that by (cases "tid = 0") (auto simp: write_value_def mm_COUNT_def reach_apply bindP_stop)
  have "mm_onThread_start tid s = Some (Inl (if tid = 0 then Bus_error else Undefined))"
    using far [of 0 0] s(3) by (simp add: mm_onThread_start_def bindP_getP bindP_stop)
  moreover have "mm_analysisFn tid ip val addr s = Some (Inl Undefined)"
    using s(3) by (simp add: mm_analysisFn_def bindP_getP mm_locQ_def prog_simps)
  moreover have "mm_onThread_finish tid s = Some (Inl (if tid = 0 then Bus_error else Undefined))"
  proof -
    have lock: "mm_get_lock (mm_map (mm_tldata s tid)) s = Some (Inl (if tid = 0 then Bus_error else Undefined))"
      using far [of 1 1] s(3) by (simp add: mm_get_lock_def bindP_stop)
    have "filewrite tid 1 s = Some (Inl (if tid = 0 then Bus_error else Undefined))"
      unfolding filewrite_def bindP_getP Let_def by (rule bindP_stop) (rule lock)
    moreover have "mm_drain tid s = Some (Inr (True, s))" using s(3) by (simp add: mm_drain.simps)
    ultimately show ?thesis by (simp add: mm_onThread_finish_def bindP_ret)
  qed
  ultimately show ?thesis by blast
qed

definition blank_thread :: mm_thread where
  "blank_thread = \<lparr>mm_tlqsize = 0, mm_in = 0, mm_out = 0, mm_map = 0, mm_tlq = None, mm_prod_ptr = 0, mm_tot_prod = 0, mm_sum = 0\<rparr>"

theorem mapped_file_too_short_witness:
  "\<exists>s. mm_new True True True (\<lambda>_. blank_thread) (\<lambda>_. mk_packet 0 0 0) = Inr s
    \<and> mm_onThread_start 0 s = Some (Inl Bus_error) \<and> mm_onThread_finish 3 s = Some (Inl Undefined)"
proof -
  obtain s where s: "mm_new True True True (\<lambda>_. blank_thread) (\<lambda>_. mk_packet 0 0 0) = Inr s" by (simp add: mm_new_def)
  from mapped_file_too_short [OF s, of 0] mapped_file_too_short [OF s, of 3] s show ?thesis
    by (auto simp: mm_MaxThreads_def)
qed

section \<open>With the file and the queues in place\<close>

text \<open>The transport as it was meant: the file is long enough for the region of \<open>tid\<close> and the local queue is
  there.\<close>

definition mm_repaired :: "nat \<Rightarrow> mm \<Rightarrow> bool" where
  "mm_repaired tid s \<longleftrightarrow> 24 * (mm_map (mm_tldata s tid) + mm_COUNT + 5) \<le> backed s \<and>
     mm_tlq (mm_tldata s tid) \<noteq> None"

text \<open>The region of \<open>tid\<close>: its cells before and after.\<close>

definition cell_value :: "mm \<Rightarrow> nat \<Rightarrow> nat \<Rightarrow> u64" where
  "cell_value s tid i = pk_value (mm_cells s (mm_map (mm_tldata s tid) + i))"

lemma write_value_ok: "24 * i + 16 \<le> backed s \<Longrightarrow>
    write_value i v s = Some (Inr ((), s\<lparr>mm_cells := (mm_cells s)(i := (mm_cells s i)\<lparr>pk_value := v\<rparr>)\<rparr>))"
  by (simp add: write_value_def reach_ok bindP_ret modify_apply)

lemma read_value_ok: "24 * i + 16 \<le> backed s \<Longrightarrow> read_value i s = Some (Inr (pk_value (mm_cells s i), s))"
  by (simp add: read_value_def reach_ok bindP_ret getP_apply)

lemma set_thread_apply: "set_thread tid f s = Some (Inr ((), s\<lparr>mm_tldata := (mm_tldata s)(tid := f (mm_tldata s tid))\<rparr>))"
  by (simp add: set_thread_def modify_apply)

text \<open>The final packet on an empty queue.\<close>

definition after_final :: "nat \<Rightarrow> mm \<Rightarrow> mm" where
  "after_final tid s =
     (let d = mm_tldata s tid; m = mm_map d; p = m + unat (mm_prod_ptr d mod 1000); tot = mm_tot_prod d + 1;
          put = (\<lambda>i v c. c(i := (c i)\<lparr>pk_value := v\<rparr>))
      in s\<lparr>mm_tldata := (mm_tldata s)(tid := d\<lparr>
             mm_out := (mm_out d + 1) mod 50, mm_tlqsize := mm_tlqsize d - 1,
             mm_prod_ptr := (mm_prod_ptr d + 1) mod 1000, mm_tot_prod := tot\<rparr>),
           mm_cells := (put (m + 1001) 0 \<circ> put (m + 1004) (ucast tot) \<circ> put (m + 1000) 1 \<circ> put (m + 1003) 1 \<circ>
             put p (enc (-1))) (mm_cells s)\<rparr>)"

lemma final_filewrite:
  assumes "mm_repaired tid s" and "cell_value s tid mm_COUNT = 0"
  shows "filewrite tid 1 s = Some (Inr (0, after_final tid s))"
proof -
  have p: "unat (mm_prod_ptr (mm_tldata s tid) mod 1000) < 1000"
    by (simp add: unat_mod)
  show ?thesis
    using assms p
    by (simp add: filewrite_def mm_repaired_def cell_value_def mm_get_lock_def mm_release_lock_def bindP_getP Let_def
      write_value_ok read_value_ok bindP_ret ret_apply set_thread_apply mm_COUNT_def mm_locQ_def after_final_def)
      (simp add: add.commute)
qed

lemma finish_empty:
  assumes "mm_repaired tid s" and "cell_value s tid mm_COUNT = 0" and "mm_tlqsize (mm_tldata s tid) = 0"
  shows "mm_onThread_finish tid s = Some (Inr (0, after_final tid s))"
proof -
  have "mm_drain tid s = Some (Inr (True, s))" using assms(3) by (simp add: mm_drain.simps)
  with final_filewrite [OF assms(1,2)] show ?thesis by (simp add: mm_onThread_finish_def bindP_ret)
qed

definition after_start :: "nat \<Rightarrow> mm \<Rightarrow> mm" where
  "after_start tid s =
     (let m = mm_map (mm_tldata s tid); put = (\<lambda>i v c. c(i := (c i)\<lparr>pk_value := v\<rparr>))
      in s\<lparr>mm_cells := (put (m + 1002) 0 \<circ> put (m + 1001) 0 \<circ> put (m + 1000) 0) (mm_cells s)\<rparr>)"

lemma start_repaired:
  "mm_repaired tid s \<Longrightarrow> mm_onThread_start tid s = Some (Inr ((), after_start tid s))"
  by (simp add: mm_repaired_def mm_onThread_start_def bindP_getP bindP_ret write_value_ok mm_COUNT_def after_start_def Let_def)
    (simp add: add.commute)

definition after_log :: "nat \<Rightarrow> packet \<Rightarrow> mm \<Rightarrow> mm" where
  "after_log tid p s =
     s\<lparr>mm_tldata := (mm_tldata s)(tid := (mm_tldata s tid)\<lparr>
        mm_tlq := map_option (\<lambda>q. q(unat (mm_in (mm_tldata s tid)) := p)) (mm_tlq (mm_tldata s tid)),
        mm_in := (mm_in (mm_tldata s tid) + 1) mod 50, mm_tlqsize := mm_tlqsize (mm_tldata s tid) + 1\<rparr>)\<rparr>"

lemma log_repaired:
  "mm_repaired tid s \<Longrightarrow> mm_tlqsize (mm_tldata s tid) \<noteq> 50 \<Longrightarrow>
    mm_analysisFn tid ip v a s = Some (Inr (0, after_log tid (mk_packet ip (enc v) a) s))"
  by (auto simp: mm_repaired_def mm_analysisFn_def bindP_getP mm_locQ_def set_thread_apply bindP_ret ret_apply after_log_def)

lemma repaired_after [simp]:
  "mm_repaired tid (after_final tid s) = mm_repaired tid s" "mm_repaired tid (after_start tid s) = mm_repaired tid s"
  "mm_repaired tid (after_log tid p s) = mm_repaired tid s"
  by (auto simp: mm_repaired_def after_final_def after_start_def after_log_def Let_def)

lemma map_after [simp]:
  "mm_map (mm_tldata (after_final tid s) tid) = mm_map (mm_tldata s tid)"
  "mm_map (mm_tldata (after_start tid s) tid) = mm_map (mm_tldata s tid)"
  "mm_map (mm_tldata (after_log tid p s) tid) = mm_map (mm_tldata s tid)"
  by (simp_all add: after_final_def after_start_def after_log_def Let_def)

lemma prod_ptr_after [simp]:
  "mm_prod_ptr (mm_tldata (after_final tid s) tid) = (mm_prod_ptr (mm_tldata s tid) + 1) mod 1000"
  "mm_prod_ptr (mm_tldata (after_start tid s) tid) = mm_prod_ptr (mm_tldata s tid)"
  "mm_prod_ptr (mm_tldata (after_log tid p s) tid) = mm_prod_ptr (mm_tldata s tid)"
  by (simp_all add: after_final_def after_start_def after_log_def Let_def)

lemma mod_twice [simp]: "(w mod 1000) mod 1000 = (w mod 1000 :: u32)"
  by (rule word_unat_eqI) (simp add: unat_mod)

lemma ring_after_final: "i < 1000 \<Longrightarrow> mm_cells (after_final tid s) (mm_map (mm_tldata s tid) + i) =
    (if i = unat (mm_prod_ptr (mm_tldata s tid) mod 1000)
     then (mm_cells s (mm_map (mm_tldata s tid) + i))\<lparr>pk_value := enc (-1)\<rparr>
     else mm_cells s (mm_map (mm_tldata s tid) + i))"
  by (simp add: after_final_def Let_def)

lemma ring_after_start: "i < 1000 \<Longrightarrow>
    mm_cells (after_start tid s) (mm_map (mm_tldata s tid) + i) = mm_cells s (mm_map (mm_tldata s tid) + i)"
  by (simp add: after_start_def Let_def)

lemma ring_after_log: "mm_cells (after_log tid p s) = mm_cells s"
  by (simp add: after_log_def)

text \<open>One packet between two ends of a slot.\<close>

definition reuse_slot :: "nat \<Rightarrow> u64 \<Rightarrow> int \<Rightarrow> u64 \<Rightarrow> (mm, int) prog" where
  "reuse_slot tid ip v a = bindP (mm_onThread_finish tid) (\<lambda>_. bindP (mm_onThread_start tid) (\<lambda>_.
     bindP (mm_analysisFn tid ip v a) (\<lambda>_. mm_onThread_finish tid)))"

text \<open>even with a long enough file and allocated queues, a thread that takes over a slot loses its first
  packet: the final packet of the slot's last thread is taken off an empty local queue, whose size
  wraps around to the largest number, so that the one packet the new thread logs brings it back to 0.
  Both ends report success, two packets are counted as produced, and the ring holds the two final
  markers and otherwise what it held before.\<close>
theorem reused_slot_loses_packet:
  assumes "mm_repaired tid s" and "mm_tlqsize (mm_tldata s tid) = 0" and "cell_value s tid mm_COUNT = 0"
  defines "p \<equiv> mm_prod_ptr (mm_tldata s tid)"
  shows "\<exists>s'. reuse_slot tid ip v a s = Some (Inr (0, s')) \<and>
    mm_tlqsize (mm_tldata s' tid) = -1 \<and> mm_tot_prod (mm_tldata s' tid) = mm_tot_prod (mm_tldata s tid) + 2 \<and>
    mm_sum (mm_tldata s' tid) = mm_sum (mm_tldata s tid) \<and>
    (\<forall>i \<in> {0..<mm_COUNT}. mm_cells s' (mm_map (mm_tldata s tid) + i) =
      (if i = unat (p mod 1000) \<or> i = unat ((p + 1) mod 1000)
       then (mm_cells s (mm_map (mm_tldata s tid) + i))\<lparr>pk_value := enc (-1)\<rparr>
       else mm_cells s (mm_map (mm_tldata s tid) + i)))"
proof -
  let ?s1 = "after_final tid s"
  let ?s2 = "after_start tid ?s1"
  let ?s3 = "after_log tid (mk_packet ip (enc v) a) ?s2"
  have n: "mm_tlqsize (mm_tldata ?s2 tid) = -1" "mm_tlqsize (mm_tldata ?s3 tid) = 0"
    using assms(2) by (simp_all add: after_log_def after_start_def after_final_def Let_def)
  have q: "cell_value ?s3 tid mm_COUNT = 0"
    by (simp add: cell_value_def after_log_def after_start_def after_final_def Let_def mm_COUNT_def)
  have "reuse_slot tid ip v a s = Some (Inr (0, after_final tid ?s3))"
    using finish_empty [OF assms(1,3,2)] start_repaired [of tid ?s1] log_repaired [of tid ?s2 ip v a]
      finish_empty [of tid ?s3] n q assms(1)
    by (simp add: reuse_slot_def bindP_ret)
  moreover have "mm_tlqsize (mm_tldata (after_final tid ?s3) tid) = -1"
    "mm_tot_prod (mm_tldata (after_final tid ?s3) tid) = mm_tot_prod (mm_tldata s tid) + 2"
    "mm_sum (mm_tldata (after_final tid ?s3) tid) = mm_sum (mm_tldata s tid)"
    using n(2) by (simp_all add: after_log_def after_start_def after_final_def Let_def)
  moreover have "\<forall>i \<in> {0..<mm_COUNT}. mm_cells (after_final tid ?s3) (mm_map (mm_tldata s tid) + i) =
      (if i = unat (p mod 1000) \<or> i = unat ((p + 1) mod 1000)
       then (mm_cells s (mm_map (mm_tldata s tid) + i))\<lparr>pk_value := enc (-1)\<rparr>
       else mm_cells s (mm_map (mm_tldata s tid) + i))"
  proof
    fix i assume "i \<in> {0..<mm_COUNT}"
    then have i: "i < 1000" by (simp add: mm_COUNT_def)
    show "mm_cells (after_final tid ?s3) (mm_map (mm_tldata s tid) + i) =
      (if i = unat (p mod 1000) \<or> i = unat ((p + 1) mod 1000)
       then (mm_cells s (mm_map (mm_tldata s tid) + i))\<lparr>pk_value := enc (-1)\<rparr>
       else mm_cells s (mm_map (mm_tldata s tid) + i))"
      using ring_after_final [OF i, of tid ?s3] ring_after_start [OF i, of tid ?s1] ring_after_final [OF i, of tid s]
      by (auto simp: ring_after_log p_def)
  qed
  ultimately show ?thesis by blast
qed

theorem reused_slot_loses_packet_witness:
  "\<exists>s'. reuse_slot 0 7 1 9 \<lparr>mm_tldata = (\<lambda>_. blank_thread\<lparr>mm_tlq := Some (\<lambda>_. mk_packet 0 0 0)\<rparr>),
      mm_cells = (\<lambda>_. mk_packet 0 0 0), backed = 24576, mapped = 24576\<rparr> = Some (Inr (0, s'))
    \<and> mm_cells s' 0 = (mk_packet 0 0 0)\<lparr>pk_value := enc (-1)\<rparr>
    \<and> mm_cells s' 1 = (mk_packet 0 0 0)\<lparr>pk_value := enc (-1)\<rparr> \<and> mm_cells s' 2 = mk_packet 0 0 0"
proof -
  let ?s = "\<lparr>mm_tldata = (\<lambda>_. blank_thread\<lparr>mm_tlq := Some (\<lambda>_. mk_packet 0 0 0)\<rparr>),
      mm_cells = (\<lambda>_. mk_packet 0 0 0), backed = 24576, mapped = 24576\<rparr>"
  have "mm_repaired 0 ?s" by (simp add: mm_repaired_def blank_thread_def mm_COUNT_def)
  moreover have "cell_value ?s 0 mm_COUNT = 0" by (simp add: cell_value_def mk_packet_def)
  ultimately obtain s' where r: "reuse_slot 0 7 1 9 ?s = Some (Inr (0, s'))"
    and c: "\<forall>i \<in> {0..<mm_COUNT}. mm_cells s' (mm_map (mm_tldata ?s 0) + i) =
      (if i = unat (mm_prod_ptr (mm_tldata ?s 0) mod 1000) \<or> i = unat ((mm_prod_ptr (mm_tldata ?s 0) + 1) mod 1000)
       then (mm_cells ?s (mm_map (mm_tldata ?s 0) + i))\<lparr>pk_value := enc (-1)\<rparr>
       else mm_cells ?s (mm_map (mm_tldata ?s 0) + i))"
    using reused_slot_loses_packet [of 0 ?s 7 1 9] by (auto simp: blank_thread_def)
  have "unat (1 mod 1000 :: u32) = 1" by (simp add: unat_mod)
  with c [THEN bspec, of 0] c [THEN bspec, of 1] c [THEN bspec, of 2] r show ?thesis
    by (auto simp: mm_COUNT_def blank_thread_def unat_mod numeral_2_eq_2)
qed

end
