(* ===== verification/Network.thy ===== *)
theory Network
  imports Decimal Prog
begin

text \<open>
  The network transport (\<open>network/network.cc\<close>, \<open>network/network.h\<close>), a stub: every operation prints a line
  and reports success, no packet goes anywhere.  \<open>get_lock\<close> and \<open>release_lock\<close> are declared and
  nowhere defined, and four virtual functions of \<open>IPCBase\<close> are missing, so that no tool can construct
  it.  Of the pipe transport there are only declarations (\<open>pipe/pipe.h\<close>; \<open>pipe.cc\<close> is empty).
\<close>

record network =
  net_maxNumThreads :: int
  net_printed :: string

definition say :: "string \<Rightarrow> network \<Rightarrow> network" where
  "say line n = n\<lparr>net_printed := net_printed n @ line @ [CHR 0x0A]\<rparr>"

definition net_new :: "int \<Rightarrow> string \<Rightarrow> network" where
  "net_new maxNumApplicationThreads out = \<lparr>net_maxNumThreads = maxNumApplicationThreads, net_printed = out\<rparr>"

text \<open>The encoding is an \<open>int\<close> here: 32 bits, printed with its sign.\<close>

definition net_analysisFn :: "network \<Rightarrow> nat \<Rightarrow> u64 \<Rightarrow> 32 word \<Rightarrow> u64 \<Rightarrow> network \<times> int" where
  "net_analysisFn n tid ip val addr = (say (''analysis '' @ show_int (sint val)) n, 0)"

definition net_onThread_start :: "network \<Rightarrow> nat \<Rightarrow> network" where
  "net_onThread_start n threadid = say (''in onThread_start '' @ show_int (int threadid)) n"

definition net_onThread_finish :: "network \<Rightarrow> nat \<Rightarrow> network \<times> int" where
  "net_onThread_finish n tid = (say ''thread fini '' n, 0)"

definition net_sendPackets :: "network \<Rightarrow> nat \<Rightarrow> int \<Rightarrow> network" where
  "net_sendPackets n tid fin = say ''written '' n"

text \<open>\<open>unload\<close> is to return \<open>bool\<close> and returns nothing.\<close>

definition net_unload :: "network \<Rightarrow> network \<times> (stop + bool)" where
  "net_unload n = (n\<lparr>net_printed := net_printed n @ ''unlaod''\<rparr>, Inl Undefined)"

text \<open>Instruction pointer and address of a packet leave no trace, nor do all but the last 32 bits of its
  encoding: what is printed does not tell packets apart.\<close>

lemma network_drops_packets:
  "net_analysisFn n tid ip val addr = net_analysisFn n tid' ip' val addr'"
  "snd (net_analysisFn n tid ip val addr) = 0"
  by (simp_all add: net_analysisFn_def)

end
