(* ===== verification/Launcher.thy ===== *)
theory Launcher
  imports Prog Decimal
begin

text \<open>
  The launcher \<open>pin\<close> of the Pin kit the emulator runs on (\<open>source/launcher/\<close>: \<open>launcher_u.c\<close>,
  \<open>utils.c\<close>, and the two system files \<open>os_specific_l.c\<close> and \<open>os_specific_m.c\<close>).  Tejas starts its
  tool with it: the launcher finds the kit's directory, moves the dynamic-loader variables of the
  application out of the way, prepends the kit's own libraries, and replaces itself by \<open>pinbin\<close>.

  A launcher function is a program (theory \<open>Prog\<close>) over the process environment and the two static
  variables of \<open>IsHostArch64Bit\<close>.  The operating system and the C library of the kit are the record
  \<open>os\<close>.  A string is its characters before the terminating NUL, a pointer that may be null a
  \<open>string option\<close>; a copy into a buffer that is too small is \<open>Undefined\<close>.  \<open>free\<close> and the messages to
  the terminal are left out.
\<close>

section \<open>The system\<close>

datatype cpu_arch = Arch_INVALID | Arch_IA32 | Arch_INTEL64

record os =
  malloc :: "nat \<Rightarrow> bool"
  setenv_ok :: "string \<Rightarrow> string \<Rightarrow> bool"
  access_R :: "string \<Rightarrow> bool"
  pin_crt :: bool
  is_directory_file :: "string \<Rightarrow> bool"
  stat_regular :: "string \<Rightarrow> bool"
  proc_self_exe :: bool
  readlink_self :: "string option"
  host_cpu :: "cpu_arch option"
  realpath :: "string \<Rightarrow> string option"
  proc_pidpath :: string

record process =
  environ :: "string \<Rightarrow> string option"
  arch_checked :: bool
  host_is_64bit :: bool

type_synonym 'a launch = "(process, 'a) prog"

definition PATH_MAX :: nat where "PATH_MAX = 4096"
definition PATH_MAX_SIZE :: nat where "PATH_MAX_SIZE = 4096"

definition getenv :: "string \<Rightarrow> string option launch" where
  "getenv v = getP (\<lambda>p. environ p v)"

definition unsetenv :: "string \<Rightarrow> unit launch" where
  "unsetenv v = modify (\<lambda>p. p\<lparr>environ := (environ p)(v := None)\<rparr>)"

definition setenv :: "os \<Rightarrow> string \<Rightarrow> string \<Rightarrow> int launch" where
  "setenv os v x = (if setenv_ok os v x
     then bindP (modify (\<lambda>p. p\<lparr>environ := (environ p)(v \<mapsto> x)\<rparr>)) (\<lambda>_. ret 0) else ret (-1))"

section \<open>utils.c\<close>

text \<open>\<open>strnlen\<close> stops at \<open>PATH_MAX_SIZE\<close>, whatever the length of the string.\<close>

definition get_strlen :: "string \<Rightarrow> nat launch" where
  "get_strlen str = (let len = min (length str) PATH_MAX_SIZE in if 0 < len then ret len else stops Abort)"

definition opt_strlen :: "string option \<Rightarrow> nat launch" where
  "opt_strlen s = (case s of None \<Rightarrow> ret 0 | Some str \<Rightarrow> get_strlen str)"

definition appendPath :: "os \<Rightarrow> string option \<Rightarrow> string option \<Rightarrow> string option \<Rightarrow> string launch" where
  "appendPath os s1 s2 s3 =
     bindP (opt_strlen s1) (\<lambda>n1. bindP (opt_strlen s2) (\<lambda>n2. bindP (opt_strlen s3) (\<lambda>n3.
       let n = 1 + n1 + n2 + n3;
           p = concat (map (case_option [] id) [s1, s2, s3])
       in if \<not> malloc os n then stops Abort
          else if s1 = None \<or> n < length p + 1 then stops Undefined
          else ret p)))"

definition check_retval :: "int \<Rightarrow> unit launch" where
  "check_retval retval = whenP (retval \<noteq> 0) (stops (Exit 1))"

definition check_file_exists :: "os \<Rightarrow> string \<Rightarrow> bool" where
  "check_file_exists os fn = access_R os fn"

definition check_file :: "os \<Rightarrow> string \<Rightarrow> unit launch" where
  "check_file os fn = whenP (\<not> check_file_exists os fn) (stops (Exit 1))"

definition check_not_directory :: "os \<Rightarrow> string \<Rightarrow> bool" where
  "check_not_directory os fn = (if pin_crt os then is_directory_file os fn else stat_regular os fn)"

definition check_file_in_dir :: "os \<Rightarrow> string \<Rightarrow> string \<Rightarrow> bool launch" where
  "check_file_in_dir os fn dir = bindP (appendPath os (Some dir) (Some ''/'') (Some fn)) (\<lambda>buff.
     ret (check_file_exists os buff \<and> check_not_directory os buff))"

text \<open>The loop over the pieces of \<open>PATH\<close>; the piece behind the last colon is the call after the loop.\<close>

fun search_dirs :: "os \<Rightarrow> string \<Rightarrow> string list \<Rightarrow> string option launch" where
  "search_dirs os exename [] = ret None"
| "search_dirs os exename (dir # dirs) = bindP (check_file_in_dir os exename dir) (\<lambda>found.
     if found then ret (Some dir) else search_dirs os exename dirs)"

definition search_in_path :: "os \<Rightarrow> string \<Rightarrow> string option launch" where
  "search_in_path os exename = bindP (getenv ''PATH'') (\<lambda>env_path. case env_path of
     None \<Rightarrow> stops Abort
   | Some syspath \<Rightarrow> bindP (get_strlen syspath) (\<lambda>n. bindP (get_strlen exename) (\<lambda>m.
       if \<not> malloc os (n + m + 2) then stops Abort
       else search_dirs os exename (split_on (CHR '':'') syspath))))"

text \<open>The characters before the last \<open>c\<close>: what \<open>*strrchr(path, c) = 0\<close> leaves.\<close>

definition before_last :: "char \<Rightarrow> string \<Rightarrow> string option" where
  "before_last c s = (if c \<in> set s then Some (rev (tl (dropWhile (\<lambda>x. x \<noteq> c) (rev s)))) else None)"

definition find_base_path :: "os \<Rightarrow> string \<Rightarrow> string launch" where
  "find_base_path os filename = (case before_last (CHR ''/'') filename of
     Some path \<Rightarrow> ret path
   | None \<Rightarrow> bindP (search_in_path os filename) (\<lambda>x. case x of Some d \<Rightarrow> ret d | None \<Rightarrow> ret filename))"

section \<open>os_specific_l.c\<close>

definition IsHostArch64Bit :: "os \<Rightarrow> bool launch" where
  "IsHostArch64Bit os = bindP (getP arch_checked) (\<lambda>checked.
     if checked then getP host_is_64bit
     else bindP (modify (\<lambda>p. p\<lparr>arch_checked := True,
              host_is_64bit := (if host_cpu os = Some Arch_IA32 then False else host_is_64bit p)\<rparr>))
            (\<lambda>_. getP host_is_64bit))"

text \<open>\<open>r = setenv(v, x, overwrite); check_retval(r, ...);\<close>\<close>

definition set_checked :: "os \<Rightarrow> string \<Rightarrow> string \<Rightarrow> unit launch" where
  "set_checked os v x = bindP (setenv os v x) check_retval"

abbreviation joined :: "os \<Rightarrow> string \<Rightarrow> string \<Rightarrow> string \<Rightarrow> string launch" where
  "joined os a sep b \<equiv> appendPath os (Some a) (Some sep) (Some b)"

abbreviation prepended :: "os \<Rightarrow> string \<Rightarrow> string option \<Rightarrow> string launch" where
  "prepended os a b \<equiv> appendPath os (Some a) (Some '':'') b"

record kit_paths =
  xed_runtime_libs32 :: string
  xed_runtime_libs64 :: string
  ext_libs32 :: string
  ext_libs64 :: string
  pincrt_libs32 :: string
  pincrt_libs64 :: string

text \<open>The directories of the kit.\<close>

definition kit_directories :: "os \<Rightarrow> string \<Rightarrow> kit_paths launch" where
  "kit_directories os base_path =
     bindP (joined os base_path ''/'' ''ia32'') (\<lambda>base_path32.
     bindP (joined os base_path ''/'' ''intel64'') (\<lambda>base_path64.
     bindP (joined os base_path ''/'' ''extras'') (\<lambda>extras_path.
     bindP (joined os extras_path ''/'' ''xed-ia32'') (\<lambda>xed32.
     bindP (joined os extras_path ''/'' ''xed-intel64'') (\<lambda>xed64.
     bindP (joined os xed32 ''/'' ''lib'') (\<lambda>xlibs32.
     bindP (joined os xed64 ''/'' ''lib'') (\<lambda>xlibs64.
     bindP (joined os base_path32 ''/'' ''runtime'') (\<lambda>runtime32.
     bindP (joined os base_path64 ''/'' ''runtime'') (\<lambda>runtime64.
     bindP (joined os base_path32 ''/'' ''lib-ext'') (\<lambda>ext32.
     bindP (joined os base_path64 ''/'' ''lib-ext'') (\<lambda>ext64.
     bindP (joined os runtime32 ''/'' ''pincrt'') (\<lambda>crt32.
     bindP (joined os runtime64 ''/'' ''pincrt'') (\<lambda>crt64.
       ret \<lparr>xed_runtime_libs32 = xlibs32, xed_runtime_libs64 = xlibs64, ext_libs32 = ext32, ext_libs64 = ext64,
            pincrt_libs32 = crt32, pincrt_libs64 = crt64\<rparr>)))))))))))))"

definition set_vm_paths :: "os \<Rightarrow> kit_paths \<Rightarrow> unit launch" where
  "set_vm_paths os k =
     bindP (getenv ''PIN_VM32_LD_LIBRARY_PATH'') (\<lambda>env32.
     bindP (getenv ''PIN_VM64_LD_LIBRARY_PATH'') (\<lambda>env64.
     bindP (prepended os (xed_runtime_libs32 k) env32) (\<lambda>xed32.
     bindP (prepended os (xed_runtime_libs64 k) env64) (\<lambda>xed64.
     bindP (prepended os (ext_libs32 k) (Some xed32)) (\<lambda>ext32.
     bindP (prepended os (ext_libs64 k) (Some xed64)) (\<lambda>ext64.
     bindP (prepended os (pincrt_libs32 k) (Some ext32)) (\<lambda>path32.
     bindP (prepended os (pincrt_libs64 k) (Some ext64)) (\<lambda>path64.
       block [set_checked os ''PIN_VM32_LD_LIBRARY_PATH'' path32,
              set_checked os ''PIN_VM64_LD_LIBRARY_PATH'' path64]))))))))"

text \<open>The search paths of the injector, and the loader's own path: the result is the one for 32 and
  the one for 64 bit.\<close>

definition set_injector_paths :: "os \<Rightarrow> kit_paths \<Rightarrow> (string \<times> string) launch" where
  "set_injector_paths os k =
     bindP (getenv ''PIN_INJECTOR32_LD_LIBRARY_PATH'') (\<lambda>env32.
     bindP (getenv ''PIN_INJECTOR64_LD_LIBRARY_PATH'') (\<lambda>env64.
     bindP (prepended os (xed_runtime_libs32 k) env32) (\<lambda>xed32.
     bindP (prepended os (xed_runtime_libs64 k) env64) (\<lambda>xed64.
     bindP (prepended os (pincrt_libs32 k) (Some xed32)) (\<lambda>path32.
     bindP (prepended os (pincrt_libs64 k) (Some xed64)) (\<lambda>path64.
     bindP (block [set_checked os ''PIN_INJECTOR32_LD_LIBRARY_PATH'' path32,
                   set_checked os ''PIN_INJECTOR64_LD_LIBRARY_PATH'' path64]) (\<lambda>_.
       ret (path32, path64))))))))"

text \<open>A loader variable of the application is saved under its \<open>PIN_APP_\<close> name and removed.\<close>

definition save_and_unset :: "os \<Rightarrow> string \<Rightarrow> string \<Rightarrow> unit launch" where
  "save_and_unset os v saved = bindP (getenv v) (\<lambda>x. case x of None \<Rightarrow> ret ()
     | Some x \<Rightarrow> block [set_checked os saved x, unsetenv v])"

definition update_environment :: "os \<Rightarrow> string \<Rightarrow> unit launch" where
  "update_environment os base_path = bindP (kit_directories os base_path) (\<lambda>k. block [
     set_vm_paths os k,
     bindP (set_injector_paths os k) (\<lambda>(injector32, injector64). block [
       set_checked os ''PIN_LD_RESTORE_REQUIRED'' ''t'',
       bindP (getenv ''LD_LIBRARY_PATH'') (\<lambda>x. case x of None \<Rightarrow> ret ()
         | Some x \<Rightarrow> set_checked os ''PIN_APP_LD_LIBRARY_PATH'' x),
       bindP (IsHostArch64Bit os) (\<lambda>is64.
         set_checked os ''LD_LIBRARY_PATH'' (if is64 then injector64 else injector32)),
       save_and_unset os ''LD_ASSUME_KERNEL'' ''PIN_APP_LD_ASSUME_KERNEL'',
       save_and_unset os ''LD_BIND_NOW'' ''PIN_APP_LD_BIND_NOW'',
       save_and_unset os ''LD_PRELOAD'' ''PIN_APP_LD_PRELOAD''])])"

text \<open>\<open>readlink\<close> fills at most \<open>PATH_MAX\<close> characters and the terminating NUL goes to the index it
  returns: one past the buffer when the link is that long.\<close>

definition find_driver_name :: "os \<Rightarrow> string \<Rightarrow> string launch" where
  "find_driver_name os argv0 =
     (if \<not> proc_self_exe os then
        (let len = min (length argv0) PATH_MAX in if 0 < len \<and> len < PATH_MAX then ret argv0 else stops Abort)
      else (case readlink_self os of None \<Rightarrow> stops (Exit 1)
            | Some link \<Rightarrow> (let chars = min (length link) PATH_MAX in
                if chars < PATH_MAX then ret (take chars link) else stops Undefined)))"

text \<open>\<open>child_argv[child_argv_ind++] = x\<close> into an array of \<open>cap\<close> pointers.\<close>

definition put :: "nat \<Rightarrow> string option \<Rightarrow> string option list \<Rightarrow> string option list launch" where
  "put cap x xs = (if length xs < cap then ret (xs @ [x]) else stops Undefined)"

fun put_all :: "nat \<Rightarrow> string option list \<Rightarrow> string option list \<Rightarrow> string option list launch" where
  "put_all cap [] xs = ret xs"
| "put_all cap (y # ys) xs = bindP (put cap y xs) (put_all cap ys)"

definition build_child_argv :: "os \<Rightarrow> string \<Rightarrow> string list \<Rightarrow> string list \<Rightarrow> string option list launch" where
  "build_child_argv os base_path argv user_argv =
     (let cap = length argv + length user_argv + 4 in
      if \<not> malloc os (8 * cap) then stops Abort else
      bindP (joined os base_path ''/'' ''ia32/bin/pinbin'') (\<lambda>s1. bindP (find_driver_name os s1) (\<lambda>_.
      bindP (joined os base_path ''/'' ''intel64/bin/pinbin'') (\<lambda>s1. bindP (find_driver_name os s1) (\<lambda>_.
      bindP (IsHostArch64Bit os) (\<lambda>is64.
      bindP (joined os base_path ''/'' (if is64 then ''intel64/bin/pinbin'' else ''ia32/bin/pinbin'')) (\<lambda>first.
      bindP (put_all cap [Some first, Some (if is64 then ''-p32'' else ''-p64'')] []) (\<lambda>child_argv.
      bindP (joined os base_path ''/'' (if is64 then ''ia32/bin/pinbin'' else ''intel64/bin/pinbin'')) (\<lambda>other.
      bindP (put cap (Some other) child_argv) (\<lambda>child_argv.
      bindP (put_all cap (map Some user_argv) child_argv) (\<lambda>child_argv.
      bindP (put_all cap (map Some (tl argv)) child_argv) (\<lambda>child_argv.
        put cap None child_argv))))))))))))"

section \<open>os_specific_m.c\<close>

definition check_set_evar :: "os \<Rightarrow> string \<Rightarrow> string \<Rightarrow> int launch" where
  "check_set_evar os evar pvar = bindP (getenv evar) (\<lambda>val. case val of None \<Rightarrow> ret 0
     | Some val \<Rightarrow> bindP (setenv os pvar val) (\<lambda>_. bindP (unsetenv evar) (\<lambda>_. ret 1)))"

definition update_environment_mac :: "os \<Rightarrow> string \<Rightarrow> unit launch" where
  "update_environment_mac os base_path =
     bindP (check_set_evar os ''DYLD_LIBRARY_PATH'' ''PIN_APP_DYLD_LIBRARY_PATH'') (\<lambda>_.
     bindP (check_set_evar os ''DYLD_INSERT_LIBRARIES'' ''PIN_APP_DYLD_INSERT_LIBRARIES'') (\<lambda>_.
     bindP (check_set_evar os ''DYLD_BIND_AT_LAUNCH'' ''PIN_APP_DYLD_BIND_AT_LAUNCH'') (\<lambda>_.
     bindP (setenv os ''PIN_DYLD_RESTORE_REQUIRED'' ''t'') (\<lambda>_.
     bindP (kit_directories os base_path) (\<lambda>k.
     bindP (getenv ''PIN_VM_DYLD_LIBRARY_PATH'') (\<lambda>pin_path.
     bindP (prepended os (xed_runtime_libs32 k) pin_path) (\<lambda>pin_path.
     bindP (prepended os (xed_runtime_libs64 k) (Some pin_path)) (\<lambda>pin_path.
     bindP (prepended os (xed_runtime_libs32 k) None) (\<lambda>new_path.
     bindP (prepended os (xed_runtime_libs64 k) (Some new_path)) (\<lambda>new_path.
     bindP (prepended os (pincrt_libs32 k) (Some pin_path)) (\<lambda>pin_path.
     bindP (prepended os (pincrt_libs64 k) (Some pin_path)) (\<lambda>pin_path.
     bindP (prepended os (pincrt_libs32 k) (Some new_path)) (\<lambda>new_path.
     bindP (prepended os (pincrt_libs64 k) (Some new_path)) (\<lambda>new_path.
     bindP (prepended os (ext_libs32 k) (Some pin_path)) (\<lambda>pin_path.
     bindP (prepended os (ext_libs64 k) (Some pin_path)) (\<lambda>pin_path.
       block [set_checked os ''PIN_VM_DYLD_LIBRARY_PATH'' pin_path,
              set_checked os ''DYLD_LIBRARY_PATH'' new_path]))))))))))))))))"

definition find_driver_name_mac :: "os \<Rightarrow> string launch" where
  "find_driver_name_mac os = ret (proc_pidpath os)"

definition build_child_argv_mac :: "os \<Rightarrow> string \<Rightarrow> string list \<Rightarrow> string list \<Rightarrow> string option list launch" where
  "build_child_argv_mac os base_path argv user_argv =
     (let cap = length argv + length user_argv + 4 in
      if \<not> malloc os (8 * cap) then stops Abort else
      bindP (joined os base_path ''/'' ''intel64/bin/pinbin'') (\<lambda>first.
      bindP (put_all cap [Some first, Some ''-p32''] []) (\<lambda>child_argv.
      bindP (joined os base_path ''/'' ''ia32/bin/pinbin'') (\<lambda>other.
      bindP (put cap (Some other) child_argv) (\<lambda>child_argv.
      bindP (put_all cap (map Some user_argv) child_argv) (\<lambda>child_argv.
      bindP (put_all cap (map Some (tl argv)) child_argv) (\<lambda>child_argv.
        put cap None child_argv)))))))"

section \<open>launcher_u.c\<close>

text \<open>The hook for a launcher of a specific tool; the kit's own adds nothing.\<close>

definition build_user_argv :: "string list" where
  "build_user_argv = []"

definition update_environment_common :: "os \<Rightarrow> string \<Rightarrow> unit launch" where
  "update_environment_common os base_path = block [
     whenP (pin_crt os) (case realpath os base_path of None \<Rightarrow> ret ()
       | Some buf \<Rightarrow> if length (buf @ ''/extras/crt/tzdata'') < PATH_MAX
           then bindP (setenv os ''PIN_CRT_TZDATA'' (buf @ ''/extras/crt/tzdata'')) (\<lambda>_. ret ())
           else stops Undefined),
     update_environment os base_path]"

text \<open>The result is what \<open>execv\<close> is called with: the path and the arguments.\<close>

definition launcher_main :: "os \<Rightarrow> string list \<Rightarrow> (string option \<times> string option list) launch" where
  "launcher_main os orig_argv = (case orig_argv of [] \<Rightarrow> stops Abort
     | argv0 # _ \<Rightarrow>
       bindP (find_driver_name os argv0) (\<lambda>driver_name.
       bindP (find_base_path os driver_name) (\<lambda>base_path.
       bindP (update_environment_common os base_path) (\<lambda>_.
       bindP (build_child_argv os base_path orig_argv build_user_argv) (\<lambda>child_argv.
         ret (hd child_argv, child_argv))))))"

end
