(* ===== verification/LauncherProps.thy ===== *)
theory LauncherProps
  imports Launcher
begin

text \<open>
  What the launcher does (theory \<open>Launcher\<close>): the one string function everything is built with, the
  environment the tool and the application get, the arguments of \<open>pinbin\<close>, and where the kit is looked
  for.
\<close>

section \<open>appendPath\<close>

definition fits :: "nat \<Rightarrow> string \<Rightarrow> bool" where
  "fits n s \<longleftrightarrow> 0 < length s \<and> length s \<le> n"

definition opt_fits :: "nat \<Rightarrow> string option \<Rightarrow> bool" where
  "opt_fits n b \<longleftrightarrow> (case b of None \<Rightarrow> True | Some x \<Rightarrow> fits n x)"

lemma opt_strlen_ok: "opt_fits 4096 b \<Longrightarrow> opt_strlen b p = Some (Inr (length (case_option [] id b), p))"
  by (auto simp: opt_strlen_def get_strlen_def opt_fits_def fits_def PATH_MAX_SIZE_def ret_def split: option.splits)

lemma appendPath_ok:
  "malloc os = (\<lambda>_. True) \<Longrightarrow> fits 4096 a \<Longrightarrow> opt_fits 4096 b \<Longrightarrow> opt_fits 4096 c \<Longrightarrow>
   appendPath os (Some a) b c p = Some (Inr (a @ case_option [] id b @ case_option [] id c, p))"
  by (simp add: appendPath_def bindP_ret opt_strlen_ok ret_apply opt_fits_def [of _ "Some a"])

text \<open>C18: \<open>appendPath\<close> joins its three strings exactly when each is between 1 and \<open>PATH_MAX_SIZE\<close>
  characters long: an empty one fails the assertion of \<open>get_strlen\<close>, a longer one overflows the buffer,
  which was sized with the length cut off at \<open>PATH_MAX_SIZE\<close>.\<close>

theorem append_path_outcome:
  assumes "malloc os = (\<lambda>_. True)"
  shows "appendPath os (Some a) (Some b) (Some c) p = Some (
    if a = [] \<or> b = [] \<or> c = [] then Inl Abort
    else if length a \<le> PATH_MAX_SIZE \<and> length b \<le> PATH_MAX_SIZE \<and> length c \<le> PATH_MAX_SIZE
    then Inr (a @ b @ c, p) else Inl Undefined)"
  using assms
  by (cases "a = []"; cases "b = []"; cases "c = []")
     (auto simp: appendPath_def opt_strlen_def get_strlen_def bindP_def ret_def stops_def PATH_MAX_SIZE_def Let_def min_def)

definition demo_os :: os where
  "demo_os = \<lparr>malloc = (\<lambda>_. True), setenv_ok = (\<lambda>_ _. True), access_R = (\<lambda>f. f = ''/opt/pin/pin''), pin_crt = False,
     is_directory_file = (\<lambda>_. False), stat_regular = (\<lambda>_. True), proc_self_exe = True,
     readlink_self = Some ''/opt/pin/pin'', host_cpu = Some Arch_INTEL64, realpath = Some, proc_pidpath = ''/opt/pin/pin''\<rparr>"

definition demo_process :: process where
  "demo_process = \<lparr>environ = [''PATH'' \<mapsto> ''/bin:/opt/pin'', ''LD_PRELOAD'' \<mapsto> ''/x.so''], arch_checked = False, host_is_64bit = True\<rparr>"

theorem append_path_outcome_witness:
  "appendPath demo_os (Some ''/opt'') (Some ''/'') (Some ''pin'') demo_process = Some (Inr (''/opt/pin'', demo_process))
   \<and> appendPath demo_os (Some ''/opt'') (Some '':'') (Some '''') demo_process = Some (Inl Abort)"
proof -
  have m: "malloc demo_os = (\<lambda>_. True)" by (simp add: demo_os_def)
  show ?thesis by (simp add: append_path_outcome [OF m] PATH_MAX_SIZE_def)
qed

section \<open>The environment\<close>

definition with_rest :: "string \<Rightarrow> string option \<Rightarrow> string" where
  "with_rest a b = a @ '':'' @ case_option [] id b"

lemma with_rest_bound: "opt_fits n b \<Longrightarrow> length (with_rest a b) \<le> length a + 1 + n"
  by (auto simp: with_rest_def opt_fits_def fits_def split: option.splits)

lemma with_rest_length: "length (with_rest a b) = length a + 1 + length (case_option [] id b)"
  by (simp add: with_rest_def)

lemma opt_fits_length: "opt_fits n b \<Longrightarrow> length (case_option [] id b) \<le> n"
  by (auto simp: opt_fits_def fits_def split: option.splits)

lemma prepended_ok:
  "malloc os = (\<lambda>_. True) \<Longrightarrow> fits 4096 a \<Longrightarrow> opt_fits 4096 b \<Longrightarrow>
   prepended os a b p = Some (Inr (with_rest a b, p))"
  by (subst appendPath_ok) (auto simp: with_rest_def opt_fits_def fits_def)

lemma joined_ok:
  "malloc os = (\<lambda>_. True) \<Longrightarrow> fits 4096 a \<Longrightarrow> fits 4096 s \<Longrightarrow> fits 4096 b \<Longrightarrow>
   joined os a s b p = Some (Inr (a @ s @ b, p))"
  by (subst appendPath_ok) (auto simp: opt_fits_def)

lemma set_checked_ok:
  "setenv_ok os = (\<lambda>_ _. True) \<Longrightarrow>
   set_checked os v x p = Some (Inr ((), p\<lparr>environ := (environ p)(v \<mapsto> x)\<rparr>))"
  by (simp add: set_checked_def setenv_def check_retval_def prog_simps)

definition copied :: "string \<Rightarrow> string \<Rightarrow> (string \<Rightarrow> string option) \<Rightarrow> string \<Rightarrow> string option" where
  "copied v s e = (case e v of None \<Rightarrow> e | Some x \<Rightarrow> e(s \<mapsto> x))"

definition moved :: "string \<Rightarrow> string \<Rightarrow> (string \<Rightarrow> string option) \<Rightarrow> string \<Rightarrow> string option" where
  "moved v s e = (case e v of None \<Rightarrow> e | Some x \<Rightarrow> e(s \<mapsto> x, v := None))"

lemma save_and_unset_ok:
  "setenv_ok os = (\<lambda>_ _. True) \<Longrightarrow>
   save_and_unset os v s p = Some (Inr ((), p\<lparr>environ := moved v s (environ p)\<rparr>))"
  by (cases "environ p v") (simp_all add: save_and_unset_def getenv_def unsetenv_def set_checked_ok moved_def prog_simps)

text \<open>The kit's directories and search paths, as functions of the kit's directory.\<close>

definition kit_of :: "string \<Rightarrow> kit_paths" where
  "kit_of b = \<lparr>xed_runtime_libs32 = b @ ''/extras/xed-ia32/lib'', xed_runtime_libs64 = b @ ''/extras/xed-intel64/lib'',
     ext_libs32 = b @ ''/ia32/lib-ext'', ext_libs64 = b @ ''/intel64/lib-ext'',
     pincrt_libs32 = b @ ''/ia32/runtime/pincrt'', pincrt_libs64 = b @ ''/intel64/runtime/pincrt''\<rparr>"

definition vm32_path :: "string \<Rightarrow> string option \<Rightarrow> string" where
  "vm32_path b e = with_rest (pincrt_libs32 (kit_of b)) (Some (with_rest (ext_libs32 (kit_of b))
     (Some (with_rest (xed_runtime_libs32 (kit_of b)) e))))"

definition vm64_path :: "string \<Rightarrow> string option \<Rightarrow> string" where
  "vm64_path b e = with_rest (pincrt_libs64 (kit_of b)) (Some (with_rest (ext_libs64 (kit_of b))
     (Some (with_rest (xed_runtime_libs64 (kit_of b)) e))))"

definition injector32_path :: "string \<Rightarrow> string option \<Rightarrow> string" where
  "injector32_path b e = with_rest (pincrt_libs32 (kit_of b)) (Some (with_rest (xed_runtime_libs32 (kit_of b)) e))"

definition injector64_path :: "string \<Rightarrow> string option \<Rightarrow> string" where
  "injector64_path b e = with_rest (pincrt_libs64 (kit_of b)) (Some (with_rest (xed_runtime_libs64 (kit_of b)) e))"

lemma kit_directories_ok:
  "malloc os = (\<lambda>_. True) \<Longrightarrow> fits 500 b \<Longrightarrow> kit_directories os b p = Some (Inr (kit_of b, p))"
  by (simp add: kit_directories_def joined_ok fits_def bindP_ret ret_apply kit_of_def)

lemma opt_fits_mono: "opt_fits n b \<Longrightarrow> n \<le> m \<Longrightarrow> opt_fits m b"
  by (auto simp: opt_fits_def fits_def split: option.splits)

lemma fits_with_rest: "opt_fits n b \<Longrightarrow> length a + 1 + n \<le> m \<Longrightarrow> opt_fits m (Some (with_rest a b))"
  by (auto simp: opt_fits_def fits_def with_rest_def split: option.splits)


lemma set_vm_paths_ok:
  assumes m: "malloc os = (\<lambda>_. True)" and se: "setenv_ok os = (\<lambda>_ _. True)" and b: "fits 500 b"
    and e: "opt_fits 2000 (environ p ''PIN_VM32_LD_LIBRARY_PATH'')"
           "opt_fits 2000 (environ p ''PIN_VM64_LD_LIBRARY_PATH'')"
  shows "set_vm_paths os (kit_of b) p = Some (Inr ((), p\<lparr>environ := (environ p)
     (''PIN_VM32_LD_LIBRARY_PATH'' \<mapsto> vm32_path b (environ p ''PIN_VM32_LD_LIBRARY_PATH''),
      ''PIN_VM64_LD_LIBRARY_PATH'' \<mapsto> vm64_path b (environ p ''PIN_VM64_LD_LIBRARY_PATH''))\<rparr>))"
proof -
  have f: "fits 4096 (xed_runtime_libs32 (kit_of b))" "fits 4096 (xed_runtime_libs64 (kit_of b))"
    "fits 4096 (ext_libs32 (kit_of b))" "fits 4096 (ext_libs64 (kit_of b))"
    "fits 4096 (pincrt_libs32 (kit_of b))" "fits 4096 (pincrt_libs64 (kit_of b))"
    using b by (simp_all add: kit_of_def fits_def)
  have o0: "opt_fits 4096 (environ p ''PIN_VM32_LD_LIBRARY_PATH'')" "opt_fits 4096 (environ p ''PIN_VM64_LD_LIBRARY_PATH'')"
    using e by (auto elim: opt_fits_mono)
  have o1: "opt_fits 2600 (Some (with_rest (xed_runtime_libs32 (kit_of b)) (environ p ''PIN_VM32_LD_LIBRARY_PATH'')))"
    "opt_fits 2600 (Some (with_rest (xed_runtime_libs64 (kit_of b)) (environ p ''PIN_VM64_LD_LIBRARY_PATH'')))"
    using e b by (auto intro!: fits_with_rest [where n = 2000] simp: kit_of_def fits_def)
  have o2: "opt_fits 4096 (Some (with_rest (ext_libs32 (kit_of b)) (Some (with_rest (xed_runtime_libs32 (kit_of b)) (environ p ''PIN_VM32_LD_LIBRARY_PATH'')))))"
    "opt_fits 4096 (Some (with_rest (ext_libs64 (kit_of b)) (Some (with_rest (xed_runtime_libs64 (kit_of b)) (environ p ''PIN_VM64_LD_LIBRARY_PATH'')))))"
    using o1 b by (auto intro!: fits_with_rest [where n = 2600] simp: kit_of_def fits_def)
  have o1': "opt_fits 4096 (Some (with_rest (xed_runtime_libs32 (kit_of b)) (environ p ''PIN_VM32_LD_LIBRARY_PATH'')))"
    "opt_fits 4096 (Some (with_rest (xed_runtime_libs64 (kit_of b)) (environ p ''PIN_VM64_LD_LIBRARY_PATH'')))"
    using o1 by (auto elim: opt_fits_mono)
  show ?thesis
    by (simp add: set_vm_paths_def getenv_def bindP_getP prepended_ok [OF m] f o0 o1' o2 bindP_ret
        set_checked_ok [OF se] vm32_path_def vm64_path_def)
qed

lemma set_injector_paths_ok:
  assumes m: "malloc os = (\<lambda>_. True)" and se: "setenv_ok os = (\<lambda>_ _. True)" and b: "fits 500 b"
    and e: "opt_fits 2000 (environ p ''PIN_INJECTOR32_LD_LIBRARY_PATH'')"
           "opt_fits 2000 (environ p ''PIN_INJECTOR64_LD_LIBRARY_PATH'')"
  shows "set_injector_paths os (kit_of b) p =
    (let i32 = injector32_path b (environ p ''PIN_INJECTOR32_LD_LIBRARY_PATH'');
         i64 = injector64_path b (environ p ''PIN_INJECTOR64_LD_LIBRARY_PATH'')
     in Some (Inr ((i32, i64), p\<lparr>environ := (environ p)
       (''PIN_INJECTOR32_LD_LIBRARY_PATH'' \<mapsto> i32, ''PIN_INJECTOR64_LD_LIBRARY_PATH'' \<mapsto> i64)\<rparr>)))"
proof -
  have f: "fits 4096 (xed_runtime_libs32 (kit_of b))" "fits 4096 (xed_runtime_libs64 (kit_of b))"
    "fits 4096 (pincrt_libs32 (kit_of b))" "fits 4096 (pincrt_libs64 (kit_of b))"
    using b by (simp_all add: kit_of_def fits_def)
  have o0: "opt_fits 4096 (environ p ''PIN_INJECTOR32_LD_LIBRARY_PATH'')" "opt_fits 4096 (environ p ''PIN_INJECTOR64_LD_LIBRARY_PATH'')"
    using e by (auto elim: opt_fits_mono)
  have o1: "opt_fits 4096 (Some (with_rest (xed_runtime_libs32 (kit_of b)) (environ p ''PIN_INJECTOR32_LD_LIBRARY_PATH'')))"
    "opt_fits 4096 (Some (with_rest (xed_runtime_libs64 (kit_of b)) (environ p ''PIN_INJECTOR64_LD_LIBRARY_PATH'')))"
    using e b by (auto intro!: fits_with_rest [where n = 2000] simp: kit_of_def fits_def)
  show ?thesis
    by (simp add: set_injector_paths_def getenv_def bindP_getP prepended_ok [OF m] f o0 o1 bindP_ret ret_apply
        set_checked_ok [OF se] injector32_path_def injector64_path_def Let_def)
qed

definition is64 :: "os \<Rightarrow> process \<Rightarrow> bool" where
  "is64 os p \<longleftrightarrow> (if arch_checked p then host_is_64bit p else host_is_64bit p \<and> host_cpu os \<noteq> Some Arch_IA32)"

lemma IsHostArch64Bit_ok:
  "IsHostArch64Bit os p = Some (Inr (is64 os p, p\<lparr>arch_checked := True, host_is_64bit := is64 os p\<rparr>))"
  by (cases p) (auto simp: IsHostArch64Bit_def is64_def prog_simps)

text \<open>The environment the launcher leaves: \<open>e\<close> is the one it was given.\<close>

definition paths_env :: "string \<Rightarrow> (string \<Rightarrow> string option) \<Rightarrow> string \<Rightarrow> string option" where
  "paths_env b e = e
     (''PIN_VM32_LD_LIBRARY_PATH'' \<mapsto> vm32_path b (e ''PIN_VM32_LD_LIBRARY_PATH''),
      ''PIN_VM64_LD_LIBRARY_PATH'' \<mapsto> vm64_path b (e ''PIN_VM64_LD_LIBRARY_PATH''),
      ''PIN_INJECTOR32_LD_LIBRARY_PATH'' \<mapsto> injector32_path b (e ''PIN_INJECTOR32_LD_LIBRARY_PATH''),
      ''PIN_INJECTOR64_LD_LIBRARY_PATH'' \<mapsto> injector64_path b (e ''PIN_INJECTOR64_LD_LIBRARY_PATH''),
      ''PIN_LD_RESTORE_REQUIRED'' \<mapsto> ''t'')"

definition launched_env :: "string \<Rightarrow> bool \<Rightarrow> (string \<Rightarrow> string option) \<Rightarrow> string \<Rightarrow> string option" where
  "launched_env b host64 e =
     moved ''LD_PRELOAD'' ''PIN_APP_LD_PRELOAD'' (moved ''LD_BIND_NOW'' ''PIN_APP_LD_BIND_NOW''
       (moved ''LD_ASSUME_KERNEL'' ''PIN_APP_LD_ASSUME_KERNEL''
         ((copied ''LD_LIBRARY_PATH'' ''PIN_APP_LD_LIBRARY_PATH'' (paths_env b e))
            (''LD_LIBRARY_PATH'' \<mapsto> if host64 then injector64_path b (e ''PIN_INJECTOR64_LD_LIBRARY_PATH'')
                                    else injector32_path b (e ''PIN_INJECTOR32_LD_LIBRARY_PATH'')))))"

lemma update_environment_ok:
  assumes m: "malloc os = (\<lambda>_. True)" and se: "setenv_ok os = (\<lambda>_ _. True)" and b: "fits 500 b"
    and e: "opt_fits 2000 (environ p ''PIN_VM32_LD_LIBRARY_PATH'')"
           "opt_fits 2000 (environ p ''PIN_VM64_LD_LIBRARY_PATH'')"
           "opt_fits 2000 (environ p ''PIN_INJECTOR32_LD_LIBRARY_PATH'')"
           "opt_fits 2000 (environ p ''PIN_INJECTOR64_LD_LIBRARY_PATH'')"
  shows "update_environment os b p = Some (Inr ((),
     p\<lparr>environ := launched_env b (is64 os p) (environ p), arch_checked := True, host_is_64bit := is64 os p\<rparr>))"
proof -
  have k: "bindP (getP (\<lambda>p. environ p v)) (\<lambda>x. case x of None \<Rightarrow> ret () | Some x \<Rightarrow> set_checked os s x) q =
      Some (Inr ((), q\<lparr>environ := copied v s (environ q)\<rparr>))" for v s q
    by (cases "environ q v") (simp_all add: prog_simps set_checked_ok [OF se] copied_def)
  have i: "is64 os (p\<lparr>environ := e\<rparr>) = is64 os p" for e by (simp add: is64_def)
  show ?thesis
    by (simp add: update_environment_def bindP_ret kit_directories_ok [OF m b] set_vm_paths_ok [OF m se b e(1,2)]
        set_injector_paths_ok [OF m se b] e Let_def set_checked_ok [OF se] getenv_def k IsHostArch64Bit_ok i
        save_and_unset_ok [OF se] launched_env_def paths_env_def)
qed

lemma moved_same: "moved v s e v = None"
  by (auto simp: moved_def split: option.splits)

lemma moved_saved: "e v = Some x \<Longrightarrow> s \<noteq> v \<Longrightarrow> moved v s e s = Some x"
  by (simp add: moved_def)

lemma moved_other: "u \<noteq> v \<Longrightarrow> u \<noteq> s \<Longrightarrow> moved v s e u = e u"
  by (auto simp: moved_def split: option.splits)

lemma copied_saved: "e v = Some x \<Longrightarrow> copied v s e s = Some x"
  by (simp add: copied_def)

lemma copied_other: "u \<noteq> s \<Longrightarrow> copied v s e u = e u"
  by (auto simp: copied_def split: option.splits)

definition launcher_variables :: "string list" where
  "launcher_variables =
     [''PIN_VM32_LD_LIBRARY_PATH'', ''PIN_VM64_LD_LIBRARY_PATH'', ''PIN_INJECTOR32_LD_LIBRARY_PATH'',
      ''PIN_INJECTOR64_LD_LIBRARY_PATH'', ''PIN_LD_RESTORE_REQUIRED'', ''LD_LIBRARY_PATH'',
      ''LD_ASSUME_KERNEL'', ''LD_BIND_NOW'', ''LD_PRELOAD'', ''PIN_APP_LD_LIBRARY_PATH'',
      ''PIN_APP_LD_ASSUME_KERNEL'', ''PIN_APP_LD_BIND_NOW'', ''PIN_APP_LD_PRELOAD'']"

lemma launched_env_untouched: "v \<notin> set launcher_variables \<Longrightarrow> launched_env b w e v = e v"
  by (simp add: launcher_variables_def launched_env_def moved_other copied_other paths_env_def)

lemma launched_env_hidden:
  "v \<in> {''LD_PRELOAD'', ''LD_BIND_NOW'', ''LD_ASSUME_KERNEL''} \<Longrightarrow> launched_env b w e v = None"
  by (auto simp: launched_env_def moved_same moved_other)

lemma launched_env_saved:
  "v \<in> {''LD_PRELOAD'', ''LD_BIND_NOW'', ''LD_ASSUME_KERNEL'', ''LD_LIBRARY_PATH''} \<Longrightarrow> e v = Some x \<Longrightarrow>
   launched_env b w e (''PIN_APP_'' @ v) = Some x"
  by (auto simp: launched_env_def moved_saved moved_other copied_saved copied_other paths_env_def)

lemma launched_env_paths:
  "launched_env b w e ''LD_LIBRARY_PATH'' = Some (if w then injector64_path b (e ''PIN_INJECTOR64_LD_LIBRARY_PATH'')
     else injector32_path b (e ''PIN_INJECTOR32_LD_LIBRARY_PATH''))"
  "launched_env b w e ''PIN_VM32_LD_LIBRARY_PATH'' = Some (vm32_path b (e ''PIN_VM32_LD_LIBRARY_PATH''))"
  "launched_env b w e ''PIN_VM64_LD_LIBRARY_PATH'' = Some (vm64_path b (e ''PIN_VM64_LD_LIBRARY_PATH''))"
  "launched_env b w e ''PIN_LD_RESTORE_REQUIRED'' = Some ''t''"
  by (simp_all add: launched_env_def moved_other copied_other paths_env_def)

definition sane_system :: "os \<Rightarrow> process \<Rightarrow> bool" where
  "sane_system os p \<longleftrightarrow> malloc os = (\<lambda>_. True) \<and> setenv_ok os = (\<lambda>_ _. True) \<and>
     (\<forall>v \<in> set (take 4 launcher_variables). opt_fits 2000 (environ p v))"


lemma demo_sane: "sane_system demo_os demo_process" "is64 demo_os demo_process" "fits 500 ''/opt/pin''"
  by (simp_all add: sane_system_def demo_os_def demo_process_def launcher_variables_def opt_fits_def is64_def fits_def)


section \<open>The arguments of pinbin\<close>

lemma put_all_ok:
  "length xs + length ys \<le> cap \<Longrightarrow> put_all cap ys xs p = Some (Inr (xs @ ys, p))"
  by (induction ys arbitrary: xs) (simp_all add: ret_apply put_def bindP_ret)

definition driver_ok :: "os \<Rightarrow> string \<Rightarrow> bool" where
  "driver_ok os link \<longleftrightarrow> proc_self_exe os \<and> readlink_self os = Some link \<and> length link < PATH_MAX"

lemma find_driver_name_ok: "driver_ok os link \<Longrightarrow> find_driver_name os a p = Some (Inr (link, p))"
  by (simp add: driver_ok_def find_driver_name_def ret_def Let_def min_def)

definition pinbin_args :: "bool \<Rightarrow> string \<Rightarrow> string list" where
  "pinbin_args w b = (if w then [b @ ''/intel64/bin/pinbin'', ''-p32'', b @ ''/ia32/bin/pinbin'']
                      else [b @ ''/ia32/bin/pinbin'', ''-p64'', b @ ''/intel64/bin/pinbin''])"

lemma build_child_argv_ok:
  assumes m: "malloc os = (\<lambda>_. True)" and d: "driver_ok os link" and b: "fits 500 b"
  shows "build_child_argv os b argv user p = Some (Inr (map Some (pinbin_args (is64 os p) b @ user @ tl argv) @ [None],
           p\<lparr>arch_checked := True, host_is_64bit := is64 os p\<rparr>))"
proof -
  have l: "length argv - Suc 0 < Suc (length argv)" by simp
  show ?thesis using b
    by (simp add: l build_child_argv_def m Let_def bindP_ret joined_ok [OF m] fits_def find_driver_name_ok [OF d]
        IsHostArch64Bit_ok put_all_ok put_def ret_apply pinbin_args_def)
qed

lemma before_last_eq: "c \<notin> set t \<Longrightarrow> before_last c (s @ c # t) = Some s"
proof -
  assume "c \<notin> set t"
  then have "dropWhile (\<lambda>x. x \<noteq> c) (rev t @ c # rev s) = c # rev s"
    by (subst dropWhile_append2) auto
  then show ?thesis by (simp add: before_last_def)
qed



section \<open>The search through PATH\<close>

definition hit :: "os \<Rightarrow> string \<Rightarrow> string \<Rightarrow> bool" where
  "hit os exename dir \<longleftrightarrow> check_file_exists os (dir @ ''/'' @ exename) \<and> check_not_directory os (dir @ ''/'' @ exename)"

lemma check_file_in_dir_eq:
  assumes m: "malloc os = (\<lambda>_. True)" and e: "fits 4096 exename"
  shows "check_file_in_dir os exename dir p = Some (if dir = [] then Inl Abort
     else if PATH_MAX_SIZE < length dir then Inl Undefined else Inr (hit os exename dir, p))"
  using e by (simp add: check_file_in_dir_def bindP_def append_path_outcome [OF m] ret_def hit_def fits_def PATH_MAX_SIZE_def not_less)

lemma search_dirs_eq:
  assumes m: "malloc os = (\<lambda>_. True)" and e: "fits 4096 exename"
  shows "search_dirs os exename dirs p =
    Some (case dropWhile (\<lambda>d. fits 4096 d \<and> \<not> hit os exename d) dirs of
      [] \<Rightarrow> Inr (None, p)
    | d # _ \<Rightarrow> if d = [] then Inl Abort else if PATH_MAX_SIZE < length d then Inl Undefined else Inr (Some d, p))"
  by (induction dirs)
     (auto simp: ret_apply bindP_def check_file_in_dir_eq [OF m e] fits_def PATH_MAX_SIZE_def not_less)

text \<open>the launcher takes the first directory of \<open>PATH\<close> in which the file is accepted, and none if
  there is no such directory; but an empty element in front of it (which stands for the current directory)
  aborts the launcher, and an element longer than \<open>PATH_MAX_SIZE\<close> overflows a buffer.\<close>

theorem path_search_outcome:
  assumes m: "malloc os = (\<lambda>_. True)" and e: "fits 4096 exename"
    and path: "environ p ''PATH'' = Some path" "path \<noteq> []"
  shows "search_in_path os exename p =
    Some (case dropWhile (\<lambda>d. fits 4096 d \<and> \<not> hit os exename d) (split_on (CHR '':'') path) of
      [] \<Rightarrow> Inr (None, p)
    | d # _ \<Rightarrow> if d = [] then Inl Abort else if PATH_MAX_SIZE < length d then Inl Undefined else Inr (Some d, p))"
proof -
  have l: "get_strlen s p = Some (Inr (min (length s) PATH_MAX_SIZE, p))" if "s \<noteq> []" for s
    using that by (simp add: get_strlen_def ret_def PATH_MAX_SIZE_def Let_def)
  have "exename \<noteq> []" using e by (auto simp: fits_def)
  then show ?thesis
    by (simp add: search_in_path_def getenv_def bindP_getP path bindP_ret l m search_dirs_eq [OF m e])
qed

theorem path_search_outcome_witness:
  "search_in_path demo_os ''pin'' demo_process = Some (Inr (Some ''/opt/pin'', demo_process))
   \<and> search_in_path demo_os ''pin'' (demo_process\<lparr>environ := [''PATH'' \<mapsto> ''/bin::/opt/pin'']\<rparr>) = Some (Inl Abort)"
proof -
  have m: "malloc demo_os = (\<lambda>_. True)" and e: "fits 4096 ''pin''" by (simp_all add: demo_os_def fits_def)
  have p: "environ demo_process ''PATH'' = Some ''/bin:/opt/pin''"
    "environ (demo_process\<lparr>environ := [''PATH'' \<mapsto> ''/bin::/opt/pin'']\<rparr>) ''PATH'' = Some ''/bin::/opt/pin''"
    by (simp_all add: demo_process_def)
  have h: "\<not> hit demo_os ''pin'' ''/bin''" "hit demo_os ''pin'' ''/opt/pin''"
    by (simp_all add: hit_def demo_os_def check_file_exists_def check_not_directory_def)
  show ?thesis
    using path_search_outcome [OF m e p(1)] path_search_outcome [OF m e p(2)]
    by (simp add: h fits_def PATH_MAX_SIZE_def)
qed

end
