(* ===== verification/OtherTools.thy ===== *)
theory OtherTools
  imports Instrumentation
begin

text \<open>
  The three older Pin tools beside \<open>causalityTool.cpp\<close>: \<open>PgmInstrumentor.cpp\<close> (sends memory accesses
  and branches, can skip a prefix of the run), \<open>prelimcausalityTool.cpp\<close> and \<open>printingTool.cpp\<close> (only
  count and print; their calls of the transport are commented out).  Names are prefixed \<open>pi_\<close>, \<open>pre_\<close>
  and \<open>pt_\<close>.  They were written against an older \<open>IPCBase.h\<close>: \<open>onThread_finish\<close> had one argument, and
  \<open>MaxNumThreads\<close>, no longer defined there, is the argument \<open>maxN\<close>.  The lines they print are kept as a
  list.  The \<open>ASSERT\<close> of Pin ends the process (\<open>Abort\<close>).
\<close>

section \<open>Instrumentation, common to the three tools\<close>

datatype old_call = O_CountIns | O_BrnFun | O_RecordMemRead nat | O_RecordMemWrite nat
  | O_FunEntry int | O_FunExit int

record old_ins =
  is_branch_or_call :: bool
  old_operands :: "(bool \<times> bool) list"

definition old_memory_calls :: "nat \<Rightarrow> bool \<times> bool \<Rightarrow> old_call list" where
  "old_memory_calls memOp rw = (if fst rw then [O_RecordMemRead memOp] else [])
     @ (if snd rw then [O_RecordMemWrite memOp] else [])"

definition branch_and_memory :: "old_ins \<Rightarrow> old_call list" where
  "branch_and_memory i = (if is_branch_or_call i then [O_BrnFun] else [])
     @ concat (map (\<lambda>memOp. old_memory_calls memOp (old_operands i ! memOp)) [0..<length (old_operands i)])"

text \<open>The code of a routine, from its name, and the calls around it; the tools differ in what the
  exit call is given, not in its code.\<close>

definition old_routine_code :: "string \<Rightarrow> int" where
  "old_routine_code n =
     (if contains ''pthread_cond_broadcast'' n then BCAST
      else if contains ''pthread_cond_signal'' n then SIGNAL
      else if contains ''pthread_mutex_lock'' n then LOCK
      else if contains ''pthread_mutex_unlock_'' n then UNLOCK
      else if contains ''pthread_join'' n then JOIN
      else if contains ''pthread_cond_wait'' n then CONDWAIT
      else if contains ''pthread_barrier_wait'' n then BARRIERWAIT
      else -1)"

definition old_FlagRtn :: "bool \<Rightarrow> string \<Rightarrow> old_call list" where
  "old_FlagRtn valid n = (let encode = old_routine_code n in
     if encode \<noteq> -1 \<and> valid then [O_FunEntry encode, O_FunExit (encode + 1)] else [])"

definition realtime :: "u64 \<Rightarrow> u64 \<Rightarrow> u64" where
  "realtime tv_sec tv_nsec = tv_sec * 1000000000 + tv_nsec"

section \<open>PgmInstrumentor.cpp\<close>

record 'c pgm =
  pi_lock :: bool
  pi_numThreads :: int
  pi_checkSum :: u64
  pi_numIns :: u64
  pi_numInsToIgnore :: u64
  pi_ignoreActive :: bool
  pi_tst :: 'c

definition pi_ThreadStart :: "nat \<Rightarrow> 'c ipc \<Rightarrow> nat \<Rightarrow> ('c pgm, unit) prog" where
  "pi_ThreadStart maxN I threadid = block [
     (\<lambda>t. if pi_lock t then None else Some (Inr ((), t\<lparr>pi_lock := True\<rparr>))),
     modify (\<lambda>t. t\<lparr>pi_numThreads := pi_numThreads t + 1\<rparr>),
     modify (\<lambda>t. t\<lparr>pi_lock := False\<rparr>),
     bindP (getP pi_numThreads) (\<lambda>k. whenP (\<not> k \<le> int maxN) (stops Abort)),
     modify (\<lambda>t. t\<lparr>pi_tst := op_onThread_start I (pi_tst t) threadid\<rparr>)]"

definition pi_loop :: "('c \<Rightarrow> (stop + 'c) option) \<Rightarrow> ('c pgm, unit) prog" where
  "pi_loop l = (\<lambda>t. case l (pi_tst t) of None \<Rightarrow> None | Some (Inl e) \<Rightarrow> Some (Inl e)
                    | Some (Inr c) \<Rightarrow> Some (Inr ((), t\<lparr>pi_tst := c\<rparr>)))"

text \<open>\<open>fin\<close> is the one-argument \<open>onThread_finish\<close> the tool calls.\<close>

definition pi_ThreadFini :: "('c \<Rightarrow> nat \<Rightarrow> stop + ('c \<times> int)) \<Rightarrow> 'c ipc \<Rightarrow> nat \<Rightarrow> ('c pgm, unit) prog" where
  "pi_ThreadFini fin I tid = pi_loop (until_sent (\<lambda>c. Some (fin c tid)) (PIN_Yield I))"

text \<open>The body the five recording callbacks share: the checksum, then the busy loop.\<close>

definition pi_report :: "'c ipc \<Rightarrow> nat \<Rightarrow> u64 \<Rightarrow> u64 \<Rightarrow> u64 \<Rightarrow> ('c pgm, unit) prog" where
  "pi_report I tid ip code tgt = block [
     modify (\<lambda>t. t\<lparr>pi_checkSum := pi_checkSum t + code\<rparr>),
     pi_loop (send_loop I tid (MASK AND ip) code (MASK AND tgt))]"

definition pi_RecordMemRead :: "'c ipc \<Rightarrow> nat \<Rightarrow> u64 \<Rightarrow> u64 \<Rightarrow> ('c pgm, unit) prog" where
  "pi_RecordMemRead I tid ip addr = bindP (getP pi_ignoreActive) (\<lambda>ign. if ign then ret () else pi_report I tid ip 2 addr)"

definition pi_RecordMemWrite :: "'c ipc \<Rightarrow> nat \<Rightarrow> u64 \<Rightarrow> u64 \<Rightarrow> ('c pgm, unit) prog" where
  "pi_RecordMemWrite I tid ip addr = bindP (getP pi_ignoreActive) (\<lambda>ign. if ign then ret () else pi_report I tid ip 3 addr)"

definition pi_BrnFun :: "'c ipc \<Rightarrow> nat \<Rightarrow> u64 \<Rightarrow> bool \<Rightarrow> u64 \<Rightarrow> ('c pgm, unit) prog" where
  "pi_BrnFun I tid tadr taken ip = bindP (getP pi_ignoreActive) (\<lambda>ign. if ign then ret ()
     else if taken then pi_report I tid ip 4 tadr else pi_report I tid ip 5 tadr)"

definition pi_RegValRead :: "'c ipc \<Rightarrow> nat \<Rightarrow> u64 \<Rightarrow> u64 \<Rightarrow> ('c pgm, unit) prog" where
  "pi_RegValRead I tid ip reg = bindP (getP pi_ignoreActive) (\<lambda>ign. if ign then ret () else pi_report I tid ip 6 reg)"

definition pi_RegValWrite :: "'c ipc \<Rightarrow> nat \<Rightarrow> u64 \<Rightarrow> u64 \<Rightarrow> ('c pgm, unit) prog" where
  "pi_RegValWrite I tid ip reg = bindP (getP pi_ignoreActive) (\<lambda>ign. if ign then ret () else pi_report I tid ip 7 reg)"

definition pi_CountIns :: "('c pgm, unit) prog" where
  "pi_CountIns = bindP (getP pi_ignoreActive) (\<lambda>ign. if \<not> ign then ret () else
     modify (\<lambda>t. let t = t\<lparr>pi_numIns := pi_numIns t + 1\<rparr> in
       if pi_numIns t > pi_numInsToIgnore t then t\<lparr>pi_ignoreActive := False\<rparr> else t))"

definition pi_Instruction :: "old_ins \<Rightarrow> ('c pgm, old_call list) prog" where
  "pi_Instruction i = bindP (getP pi_ignoreActive) (\<lambda>ign.
     ret ((if ign then [O_CountIns] else []) @ branch_and_memory i))"

definition pi_Fini :: "'c ipc \<Rightarrow> ('c pgm, unit) prog" where
  "pi_Fini I = modify (\<lambda>t. t\<lparr>pi_tst := op_unload I (pi_tst t)\<rparr>)"

text \<open>\<open>None\<close> is the usage message.  \<open>new_Shm\<close> is the constructor with the id; the affinity mask is
  the operating system's business.\<close>

definition pi_main :: "bool \<Rightarrow> u64 \<Rightarrow> (u64 \<Rightarrow> 'c) \<Rightarrow> u64 \<Rightarrow> 'c pgm option" where
  "pi_main bad ign new_Shm sid = (if bad then None else Some
     \<lparr>pi_lock = False, pi_numThreads = 0, pi_checkSum = 0, pi_numIns = 0, pi_numInsToIgnore = ign,
      pi_ignoreActive = (ign > 0), pi_tst = new_Shm sid\<rparr>)"

section \<open>prelimcausalityTool.cpp\<close>

datatype line = Threads int | Enters nat u32 u64 u64 | Exits nat u32 u64 u64 | Enters_named nat string u64 u64 | CheckSum u64

record pre =
  pre_lock :: bool
  pre_numThreads :: int
  pre_checkSum :: u64
  pre_out :: "line list"

definition pre_locked :: "(pre \<Rightarrow> pre) \<Rightarrow> (pre, unit) prog" where
  "pre_locked f = block [
     (\<lambda>t. if pre_lock t then None else Some (Inr ((), t\<lparr>pre_lock := True\<rparr>))),
     modify f, modify (\<lambda>t. t\<lparr>pre_lock := False\<rparr>)]"

definition pre_ThreadStart :: "nat \<Rightarrow> (pre, unit) prog" where
  "pre_ThreadStart maxN = block [
     pre_locked (\<lambda>t. t\<lparr>pre_numThreads := pre_numThreads t + 1, pre_out := pre_out t @ [Threads (pre_numThreads t + 1)]\<rparr>),
     bindP (getP pre_numThreads) (\<lambda>k. whenP (\<not> k \<le> int maxN) (stops Abort))]"

definition pre_ThreadFini :: "(pre, unit) prog" where
  "pre_ThreadFini = ret ()"

definition pre_RecordMemRead :: "(pre, unit) prog" where
  "pre_RecordMemRead = modify (\<lambda>t. t\<lparr>pre_checkSum := pre_checkSum t + enc MEMREAD\<rparr>)"

definition pre_RecordMemWrite :: "(pre, unit) prog" where
  "pre_RecordMemWrite = modify (\<lambda>t. t\<lparr>pre_checkSum := pre_checkSum t + enc MEMWRITE\<rparr>)"

text \<open>An assignment, not an addition.\<close>

definition pre_BrnFun :: "bool \<Rightarrow> (pre, unit) prog" where
  "pre_BrnFun taken = modify (\<lambda>t. t\<lparr>pre_checkSum := (if taken then enc TAKEN else enc NOTTAKEN)\<rparr>)"

definition pre_FunEntry :: "u64 \<Rightarrow> u64 \<Rightarrow> u32 \<Rightarrow> nat \<Rightarrow> (pre, unit) prog" where
  "pre_FunEntry time first_arg encode threadid = block [
     pre_locked (\<lambda>t. t\<lparr>pre_out := pre_out t @ [Enters threadid encode first_arg time]\<rparr>),
     modify (\<lambda>t. t\<lparr>pre_checkSum := pre_checkSum t + ucast encode\<rparr>)]"

definition pre_FunExit :: "u64 \<Rightarrow> u64 \<Rightarrow> u32 \<Rightarrow> nat \<Rightarrow> (pre, unit) prog" where
  "pre_FunExit time ret_value encode threadid = block [
     pre_locked (\<lambda>t. t\<lparr>pre_out := pre_out t @ [Exits threadid encode ret_value time]\<rparr>),
     modify (\<lambda>t. t\<lparr>pre_checkSum := pre_checkSum t + ucast encode\<rparr>)]"

definition pre_Fini :: "(pre, unit) prog" where
  "pre_Fini = modify (\<lambda>t. t\<lparr>pre_out := pre_out t @ [CheckSum (pre_checkSum t)]\<rparr>)"

definition pre_main :: "bool \<Rightarrow> pre option" where
  "pre_main bad = (if bad then None
     else Some \<lparr>pre_lock = False, pre_numThreads = 0, pre_checkSum = 0, pre_out = []\<rparr>)"

section \<open>printingTool.cpp\<close>

record pt =
  pt_lock :: bool
  pt_numThreads :: int
  pt_checkSum :: u64
  pt_pumpingStatus :: "nat \<Rightarrow> bool"
  pt_countPacket :: "nat \<Rightarrow> u32"
  pt_out :: "line list"

definition pt_locked :: "(pt \<Rightarrow> pt) \<Rightarrow> (pt, unit) prog" where
  "pt_locked f = block [
     (\<lambda>t. if pt_lock t then None else Some (Inr ((), t\<lparr>pt_lock := True\<rparr>))),
     modify f, modify (\<lambda>t. t\<lparr>pt_lock := False\<rparr>)]"

definition pt_add :: "u64 \<Rightarrow> (pt, unit) prog" where
  "pt_add c = pt_locked (\<lambda>t. t\<lparr>pt_checkSum := pt_checkSum t + c\<rparr>)"

definition pt_sendTimerPacket :: "nat \<Rightarrow> nat \<Rightarrow> bool \<Rightarrow> (pt, unit) prog" where
  "pt_sendTimerPacket maxN tid compulsory = (if \<not> tid < maxN then stops Undefined else
     bindP (getP (\<lambda>t. pt_countPacket t tid)) (\<lambda>n. block [
       modify (\<lambda>t. t\<lparr>pt_countPacket := (pt_countPacket t)(tid := n + 1)\<rparr>),
       whenP (n mod PacketEpoch = 0 \<or> compulsory) (block [
         pt_add (enc TIMER),
         modify (\<lambda>t. t\<lparr>pt_countPacket := (pt_countPacket t)(tid := 0)\<rparr>)])]))"

definition pt_ThreadStart :: "nat \<Rightarrow> (pt, unit) prog" where
  "pt_ThreadStart maxN = block [
     pt_locked (\<lambda>t. t\<lparr>pt_numThreads := pt_numThreads t + 1, pt_out := pt_out t @ [Threads (pt_numThreads t + 1)]\<rparr>),
     bindP (getP pt_numThreads) (\<lambda>k. whenP (\<not> k \<le> int maxN) (stops Abort)),
     bindP (getP pt_numThreads) (\<lambda>k.
       if k < 1 then stops Undefined
       else modify (\<lambda>t. t\<lparr>pt_pumpingStatus := (pt_pumpingStatus t)(nat (k - 1) := True)\<rparr>))]"

definition pt_ThreadFini :: "(pt, unit) prog" where
  "pt_ThreadFini = ret ()"

definition pt_RecordMemRead :: "nat \<Rightarrow> nat \<Rightarrow> (pt, unit) prog" where
  "pt_RecordMemRead maxN tid = block [pt_sendTimerPacket maxN tid False, pt_add (enc MEMREAD)]"

definition pt_RecordMemWrite :: "nat \<Rightarrow> nat \<Rightarrow> (pt, unit) prog" where
  "pt_RecordMemWrite maxN tid = block [pt_sendTimerPacket maxN tid False, pt_add (enc MEMWRITE)]"

definition pt_BrnFun :: "nat \<Rightarrow> nat \<Rightarrow> (pt, unit) prog" where
  "pt_BrnFun maxN tid = pt_sendTimerPacket maxN tid False"

definition pt_FunEntry :: "nat \<Rightarrow> u64 \<Rightarrow> u64 \<Rightarrow> u32 \<Rightarrow> nat \<Rightarrow> (pt, unit) prog" where
  "pt_FunEntry maxN time first_arg encode tid = block [
     pt_sendTimerPacket maxN tid True,
     pt_locked (\<lambda>t. t\<lparr>pt_out := pt_out t @ [Enters_named tid (findType (sint encode)) first_arg time]\<rparr>),
     pt_add (ucast encode)]"

definition pt_FunExit :: "nat \<Rightarrow> u32 \<Rightarrow> nat \<Rightarrow> (pt, unit) prog" where
  "pt_FunExit maxN encode tid = block [pt_sendTimerPacket maxN tid False, pt_add (ucast encode)]"

definition pt_Fini :: "(pt, unit) prog" where
  "pt_Fini = modify (\<lambda>t. t\<lparr>pt_out := pt_out t @ [CheckSum (pt_checkSum t)]\<rparr>)"

definition pt_main :: "bool \<Rightarrow> pt option" where
  "pt_main bad = (if bad then None
     else Some \<lparr>pt_lock = False, pt_numThreads = 0, pt_checkSum = 0, pt_pumpingStatus = (\<lambda>_. False),
       pt_countPacket = (\<lambda>_. 0), pt_out = []\<rparr>)"

section \<open>PgmInstrumentor ignores exactly the first instructions\<close>

lemma block_snoc: "block (ms @ [m]) = bindP (block ms) (\<lambda>_. m)"
  by (induction ms) (simp_all add: block.simps(2) bindP_assoc)

lemma replicate_snoc: "replicate (Suc k) x = replicate k x @ [x]"
  by (simp add: replicate_append_same)

lemma count_instructions:
  assumes s: "pi_main False ign new_Shm sid = Some s0" and i: "ign \<noteq> -1"
  shows "\<exists>s. block (replicate k pi_CountIns) s0 = Some (Inr ((), s))
    \<and> pi_numInsToIgnore s = ign \<and> pi_tst s = new_Shm sid \<and> pi_checkSum s = 0
    \<and> (pi_ignoreActive s \<longleftrightarrow> 0 < ign \<and> k \<le> unat ign) \<and> (pi_ignoreActive s \<longrightarrow> pi_numIns s = of_nat k)"
proof (induction k)
  case 0
  show ?case using s by (auto simp: pi_main_def ret_apply word_gt_0)
next
  case (Suc k)
  then obtain s where r: "block (replicate k pi_CountIns) s0 = Some (Inr ((), s))"
    and g: "pi_numInsToIgnore s = ign" "pi_tst s = new_Shm sid" "pi_checkSum s = 0"
    and a: "pi_ignoreActive s \<longleftrightarrow> 0 < ign \<and> k \<le> unat ign" and n: "pi_ignoreActive s \<longrightarrow> pi_numIns s = of_nat k"
    by blast
  have b: "block (replicate (Suc k) pi_CountIns) s0 = pi_CountIns s"
    using r by (simp only: replicate_snoc block_snoc bindP_ret)
  show ?case
  proof (cases "pi_ignoreActive s")
    case False
    with a have "\<not> (0 < ign \<and> Suc k \<le> unat ign)" by auto
    with False g show ?thesis unfolding b by (simp add: pi_CountIns_def prog_simps)
  next
    case True
    with a have k: "k \<le> unat ign" "0 < ign" by auto
    have "unat ign < 2 ^ 64 - 1"
    proof -
      have "unat ign \<noteq> unat (-1 :: u64)" using i by (metis word_unat_eqI)
      then show ?thesis using unsigned_less [of ign, where ?'a = nat]
        by (simp add: unsigned_minus_1_eq_mask mask_eq_exp_minus_1)
    qed
    then have "unat (of_nat (Suc k) :: u64) = Suc k" using k(1) by (intro unat_of_nat_small) simp
    then have e: "unat (pi_numIns s + 1) = Suc k" using n True by (simp add: add.commute)
    define s' where "s' = s\<lparr>pi_numIns := pi_numIns s + 1, pi_ignoreActive := Suc k \<le> unat ign\<rparr>"
    have "pi_CountIns s = Some (Inr ((), s'))"
      using True g(1) e by (simp add: pi_CountIns_def prog_simps Let_def word_less_nat_alt s'_def not_less)
    then show ?thesis unfolding b using n True g k(2) by (auto simp: s'_def)
  qed
qed

text \<open>\<open>PgmInstrumentor\<close> ignores the accesses of exactly the first \<open>numIgn\<close> instructions: an access of
  the \<open>k\<close>-th instruction counted since \<open>main\<close> does nothing if \<open>k\<close> is at most that number, and is charged to
  the checksum and sent otherwise.\<close>

theorem ignores_exact_prefix:
  assumes s: "pi_main False ign new_Shm sid = Some s0" and i: "ign \<noteq> -1"
  shows "\<exists>s. block (replicate k pi_CountIns) s0 = Some (Inr ((), s)) \<and> pi_tst s = new_Shm sid \<and> pi_checkSum s = 0
    \<and> pi_RecordMemRead I tid ip addr s =
        (if 0 < ign \<and> k \<le> unat ign then Some (Inr ((), s)) else pi_report I tid ip 2 addr s)
    \<and> pi_BrnFun I tid addr taken ip s =
        (if 0 < ign \<and> k \<le> unat ign then Some (Inr ((), s))
         else pi_report I tid ip (if taken then 4 else 5) addr s)"
  using count_instructions [OF s i, of k]
  by (auto simp: pi_RecordMemRead_def pi_BrnFun_def bindP_getP ret_apply)

theorem ignores_exact_prefix_witness:
  "\<forall>I. \<exists>s. block (replicate 2 pi_CountIns) (the (pi_main False 2 (\<lambda>_. ()) 1)) = Some (Inr ((), s))
    \<and> pi_RecordMemRead I 0 7 8 s = Some (Inr ((), s))"
proof (rule allI)
  fix I
  have "pi_main False 2 (\<lambda>_. ()) 1 = Some (the (pi_main False 2 (\<lambda>_. ()) 1))" "(2 :: u64) \<noteq> -1"
    by (simp_all add: pi_main_def)
  from ignores_exact_prefix [OF this, where k = 2 and I = I and tid = 0 and ip = 7 and addr = 8]
  show "\<exists>s. block (replicate 2 pi_CountIns) (the (pi_main False 2 (\<lambda>_. ()) 1)) = Some (Inr ((), s))
    \<and> pi_RecordMemRead I 0 7 8 s = Some (Inr ((), s))" by auto
qed

section \<open>The checksums of the counting tools\<close>

datatype tool_event = Ev_read nat | Ev_write nat | Ev_branch nat bool | Ev_entry u64 u64 u32 nat | Ev_exit u64 u64 u32 nat

fun pt_handle :: "nat \<Rightarrow> tool_event \<Rightarrow> (pt, unit) prog" where
  "pt_handle n (Ev_read tid) = pt_RecordMemRead n tid"
| "pt_handle n (Ev_write tid) = pt_RecordMemWrite n tid"
| "pt_handle n (Ev_branch tid taken) = pt_BrnFun n tid"
| "pt_handle n (Ev_entry time a c tid) = pt_FunEntry n time a c tid"
| "pt_handle n (Ev_exit time a c tid) = pt_FunExit n c tid"

fun pre_handle :: "tool_event \<Rightarrow> (pre, unit) prog" where
  "pre_handle (Ev_read tid) = pre_RecordMemRead"
| "pre_handle (Ev_write tid) = pre_RecordMemWrite"
| "pre_handle (Ev_branch tid taken) = pre_BrnFun taken"
| "pre_handle (Ev_entry time a c tid) = pre_FunEntry time a c tid"
| "pre_handle (Ev_exit time a c tid) = pre_FunExit time a c tid"

fun event_tid :: "tool_event \<Rightarrow> nat" where
  "event_tid (Ev_read tid) = tid"
| "event_tid (Ev_write tid) = tid"
| "event_tid (Ev_branch tid taken) = tid"
| "event_tid (Ev_entry time a c tid) = tid"
| "event_tid (Ev_exit time a c tid) = tid"

fun event_code :: "tool_event \<Rightarrow> u64" where
  "event_code (Ev_read tid) = enc MEMREAD"
| "event_code (Ev_write tid) = enc MEMWRITE"
| "event_code (Ev_branch tid taken) = 0"
| "event_code (Ev_entry time a c tid) = ucast c"
| "event_code (Ev_exit time a c tid) = ucast c"

lemma pt_timer:
  "tid < n \<Longrightarrow> pt_countPacket t = (\<lambda>_. 0) \<Longrightarrow> \<not> pt_lock t \<Longrightarrow>
   pt_sendTimerPacket n tid b t = Some (Inr ((), t\<lparr>pt_checkSum := pt_checkSum t + enc TIMER\<rparr>))"
  by (cases t) (simp add: pt_sendTimerPacket_def pt_add_def pt_locked_def prog_simps bindP_def fun_upd_def fun_eq_iff)

lemma pt_handle_step:
  assumes "event_tid e < n" "pt_countPacket t = (\<lambda>_. 0)" "\<not> pt_lock t"
  shows "\<exists>t'. pt_handle n e t = Some (Inr ((), t')) \<and> pt_countPacket t' = (\<lambda>_. 0) \<and> \<not> pt_lock t'
    \<and> pt_checkSum t' = pt_checkSum t + enc TIMER + event_code e"
  using assms
  by (cases e) (simp_all add: pt_RecordMemRead_def pt_RecordMemWrite_def pt_BrnFun_def pt_FunEntry_def pt_FunExit_def
      bindP_ret pt_timer pt_add_def pt_locked_def bindP_def prog_simps)

text \<open>\<open>printingTool\<close> charges a timer to its checksum at every event, however close they are: the
  checksum is the sum of the events' codes plus one \<open>TIMER\<close> for each event (a branch counts as nothing
  else).\<close>

theorem printing_tool_checksum:
  assumes "pt_main False = Some t0" and "\<forall>e \<in> set es. event_tid e < n"
  shows "\<exists>t. block (map (pt_handle n) es) t0 = Some (Inr ((), t))
    \<and> pt_checkSum t = of_nat (length es) * enc TIMER + (\<Sum>e\<leftarrow>es. event_code e)"
proof -
  have "\<exists>t'. block (map (pt_handle n) es) t = Some (Inr ((), t'))
      \<and> pt_checkSum t' = pt_checkSum t + of_nat (length es) * enc TIMER + (\<Sum>e\<leftarrow>es. event_code e)"
    if "pt_countPacket t = (\<lambda>_. 0)" "\<not> pt_lock t" for t
    using assms(2) that
  proof (induction es arbitrary: t)
    case Nil
    then show ?case by (simp add: ret_apply)
  next
    case (Cons e es)
    from pt_handle_step [of e n t] Cons.prems obtain t1 where
      1: "pt_handle n e t = Some (Inr ((), t1))" "pt_countPacket t1 = (\<lambda>_. 0)" "\<not> pt_lock t1"
         "pt_checkSum t1 = pt_checkSum t + enc TIMER + event_code e" by auto
    from Cons.IH [of t1] Cons.prems(1) 1 show ?case
      by (auto simp: block.simps(2) bindP_ret algebra_simps simp del: block_simps)
  qed
  from this [of t0] assms(1) show ?thesis by (auto simp: pt_main_def)
qed

theorem printing_tool_checksum_witness:
  "\<exists>t. block (map (pt_handle 2) [Ev_read 0, Ev_read 0, Ev_branch 1 True]) (the (pt_main False)) = Some (Inr ((), t))
    \<and> pt_checkSum t = 28"
proof -
  have "pt_main False = Some (the (pt_main False))" by (simp add: pt_main_def)
  from printing_tool_checksum [OF this, of "[Ev_read 0, Ev_read 0, Ev_branch 1 True]" 2] show ?thesis
    by (simp add: enc_def TIMER_def MEMREAD_def)
qed

lemma pre_handle_step:
  assumes "\<not> pre_lock t"
  shows "\<exists>t'. pre_handle e t = Some (Inr ((), t')) \<and> \<not> pre_lock t'
    \<and> pre_checkSum t' = (case e of Ev_branch tid taken \<Rightarrow> enc (if taken then TAKEN else NOTTAKEN)
                         | _ \<Rightarrow> pre_checkSum t + event_code e)"
  using assms
  by (cases e) (simp_all add: pre_RecordMemRead_def pre_RecordMemWrite_def pre_BrnFun_def pre_FunEntry_def pre_FunExit_def
      pre_locked_def bindP_def prog_simps)

lemma pre_run:
  "\<not> pre_lock t \<Longrightarrow> \<exists>t'. block (map pre_handle es) t = Some (Inr ((), t')) \<and> \<not> pre_lock t'
    \<and> ((\<forall>e \<in> set es. \<nexists>tid taken. e = Ev_branch tid taken) \<longrightarrow> pre_checkSum t' = pre_checkSum t + (\<Sum>e\<leftarrow>es. event_code e))"
proof (induction es arbitrary: t)
  case Nil
  then show ?case by (simp add: ret_apply)
next
  case (Cons e es)
  from pre_handle_step [OF Cons.prems, of e] obtain t1 where
    1: "pre_handle e t = Some (Inr ((), t1))" "\<not> pre_lock t1"
       "pre_checkSum t1 = (case e of Ev_branch tid taken \<Rightarrow> enc (if taken then TAKEN else NOTTAKEN)
                         | _ \<Rightarrow> pre_checkSum t + event_code e)" by auto
  from Cons.IH [OF 1(2)] 1 show ?case
    by (auto simp: block.simps(2) bindP_ret algebra_simps simp del: block_simps split: tool_event.splits)
qed

text \<open>in \<open>prelimcausalityTool\<close> a branch assigns the checksum instead of adding to it: after any run
  only the last branch and the events behind it are in the sum.\<close>

theorem prelim_checksum_forgets:
  assumes "pre_main False = Some t0" and "\<forall>e \<in> set es'. \<nexists>tid taken. e = Ev_branch tid taken"
  shows "\<exists>t. block (map pre_handle (es @ Ev_branch tid taken # es')) t0 = Some (Inr ((), t))
    \<and> pre_checkSum t = enc (if taken then TAKEN else NOTTAKEN) + (\<Sum>e\<leftarrow>es'. event_code e)"
proof -
  have app: "block (ms @ ms') = bindP (block ms) (\<lambda>_. block ms')" for ms ms' :: "(pre, unit) prog list"
    by (induction ms) (simp_all add: block.simps(2) bindP_assoc del: block_simps(3))
  have "\<not> pre_lock t0" using assms(1) by (auto simp: pre_main_def)
  from pre_run [OF this, of es] obtain t1 where 1: "block (map pre_handle es) t0 = Some (Inr ((), t1))" "\<not> pre_lock t1" by blast
  from pre_handle_step [OF 1(2), of "Ev_branch tid taken"] obtain t2 where
    2: "pre_handle (Ev_branch tid taken) t1 = Some (Inr ((), t2))" "\<not> pre_lock t2"
       "pre_checkSum t2 = enc (if taken then TAKEN else NOTTAKEN)" by auto
  from pre_run [OF 2(2), of es'] assms(2) 1 2 show ?thesis
    by (auto simp: app block.simps(2) bindP_ret simp del: block_simps pre_handle.simps)
qed

theorem prelim_checksum_forgets_witness:
  "\<exists>t. block (map pre_handle ([Ev_read 0, Ev_write 1] @ Ev_branch 0 True # [Ev_read 0])) (the (pre_main False)) = Some (Inr ((), t))
    \<and> pre_checkSum t = 6"
proof -
  have "pre_main False = Some (the (pre_main False))" by (simp add: pre_main_def)
  from prelim_checksum_forgets [OF this, of "[Ev_read 0]" "[Ev_read 0, Ev_write 1]" 0 True] show ?thesis
    by (simp add: enc_def TAKEN_def MEMREAD_def)
qed

end
