(* ===== verification/StlSearch.thy ===== *)
theory StlSearch
  imports Decimal Causality
begin

text \<open>
  The tools are compiled against the C++ library of the Pin kit, STLport.  This theory models what their
  string handling rests on: the searching algorithms of \<open>stl/_algobase.c\<close> and the searching members of
  \<open>basic_string\<close> in \<open>stl/_string.c\<close>.  A range \<open>[first, last)\<close> is the list of its elements and an
  iterator into it the number of elements before it, so \<open>last\<close> is the length; a loop that advances an
  iterator is a recursion over the rest of the range.  \<open>npos\<close> is \<open>None\<close>.  Lengths are natural numbers:
  \<open>max_size\<close> keeps them far from the width of \<open>size_t\<close>.
\<close>

section \<open>Comparing ranges\<close>

fun lexicographical_compare :: "('a \<Rightarrow> 'a \<Rightarrow> bool) \<Rightarrow> 'a list \<Rightarrow> 'a list \<Rightarrow> bool" where
  "lexicographical_compare cmp (x # xs) (y # ys) =
     (if cmp x y then True else if cmp y x then False else lexicographical_compare cmp xs ys)"
| "lexicographical_compare cmp xs ys = (xs = [] \<and> ys \<noteq> [])"

fun lexicographical_compare_3way :: "('a \<Rightarrow> 'a \<Rightarrow> bool) \<Rightarrow> 'a list \<Rightarrow> 'a list \<Rightarrow> int" where
  "lexicographical_compare_3way lt (x # xs) (y # ys) =
     (if lt x y then -1 else if lt y x then 1 else lexicographical_compare_3way lt xs ys)"
| "lexicographical_compare_3way lt xs [] = (if xs = [] then 0 else 1)"
| "lexicographical_compare_3way lt [] (y # ys) = -1"

section \<open>find and find_if\<close>

text \<open>The version for input iterators.\<close>

fun find_if_input :: "('a \<Rightarrow> bool) \<Rightarrow> 'a list \<Rightarrow> nat" where
  "find_if_input pred [] = 0"
| "find_if_input pred (x # xs) = (if pred x then 0 else Suc (find_if_input pred xs))"

text \<open>The version for random access iterators, unrolled four times: \<open>Inl\<close> is a \<open>return\<close> from inside the
  loop, \<open>Inr\<close> the position of \<open>__first\<close> behind it.\<close>

fun find_if_trips :: "('a \<Rightarrow> bool) \<Rightarrow> 'a list \<Rightarrow> nat \<Rightarrow> nat \<Rightarrow> nat + nat" where
  "find_if_trips pred xs 0 first = Inr first"
| "find_if_trips pred xs (Suc trip_count) first =
     (if pred (xs ! first) then Inl first
      else if pred (xs ! (first + 1)) then Inl (first + 1)
      else if pred (xs ! (first + 2)) then Inl (first + 2)
      else if pred (xs ! (first + 3)) then Inl (first + 3)
      else find_if_trips pred xs trip_count (first + 4))"

text \<open>The \<open>switch\<close> behind it, each case falling through into the next.\<close>

definition find_if_rest :: "('a \<Rightarrow> bool) \<Rightarrow> 'a list \<Rightarrow> nat \<Rightarrow> nat" where
  "find_if_rest pred xs first =
     (let case1 = (\<lambda>i. if pred (xs ! i) then i else length xs);
          case2 = (\<lambda>i. if pred (xs ! i) then i else case1 (i + 1));
          case3 = (\<lambda>i. if pred (xs ! i) then i else case2 (i + 1))
      in if length xs - first = 3 then case3 first
         else if length xs - first = 2 then case2 first
         else if length xs - first = 1 then case1 first
         else length xs)"

definition find_if_random :: "('a \<Rightarrow> bool) \<Rightarrow> 'a list \<Rightarrow> nat" where
  "find_if_random pred xs = (case find_if_trips pred xs (length xs div 4) 0 of
     Inl i \<Rightarrow> i | Inr first \<Rightarrow> find_if_rest pred xs first)"

definition find_random :: "'a \<Rightarrow> 'a list \<Rightarrow> nat" where
  "find_random val xs = find_if_random (\<lambda>x. x = val) xs"

text \<open>The version for characters calls \<open>memchr\<close>: the first index, or a null pointer.\<close>

definition find_memchr :: "char \<Rightarrow> string \<Rightarrow> nat" where
  "find_memchr val xs = (case first_index (\<lambda>x. x = val) xs of Some res \<Rightarrow> res | None \<Rightarrow> length xs)"

section \<open>search and find_end\<close>

datatype matched = Found | At_end | Mismatch

text \<open>The inner loop of \<open>search\<close>: from \<open>__current\<close> and \<open>__p\<close>, both in front of an element.\<close>

fun match_rest :: "('a \<Rightarrow> 'b \<Rightarrow> bool) \<Rightarrow> 'a list \<Rightarrow> 'b list \<Rightarrow> matched" where
  "match_rest pred (c # cs) (p # ps) =
     (if pred c p then (if ps = [] then Found else if cs = [] then At_end else match_rest pred cs ps) else Mismatch)"
| "match_rest pred cs ps = Mismatch"

fun search_general :: "('a \<Rightarrow> 'b \<Rightarrow> bool) \<Rightarrow> 'a list \<Rightarrow> 'b list \<Rightarrow> nat" where
  "search_general pred [] pat = 0"
| "search_general pred (x # xs) pat =
     (if \<not> pred x (hd pat) then Suc (search_general pred xs pat)
      else if xs = [] then length (x # xs)
      else case match_rest pred xs (tl pat) of
        Found \<Rightarrow> 0 | At_end \<Rightarrow> length (x # xs) | Mismatch \<Rightarrow> Suc (search_general pred xs pat))"

definition search :: "('a \<Rightarrow> 'b \<Rightarrow> bool) \<Rightarrow> 'a list \<Rightarrow> 'b list \<Rightarrow> nat" where
  "search pred xs ys =
     (if xs = [] \<or> ys = [] then 0
      else if tl ys = [] then find_if_input (\<lambda>x. pred x (hd ys)) xs
      else search_general pred xs ys)"

text \<open>\<open>find_end\<close> for forward iterators: \<open>search\<close> again and again, each time behind the last match.  The
  positions are counted from the start of the whole range, \<open>i\<close> elements before \<open>__first1\<close>.\<close>

function find_end_loop :: "('a \<Rightarrow> 'b \<Rightarrow> bool) \<Rightarrow> 'a list \<Rightarrow> 'b list \<Rightarrow> nat \<Rightarrow> nat \<Rightarrow> nat" where
  "find_end_loop pred xs ys i res =
     (let new = search pred xs ys in
      if new \<ge> length xs then res
      else find_end_loop pred (drop (Suc new) xs) ys (i + new + 1) (i + new))"
  by pat_completeness auto
termination by (relation "measure (\<lambda>(pred, xs, ys, i, res). length xs)") auto

declare find_end_loop.simps [simp del]

definition find_end_forward :: "('a \<Rightarrow> 'b \<Rightarrow> bool) \<Rightarrow> 'a list \<Rightarrow> 'b list \<Rightarrow> nat" where
  "find_end_forward pred xs ys = (if ys = [] then length xs else find_end_loop pred xs ys 0 (length xs))"

text \<open>The version for bidirectional iterators searches the reversed ranges.\<close>

definition find_end :: "('a \<Rightarrow> 'b \<Rightarrow> bool) \<Rightarrow> 'a list \<Rightarrow> 'b list \<Rightarrow> nat" where
  "find_end pred xs ys =
     (let rresult = search pred (rev xs) (rev ys) in
      if rresult = length xs then length xs else length xs - rresult - length ys)"

section \<open>find_first_of\<close>

fun find_first_of_naive :: "('a \<Rightarrow> 'b \<Rightarrow> bool) \<Rightarrow> 'a list \<Rightarrow> 'b list \<Rightarrow> nat" where
  "find_first_of_naive cmp [] ys = 0"
| "find_first_of_naive cmp (x # xs) ys = (if list_ex (cmp x) ys then 0 else Suc (find_first_of_naive cmp xs ys))"

text \<open>The version for characters: a bitmap of 256 bits, one byte for eight characters.\<close>

definition set_hint :: "8 word list \<Rightarrow> char \<Rightarrow> 8 word list" where
  "set_hint hints c = (let tmp = of_char c :: nat in
     hints[tmp div 8 := hints ! (tmp div 8) OR push_bit (tmp mod 8) 1])"

definition hinted :: "8 word list \<Rightarrow> char \<Rightarrow> bool" where
  "hinted hints c = (let tmp = of_char c :: nat in (hints ! (tmp div 8)) AND push_bit (tmp mod 8) 1 \<noteq> 0)"

definition find_first_of_hints :: "(bool \<Rightarrow> bool) \<Rightarrow> string \<Rightarrow> string \<Rightarrow> nat" where
  "find_first_of_hints pred xs ys =
     (let hints = fold (\<lambda>c h. set_hint h c) ys (replicate 32 0)
      in find_if_input (\<lambda>c. pred (hinted hints c)) xs)"

section \<open>lower_bound\<close>

function lower_bound_loop :: "('a \<Rightarrow> 'b \<Rightarrow> bool) \<Rightarrow> 'a list \<Rightarrow> 'b \<Rightarrow> nat \<Rightarrow> nat \<Rightarrow> nat" where
  "lower_bound_loop cmp xs val first len =
     (if len > 0 then
        let half = len div 2; middle = first + half in
        if cmp (xs ! middle) val then lower_bound_loop cmp xs val (middle + 1) (len - half - 1)
        else lower_bound_loop cmp xs val first half
      else first)"
  by pat_completeness auto
termination by (relation "measure (\<lambda>(cmp, xs, val, first, len). len)") auto

declare lower_bound_loop.simps [simp del]

definition lower_bound :: "('a \<Rightarrow> 'b \<Rightarrow> bool) \<Rightarrow> 'a list \<Rightarrow> 'b \<Rightarrow> nat" where
  "lower_bound cmp xs val = lower_bound_loop cmp xs val 0 (length xs)"

section \<open>basic_string: the searching members\<close>

definition npos_or :: "nat \<Rightarrow> nat \<Rightarrow> nat option" where
  "npos_or lst result = (if result \<noteq> lst then Some result else None)"

definition str_find :: "string \<Rightarrow> string \<Rightarrow> nat \<Rightarrow> nat option" where
  "str_find str s pos =
     (if pos \<ge> length str \<or> pos + length s > length str
      then (if s = [] \<and> pos \<le> length str then Some pos else None)
      else npos_or (length str) (pos + search (=) (drop pos str) s))"

definition str_find_char :: "string \<Rightarrow> char \<Rightarrow> nat \<Rightarrow> nat option" where
  "str_find_char str c pos =
     (if pos \<ge> length str then None
      else npos_or (length str) (pos + find_if_random (\<lambda>x. x = c) (drop pos str)))"

definition str_rfind :: "string \<Rightarrow> string \<Rightarrow> nat \<Rightarrow> nat option" where
  "str_rfind str s pos =
     (if length str < length s then None
      else let lst = min (length str - length s) pos + length s in
        if s = [] then Some lst
        else npos_or lst (find_end (=) (take lst str) s))"

text \<open>A search from the end: the reverse iterators run over \<open>[begin, last)\<close> backwards, and
  \<open>(__rresult.base() - 1) - begin()\<close> is the position in the string.\<close>

definition from_end :: "string \<Rightarrow> nat \<Rightarrow> (string \<Rightarrow> nat) \<Rightarrow> nat option" where
  "from_end str pos searched =
     (if length str < 1 then None
      else let lst = min (length str - 1) pos + 1;
               rresult = searched (rev (take lst str))
           in if rresult \<noteq> lst then Some (lst - rresult - 1) else None)"

definition str_rfind_char :: "string \<Rightarrow> char \<Rightarrow> nat \<Rightarrow> nat option" where
  "str_rfind_char str c pos = from_end str pos (find_if_random (\<lambda>x. x = c))"

definition str_find_first_of :: "string \<Rightarrow> string \<Rightarrow> nat \<Rightarrow> nat option" where
  "str_find_first_of str s pos =
     (if pos \<ge> length str then None
      else npos_or (length str) (pos + find_first_of_hints id (drop pos str) s))"

definition str_find_last_of :: "string \<Rightarrow> string \<Rightarrow> nat \<Rightarrow> nat option" where
  "str_find_last_of str s pos = from_end str pos (\<lambda>r. find_first_of_hints id r s)"

definition str_find_first_not_of :: "string \<Rightarrow> string \<Rightarrow> nat \<Rightarrow> nat option" where
  "str_find_first_not_of str s pos =
     (if pos \<ge> length str then None
      else npos_or (length str) (pos + find_first_of_hints Not (drop pos str) s))"

text \<open>No test of \<open>pos\<close> here: behind the end the distance is negative, and the unrolled search falls
  through to \<open>return __last\<close>.\<close>

definition str_find_first_not_of_char :: "string \<Rightarrow> char \<Rightarrow> nat \<Rightarrow> nat option" where
  "str_find_first_not_of_char str c pos =
     (if 1 > length str then None
      else if pos \<le> length str then npos_or (length str) (pos + find_if_random (\<lambda>x. x \<noteq> c) (drop pos str))
      else None)"

definition str_find_last_not_of :: "string \<Rightarrow> string \<Rightarrow> nat \<Rightarrow> nat option" where
  "str_find_last_not_of str s pos = from_end str pos (\<lambda>r. find_first_of_hints Not r s)"

definition str_find_last_not_of_char :: "string \<Rightarrow> char \<Rightarrow> nat \<Rightarrow> nat option" where
  "str_find_last_not_of_char str c pos = from_end str pos (find_if_random (\<lambda>x. x \<noteq> c))"

end
