(* ===== verification/StlSearchProps.thy ===== *)
theory StlSearchProps
  imports StlSearch Instrumentation
begin

text \<open>
  Correctness of the library's searching algorithms (theory \<open>StlSearch\<close>): the unrolled, the reversed and
  the bitmap versions do what the plain ones do, and the tool's tests on routine names
  (theory \<open>Instrumentation\<close>) are what \<open>std::string::find\<close> computes.
\<close>

section \<open>find_if\<close>

lemma find_if_input_le: "find_if_input P xs \<le> length xs"
  by (induction xs) auto

lemma find_if_input_before: "j < find_if_input P xs \<Longrightarrow> \<not> P (xs ! j)"
  by (induction xs arbitrary: j) (auto simp: nth_Cons split: nat.splits if_splits)

lemma find_if_input_at: "find_if_input P xs < length xs \<Longrightarrow> P (xs ! find_if_input P xs)"
  by (induction xs) auto

lemma find_if_input_end: "find_if_input P xs = length xs \<longleftrightarrow> (\<forall>x \<in> set xs. \<not> P x)"
  by (induction xs) auto

lemma find_if_input_drop:
  "i < length xs \<Longrightarrow> find_if_input P (drop i xs) = (if P (xs ! i) then 0 else Suc (find_if_input P (drop (Suc i) xs)))"
  by (simp add: Cons_nth_drop_Suc [symmetric])

lemma find_if_input_skip: "k \<le> find_if_input P xs \<Longrightarrow> find_if_input P xs = k + find_if_input P (drop k xs)"
proof (induction xs arbitrary: k)
  case (Cons x xs)
  then show ?case by (cases k) (auto split: if_splits)
qed simp

lemma find_if_trips_eq:
  "first + 4 * n \<le> length xs \<Longrightarrow> find_if_trips P xs n first =
     (if find_if_input P (drop first xs) < 4 * n then Inl (first + find_if_input P (drop first xs))
      else Inr (first + 4 * n))"
proof (induction n arbitrary: first)
  case 0
  then show ?case by simp
next
  case (Suc n)
  from Suc.prems have "first < length xs" "first + 1 < length xs" "first + 2 < length xs" "first + 3 < length xs" by auto
  then have "find_if_input P (drop first xs) =
      (if P (xs ! first) then 0 else if P (xs ! (first + 1)) then 1 else if P (xs ! (first + 2)) then 2
       else if P (xs ! (first + 3)) then 3 else 4 + find_if_input P (drop (first + 4) xs))"
    by (simp add: find_if_input_drop eval_nat_numeral)
  with Suc.IH [of "first + 4"] Suc.prems show ?case by auto
qed

lemma find_if_rest_eq:
  "first \<le> length xs \<Longrightarrow> length xs - first < 4 \<Longrightarrow> find_if_rest P xs first = first + find_if_input P (drop first xs)"
proof -
  assume f: "first \<le> length xs" "length xs - first < 4"
  then consider "length xs - first = 0" | "length xs - first = 1" | "length xs - first = 2" | "length xs - first = 3" by linarith
  then show ?thesis
  proof cases
    case 1 with f show ?thesis by (simp add: find_if_rest_def)
  next
    case 2
    with f have "length xs = Suc first" by simp
    then show ?thesis by (simp add: find_if_rest_def find_if_input_drop)
  next
    case 3
    with f have "length xs = Suc (Suc first)" by simp
    then show ?thesis by (simp add: find_if_rest_def find_if_input_drop)
  next
    case 4
    with f have "length xs = Suc (Suc (Suc first))" by simp
    then show ?thesis by (simp add: find_if_rest_def find_if_input_drop)
  qed
qed

lemma find_if_random_eq: "find_if_random P xs = find_if_input P xs"
proof -
  have t: "find_if_trips P xs (length xs div 4) 0 = (if find_if_input P xs < 4 * (length xs div 4)
      then Inl (find_if_input P xs) else Inr (4 * (length xs div 4)))"
    by (subst find_if_trips_eq) auto
  have d: "find_if_input P xs = 4 * (length xs div 4) + find_if_input P (drop (4 * (length xs div 4)) xs)"
    if "\<not> find_if_input P xs < 4 * (length xs div 4)"
    using that by (intro find_if_input_skip) simp
  show ?thesis unfolding find_if_random_def t
    using d find_if_rest_eq [of "4 * (length xs div 4)" xs P] by auto
qed

section \<open>search\<close>

text \<open>The reference: the first position at which the pattern matches, the length if there is none.\<close>

fun prefix_match :: "('a \<Rightarrow> 'b \<Rightarrow> bool) \<Rightarrow> 'a list \<Rightarrow> 'b list \<Rightarrow> bool" where
  "prefix_match P xs [] = True"
| "prefix_match P [] (y # ys) = False"
| "prefix_match P (x # xs) (y # ys) = (P x y \<and> prefix_match P xs ys)"

fun first_occ :: "('a \<Rightarrow> 'b \<Rightarrow> bool) \<Rightarrow> 'a list \<Rightarrow> 'b list \<Rightarrow> nat" where
  "first_occ P [] ys = 0"
| "first_occ P (x # xs) ys = (if prefix_match P (x # xs) ys then 0 else Suc (first_occ P xs ys))"

lemma prefix_match_length: "prefix_match P xs ys \<Longrightarrow> length ys \<le> length xs"
  by (induction P xs ys rule: prefix_match.induct) auto

lemma prefix_match_nth:
  "prefix_match P xs ys \<longleftrightarrow> length ys \<le> length xs \<and> (\<forall>k < length ys. P (xs ! k) (ys ! k))"
  by (induction P xs ys rule: prefix_match.induct) (auto simp: less_Suc_eq_0_disj)

lemma first_occ_short: "length xs < length ys \<Longrightarrow> first_occ P xs ys = length xs"
  by (induction xs) (auto dest: prefix_match_length)

lemma match_rest_outcome:
  "cs \<noteq> [] \<Longrightarrow> ps \<noteq> [] \<Longrightarrow>
   (match_rest P cs ps = Found \<longleftrightarrow> prefix_match P cs ps)
   \<and> (match_rest P cs ps = At_end \<longrightarrow> length cs < length ps)"
  by (induction P cs ps rule: match_rest.induct) (auto simp: neq_Nil_conv split: if_splits)

lemma search_general_eq: "tl pat \<noteq> [] \<Longrightarrow> search_general P xs pat = first_occ P xs pat"
proof (induction P xs pat rule: search_general.induct)
  case (2 P x xs pat)
  then obtain p ps where pat: "pat = p # ps" "ps \<noteq> []" by (cases pat) auto
  show ?case
  proof (cases "P x p \<and> xs \<noteq> []")
    case False
    then show ?thesis using 2 pat by (cases ps) (auto simp: neq_Nil_conv)
  next
    case True
    from match_rest_outcome [of xs ps P] True pat
    have m: "match_rest P xs ps = Found \<longleftrightarrow> prefix_match P xs ps"
      and e: "match_rest P xs ps = At_end \<longrightarrow> length xs < length ps" by auto
    show ?thesis
    proof (cases "match_rest P xs ps")
      case At_end
      with e have "length (x # xs) < length pat" using pat by simp
      then have "first_occ P (x # xs) pat = length (x # xs)" by (rule first_occ_short)
      moreover have "search_general P (x # xs) pat = length (x # xs)" using True pat At_end by simp
      ultimately show ?thesis by (simp del: first_occ.simps search_general.simps)
    qed (use True pat m 2 in auto)
  qed
qed simp

lemma search_eq: "ys \<noteq> [] \<Longrightarrow> search P xs ys = first_occ P xs ys"
proof -
  assume ys: "ys \<noteq> []"
  have "find_if_input (\<lambda>x. P x y) xs = first_occ P xs [y]" for y
    by (induction xs) auto
  with ys show ?thesis
    by (auto simp: search_def search_general_eq neq_Nil_conv)
qed

lemma first_occ_le: "first_occ P xs ys \<le> length xs"
  by (induction xs) auto

lemma first_occ_before: "j < first_occ P xs ys \<Longrightarrow> \<not> prefix_match P (drop j xs) ys"
  by (induction xs arbitrary: j) (auto split: if_splits simp: drop_Cons split: nat.splits)

lemma first_occ_at: "first_occ P xs ys < length xs \<Longrightarrow> prefix_match P (drop (first_occ P xs ys) xs) ys"
  by (induction xs) auto

lemma first_occ_none: "ys \<noteq> [] \<Longrightarrow> first_occ P xs ys = length xs \<Longrightarrow> \<not> prefix_match P (drop j xs) ys"
proof (cases "j < length xs")
  case True
  assume "ys \<noteq> []" "first_occ P xs ys = length xs"
  with True first_occ_before [of j P xs ys] show ?thesis by simp
next
  case False
  assume "ys \<noteq> []"
  with False show ?thesis by (auto dest: prefix_match_length)
qed

definition occurs_in :: "string \<Rightarrow> string \<Rightarrow> nat \<Rightarrow> bool" where
  "occurs_in str s i \<longleftrightarrow> i + length s \<le> length str \<and> take (length s) (drop i str) = s"

lemma prefix_match_eq: "prefix_match (=) xs ys \<longleftrightarrow> take (length ys) xs = ys"
  by (induction "(=) :: 'a \<Rightarrow> 'a \<Rightarrow> bool" xs ys rule: prefix_match.induct) auto

lemma occurs_in_prefix: "s \<noteq> [] \<Longrightarrow> occurs_in str s i \<longleftrightarrow> prefix_match (=) (drop i str) s"
proof -
  assume s: "s \<noteq> []"
  have "i + length s \<le> length str" if t: "take (length s) (drop i str) = s"
  proof -
    have "min (length str - i) (length s) = length s" using arg_cong [OF t, of length] by (simp add: min.commute)
    moreover have "0 < length s" using s by simp
    ultimately show ?thesis by linarith
  qed
  then show ?thesis by (auto simp: occurs_in_def prefix_match_eq)
qed

lemma occurs_in_empty: "occurs_in str [] i \<longleftrightarrow> i \<le> length str"
  by (simp add: occurs_in_def)

lemma str_find_in_range:
  assumes s: "s \<noteq> []" and pos: "pos + length s \<le> length str"
  shows "str_find str s pos = (let r = first_occ (=) (drop pos str) s in
    if r < length str - pos then Some (pos + r) else None)"
proof -
  have "pos < length str" using s pos by (cases s) auto
  then show ?thesis
    using s pos first_occ_le [of "(=)" "drop pos str" s]
    by (auto simp: str_find_def npos_or_def search_eq [OF s] Let_def)
qed

lemma str_find_Some:
  "str_find str s pos = Some i \<longleftrightarrow>
     pos \<le> i \<and> occurs_in str s i \<and> (\<forall>j. pos \<le> j \<and> j < i \<longrightarrow> \<not> occurs_in str s j)"
proof (cases "s = []")
  case True
  then show ?thesis
    by (cases "pos < length str") (auto simp: str_find_def search_def npos_or_def occurs_in_empty le_less)
next
  case False
  show ?thesis
  proof (cases "pos + length s \<le> length str")
    case out: False
    have "\<not> occurs_in str s j" if "pos \<le> j" for j using that out by (auto simp: occurs_in_def)
    moreover have "str_find str s pos = None" using out False by (auto simp: str_find_def)
    ultimately show ?thesis by auto
  next
    case True
    define r where "r = first_occ (=) (drop pos str) s"
    have f: "str_find str s pos = (if r < length str - pos then Some (pos + r) else None)"
      using str_find_in_range [OF False True] by (simp add: r_def Let_def)
    have before: "\<not> occurs_in str s j" if "pos \<le> j" "j < pos + r" for j
      using first_occ_before [of "j - pos" "(=)" "drop pos str" s] that
      by (simp add: occurs_in_prefix [OF False] r_def less_diff_conv2)
    have at: "occurs_in str s (pos + r)" if "r < length str - pos"
      using first_occ_at [of "(=)" "drop pos str" s] that
      by (simp add: occurs_in_prefix [OF False] r_def add.commute)
    have none: "\<not> occurs_in str s j" if "\<not> r < length str - pos" "pos \<le> j" for j
      using first_occ_none [OF False, of "(=)" "drop pos str" "j - pos"] that first_occ_le [of "(=)" "drop pos str" s]
      by (simp add: occurs_in_prefix [OF False] r_def)
    show ?thesis
    proof (cases "r < length str - pos")
      case True
      with f at before show ?thesis by (auto intro: linorder_cases [of i "pos + r"])
    next
      case False
      with f none show ?thesis by auto
    qed
  qed
qed

lemma str_find_None: "str_find str s pos = None \<longleftrightarrow> (\<forall>i \<ge> pos. \<not> occurs_in str s i)"
proof
  assume n: "str_find str s pos = None"
  show "\<forall>i \<ge> pos. \<not> occurs_in str s i"
  proof (rule ccontr)
    assume "\<not> ?thesis"
    then obtain i where i: "pos \<le> i" "occurs_in str s i" by blast
    define k where "k = (LEAST i. pos \<le> i \<and> occurs_in str s i)"
    have "pos \<le> k \<and> occurs_in str s k" unfolding k_def by (rule LeastI [of _ i]) (use i in simp)
    moreover have "\<forall>j. pos \<le> j \<and> j < k \<longrightarrow> \<not> occurs_in str s j" unfolding k_def using not_less_Least by blast
    ultimately have "str_find str s pos = Some k" by (simp add: str_find_Some)
    with n show False by simp
  qed
next
  assume "\<forall>i \<ge> pos. \<not> occurs_in str s i"
  then show "str_find str s pos = None" by (cases "str_find str s pos") (auto simp: str_find_Some)
qed

text \<open>\<open>std::string::find\<close> of the library returns the smallest position from \<open>pos\<close> on at which the
  pattern occurs, and \<open>npos\<close> exactly if there is none (the empty pattern occurs everywhere up to the end).\<close>

theorem string_find_first:
  "str_find str s pos = Some i \<longleftrightarrow>
     pos \<le> i \<and> occurs_in str s i \<and> (\<forall>j. pos \<le> j \<and> j < i \<longrightarrow> \<not> occurs_in str s j)"
  by (rule str_find_Some)

theorem string_find_first_witness:
  "str_find ''pthread_mutex_unlock'' ''mutex'' 0 = Some 8 \<and> occurs_in ''pthread_mutex_unlock'' ''mutex'' 8"
proof -
  have "str_find ''pthread_mutex_unlock'' ''mutex'' 0 = Some 8"
    by (simp add: str_find_def search_def npos_or_def)
  with string_find_first [of "''pthread_mutex_unlock''" "''mutex''" 0 8] show ?thesis by blast
qed

lemma starts_with_prefix: "starts_with p s = prefix_match (=) s p"
  by (induction p s rule: starts_with.induct) auto

lemma contains_occurs: "contains p s \<longleftrightarrow> (\<exists>i. occurs_in s p i)"
proof (cases "p = []")
  case True
  have "contains [] s" by (cases s) auto
  with True show ?thesis by (auto simp: occurs_in_empty)
next
  case False
  have "contains p s \<longleftrightarrow> (\<exists>i. prefix_match (=) (drop i s) p)"
  proof (induction s)
    case Nil
    with False show ?case by (auto dest: prefix_match_length)
  next
    case (Cons c s)
    have "(\<exists>i. prefix_match (=) (drop i (c # s)) p) \<longleftrightarrow> prefix_match (=) (c # s) p \<or> (\<exists>i. prefix_match (=) (drop i s) p)"
      by (metis drop0 drop_Suc_Cons not0_implies_Suc)
    with Cons show ?case by (simp add: starts_with_prefix)
  qed
  with False show ?thesis by (simp add: occurs_in_prefix)
qed

text \<open>C33: the tool's test \<open>rtn_name->find(a) != string::npos\<close>, with the library's \<open>find\<close>, its search and
  its special cases, is true exactly for the routine names that contain \<open>a\<close>; so the code a routine gets is
  a function of which of the names occur in its own.\<close>

theorem routine_test_is_find: "contains p s \<longleftrightarrow> str_find s p 0 \<noteq> None"
  by (auto simp: contains_occurs str_find_None)

section \<open>find_first_of\<close>

lemma length_set_hint: "length (set_hint h c) = length h"
  by (simp add: set_hint_def Let_def)

lemma char_byte: "(of_char c :: nat) div 8 < 32"
  using nat_of_char_less_256 [of c] by (intro less_mult_imp_div_less) simp

lemma hinted_bit: "hinted h c \<longleftrightarrow> bit (h ! (of_char c div 8)) (of_char c mod 8)"
  by (simp add: hinted_def Let_def push_bit_eq_mult and_exp_eq_0_iff_not_bit)

lemma hinted_set_hint:
  assumes "length h = 32"
  shows "hinted (set_hint h d) c \<longleftrightarrow> c = d \<or> hinted h c"
proof -
  have eq: "c = d \<longleftrightarrow> of_char c div 8 = (of_char d div 8 :: nat) \<and> of_char c mod 8 = (of_char d mod 8 :: nat)"
    by (metis div_mult_mod_eq of_char_eq_iff)
  show ?thesis
    using assms char_byte [of d] char_byte [of c]
    by (auto simp: hinted_bit set_hint_def Let_def nth_list_update bit_or_iff push_bit_eq_mult bit_exp_iff eq)
qed

lemma hints_correct: "hinted (fold (\<lambda>c h. set_hint h c) ys (replicate 32 0)) = (\<lambda>c. c \<in> set ys)"
proof (rule ext)
  fix c
  have "hinted (fold (\<lambda>c h. set_hint h c) ys h) c \<longleftrightarrow> c \<in> set ys \<or> hinted h c" if "length h = 32" for h
    using that by (induction ys arbitrary: h) (auto simp: length_set_hint hinted_set_hint)
  moreover have "\<not> hinted (replicate 32 0) c" using char_byte [of c] by (simp add: hinted_bit)
  ultimately show "hinted (fold (\<lambda>c h. set_hint h c) ys (replicate 32 0)) c \<longleftrightarrow> c \<in> set ys" by simp
qed

lemma find_first_of_naive_eq: "find_first_of_naive cmp xs ys = find_if_input (\<lambda>x. \<exists>y \<in> set ys. cmp x y) xs"
  by (induction xs) (auto simp: list_ex_iff)

text \<open>the bitmap version of \<open>find_first_of\<close> for characters finds what the nested loops find; with the
  negated test it finds the first character that is not in the set.\<close>

theorem bitmap_search_equivalent:
  "find_first_of_hints id xs ys = find_first_of_naive (=) xs ys \<and>
    find_first_of_hints Not xs ys = find_if_input (\<lambda>c. c \<notin> set ys) xs"
  by (simp_all add: find_first_of_hints_def Let_def hints_correct find_first_of_naive_eq id_def cong: if_cong)

section \<open>find_end and rfind\<close>

lemma occ_nth: "prefix_match P (drop i xs) ys \<longleftrightarrow> i + length ys \<le> length xs \<and> (\<forall>k < length ys. P (xs ! (i + k)) (ys ! k))"
  if "i \<le> length xs"
  using that by (auto simp: prefix_match_nth)

lemma all_reversed: "(\<forall>k < n. Q (n - 1 - k)) \<longleftrightarrow> (\<forall>k < (n :: nat). Q k)"
proof
  assume h: "\<forall>k < n. Q (n - 1 - k)"
  show "\<forall>k < n. Q k"
  proof (intro allI impI)
    fix k assume "k < n"
    then have "n - 1 - k < n" "n - 1 - (n - 1 - k) = k" by auto
    with h show "Q k" by metis
  qed
qed auto

lemma occ_rev:
  assumes "j + length ys \<le> length xs"
  shows "prefix_match P (drop j (rev xs)) (rev ys) \<longleftrightarrow> prefix_match P (drop (length xs - j - length ys) xs) ys"
proof -
  let ?n = "length ys" and ?i = "length xs - j - length ys"
  have "prefix_match P (drop j (rev xs)) (rev ys) \<longleftrightarrow> (\<forall>k < ?n. P (rev xs ! (j + k)) (rev ys ! k))"
    using assms by (subst occ_nth) auto
  also have "\<dots> \<longleftrightarrow> (\<forall>k < ?n. P (xs ! (?i + (?n - 1 - k))) (ys ! (?n - 1 - k)))"
  proof -
    have "rev xs ! (j + k) = xs ! (?i + (?n - 1 - k))" "rev ys ! k = ys ! (?n - 1 - k)" if "k < ?n" for k
      using that assms by (simp_all add: rev_nth) 
    then show ?thesis by auto
  qed
  also have "\<dots> \<longleftrightarrow> (\<forall>k < ?n. P (xs ! (?i + k)) (ys ! k))"
    by (rule all_reversed)
  also have "\<dots> \<longleftrightarrow> prefix_match P (drop ?i xs) ys"
    using assms by (subst occ_nth) auto
  finally show ?thesis .
qed

text \<open>The last position at which the pattern occurs.\<close>

definition last_occ :: "('a \<Rightarrow> 'b \<Rightarrow> bool) \<Rightarrow> 'a list \<Rightarrow> 'b list \<Rightarrow> nat \<Rightarrow> bool" where
  "last_occ P xs ys j \<longleftrightarrow> prefix_match P (drop j xs) ys \<and> (\<forall>k > j. \<not> prefix_match P (drop k xs) ys)"

lemma occ_bound: "ys \<noteq> [] \<Longrightarrow> prefix_match P (drop j xs) ys \<Longrightarrow> j + length ys \<le> length xs"
  by (cases "j < length xs") (auto dest: prefix_match_length)

lemma last_occ_exists: "ys \<noteq> [] \<Longrightarrow> prefix_match P (drop j xs) ys \<Longrightarrow> \<exists>k. last_occ P xs ys k"
proof -
  assume ys: "ys \<noteq> []" and j: "prefix_match P (drop j xs) ys"
  define k where "k = (GREATEST k. prefix_match P (drop k xs) ys)"
  have b: "prefix_match P (drop k xs) ys \<Longrightarrow> k \<le> length xs" for k using occ_bound [OF ys] by fastforce
  have "prefix_match P (drop k xs) ys" unfolding k_def
    using GreatestI_nat [of "\<lambda>k. prefix_match P (drop k xs) ys" j "length xs"] j b by blast
  moreover have "\<not> prefix_match P (drop l xs) ys" if "l > k" for l
    using Greatest_le_nat [of "\<lambda>k. prefix_match P (drop k xs) ys" l "length xs"] b that unfolding k_def by fastforce
  ultimately show ?thesis unfolding last_occ_def by blast
qed

lemma find_end_last:
  assumes ys: "ys \<noteq> []"
  shows "last_occ P xs ys j \<Longrightarrow> find_end P xs ys = j"
    and "(\<And>k. \<not> prefix_match P (drop k xs) ys) \<Longrightarrow> find_end P xs ys = length xs"
proof -
  have r: "search P (rev xs) (rev ys) = first_occ P (rev xs) (rev ys)" using ys by (intro search_eq) simp
  {
    assume j: "last_occ P xs ys j"
    then have b: "j + length ys \<le> length xs" using occ_bound [OF ys, of P j xs] unfolding last_occ_def by blast
    define i where "i = length xs - j - length ys"
    have "prefix_match P (drop i (rev xs)) (rev ys)"
      using j b by (subst occ_rev) (auto simp: i_def last_occ_def)
    moreover have "\<not> prefix_match P (drop k (rev xs)) (rev ys)" if "k < i" for k
      using j b that by (subst occ_rev) (auto simp: i_def last_occ_def)
    ultimately have "first_occ P (rev xs) (rev ys) = i"
      using first_occ_before [of i P "rev xs" "rev ys"] first_occ_at [of P "rev xs" "rev ys"] first_occ_le [of P "rev xs" "rev ys"]
        first_occ_none [of "rev ys" P "rev xs" i] ys
      by (metis length_rev linorder_neqE_nat nat_less_le rev_is_Nil_conv)
    moreover have "0 < length ys" using ys by simp
    then have "i < length xs" "length xs - i - length ys = j" unfolding i_def using b by linarith+
    ultimately show "find_end P xs ys = j" by (simp add: find_end_def r Let_def)
  next
    assume n: "\<And>k. \<not> prefix_match P (drop k xs) ys"
    have "\<not> prefix_match P (drop k (rev xs)) (rev ys)" for k
    proof
      assume o: "prefix_match P (drop k (rev xs)) (rev ys)"
      then have "k + length ys \<le> length xs" using occ_bound [of "rev ys" P k "rev xs"] ys by simp
      with o n show False by (simp add: occ_rev)
    qed
    then have "first_occ P (rev xs) (rev ys) = length xs"
      using first_occ_at [of P "rev xs" "rev ys"] first_occ_le [of P "rev xs" "rev ys"] by (metis le_neq_implies_less length_rev)
    then show "find_end P xs ys = length xs" by (simp add: find_end_def r)
  }
qed

lemma find_end_loop_last:
  assumes ys: "ys \<noteq> []"
  shows "(last_occ P xs ys j \<longrightarrow> find_end_loop P xs ys i res = i + j)
    \<and> ((\<forall>k. \<not> prefix_match P (drop k xs) ys) \<longrightarrow> find_end_loop P xs ys i res = res)"
  using ys
proof (induction P xs ys i res arbitrary: j rule: find_end_loop.induct)
  case (1 P xs ys i res)
  define new where "new = first_occ P xs ys"
  have new: "search P xs ys = new" using "1.prems" by (simp add: search_eq new_def)
  show ?case
  proof (cases "length xs \<le> new")
    case True
    with first_occ_le [of P xs ys] have "new = length xs" by (simp add: new_def)
    then have "\<not> prefix_match P (drop k xs) ys" for k
      using first_occ_none "1.prems" by (simp add: new_def)
    with True show ?thesis by (subst (1 2) find_end_loop.simps) (auto simp: new Let_def last_occ_def)
  next
    case False
    let ?tl = "drop (Suc new) xs"
    have at: "prefix_match P (drop new xs) ys" using False first_occ_at [of P xs ys] by (simp add: new_def)
    have shift: "prefix_match P (drop k ?tl) ys \<longleftrightarrow> prefix_match P (drop (Suc (new + k)) xs) ys" for k
      by (simp add: add.commute)
    have step: "find_end_loop P xs ys i res = find_end_loop P ?tl ys (i + new + 1) (i + new)"
      using False by (subst find_end_loop.simps) (simp add: new Let_def)
    have IH: "(last_occ P ?tl ys k \<longrightarrow> find_end_loop P ?tl ys (i + new + 1) (i + new) = i + new + 1 + k)
      \<and> ((\<forall>k. \<not> prefix_match P (drop k ?tl) ys) \<longrightarrow> find_end_loop P ?tl ys (i + new + 1) (i + new) = i + new)" for k
      using "1.IH" [OF refl, of k] False "1.prems" by (simp add: new)
    have "find_end_loop P xs ys i res = i + j" if j: "last_occ P xs ys j"
    proof (cases "j = new")
      case True
      have "\<not> prefix_match P (drop k ?tl) ys" for k
        using j True unfolding shift by (auto simp: last_occ_def)
      with IH step True show ?thesis by simp
    next
      case neq: False
      have "\<not> j < new" using first_occ_before [of j P xs ys] j by (auto simp: new_def last_occ_def)
      with neq have lt: "new < j" by simp
      then have "Suc (new + (j - Suc new)) = j" by simp
      then have "last_occ P ?tl ys (j - Suc new)"
        using j unfolding last_occ_def shift by (auto simp: less_diff_conv2)
      with IH [of "j - Suc new"] step lt show ?thesis by simp
    qed
    with at show ?thesis by blast
  qed
qed

text \<open>searching the reversed ranges finds the same last occurrence as searching forward again and
  again.\<close>

theorem find_end_equivalent: "find_end P xs ys = find_end_forward P xs ys"
proof (cases "ys = []")
  case True
  then show ?thesis by (simp add: find_end_def find_end_forward_def search_def)
next
  case ys: False
  show ?thesis
  proof (cases "\<exists>j. prefix_match P (drop j xs) ys")
    case True
    with last_occ_exists [OF ys] obtain k where "last_occ P xs ys k" by blast
    with find_end_last(1) [OF ys this] find_end_loop_last [OF ys, of P xs k 0 "length xs"] ys show ?thesis
      by (simp add: find_end_forward_def)
  next
    case False
    with find_end_last(2) [OF ys, of P xs] find_end_loop_last [OF ys, of P xs 0 0 "length xs"] ys show ?thesis
      by (simp add: find_end_forward_def)
  qed
qed

lemma take_occurs: "s \<noteq> [] \<Longrightarrow> n \<le> length str \<Longrightarrow>
  prefix_match (=) (drop i (take n str)) s \<longleftrightarrow> occurs_in str s i \<and> i + length s \<le> n"
proof -
  assume s: "s \<noteq> []" and n: "n \<le> length str"
  have "prefix_match (=) (drop i (take n str)) s \<longleftrightarrow> i + length s \<le> n \<and> take (length s) (drop i (take n str)) = s"
    using occ_bound [OF s, of "(=)" i "take n str"] n by (auto simp: prefix_match_eq)
  also have "\<dots> \<longleftrightarrow> i + length s \<le> n \<and> take (length s) (drop i str) = s"
    by (auto simp: drop_take min_def)
  finally show ?thesis using n by (auto simp: occurs_in_def)
qed

text \<open>\<open>rfind\<close> returns the largest position up to \<open>pos\<close> at which the pattern occurs, and \<open>npos\<close>
  exactly if there is none.\<close>

theorem string_rfind_last:
  "str_rfind str s pos = Some i \<longleftrightarrow>
     i \<le> pos \<and> occurs_in str s i \<and> (\<forall>j. i < j \<and> j \<le> pos \<longrightarrow> \<not> occurs_in str s j)"
proof (cases "s = [] \<or> length str < length s")
  case True
  then show ?thesis by (auto simp: str_rfind_def occurs_in_empty Let_def min_def) (auto simp: occurs_in_def)
next
  case False
  then have s: "s \<noteq> []" and l: "length s \<le> length str" by auto
  define n where "n = min (length str - length s) pos + length s"
  have n: "n \<le> length str" "length s \<le> n" using l by (auto simp: n_def)
  have f: "str_rfind str s pos = npos_or n (find_end (=) (take n str) s)"
    using False by (simp add: str_rfind_def n_def Let_def)
  have upto: "occurs_in str s j \<and> j \<le> pos \<longleftrightarrow> prefix_match (=) (drop j (take n str)) s" for j
    unfolding take_occurs [OF s n(1)] by (auto simp: n_def occurs_in_def)
  show ?thesis
  proof (cases "\<exists>j. prefix_match (=) (drop j (take n str)) s")
    case False
    with find_end_last(2) [OF s, of "(=)" "take n str"] n have "str_rfind str s pos = None"
      by (simp add: f npos_or_def)
    with False upto show ?thesis by auto
  next
    case True
    with last_occ_exists [OF s] obtain k where k: "last_occ (=) (take n str) s k" by blast
    have "k + length s \<le> n" using k take_occurs [OF s n(1)] by (auto simp: last_occ_def)
    moreover have "0 < length s" using s by simp
    ultimately have "k \<noteq> n" by linarith
    with find_end_last(1) [OF s k] have r: "str_rfind str s pos = Some k" by (simp add: f npos_or_def)
    have "k \<le> pos \<and> occurs_in str s k" "\<forall>j. k < j \<and> j \<le> pos \<longrightarrow> \<not> occurs_in str s j"
      using k upto by (auto simp: last_occ_def)
    then show ?thesis unfolding r by (metis linorder_neqE_nat option.inject)
  qed
qed

theorem string_rfind_last_witness:
  "str_rfind ''a/b/c'' ''/'' 9 = Some 3 \<and> occurs_in ''a/b/c'' ''/'' 3"
proof -
  have "str_rfind ''a/b/c'' ''/'' 9 = Some 3"
    by (simp add: str_rfind_def find_end_def search_def npos_or_def)
  with string_rfind_last [of "''a/b/c''" "''/''" 9 3] show ?thesis by blast
qed

section \<open>Searching for characters\<close>

definition first_from :: "(char \<Rightarrow> bool) \<Rightarrow> string \<Rightarrow> nat \<Rightarrow> nat \<Rightarrow> bool" where
  "first_from P str pos i \<longleftrightarrow> pos \<le> i \<and> i < length str \<and> P (str ! i) \<and> (\<forall>j. pos \<le> j \<and> j < i \<longrightarrow> \<not> P (str ! j))"

definition last_upto :: "(char \<Rightarrow> bool) \<Rightarrow> string \<Rightarrow> nat \<Rightarrow> nat \<Rightarrow> bool" where
  "last_upto P str pos i \<longleftrightarrow> i \<le> pos \<and> i < length str \<and> P (str ! i)
     \<and> (\<forall>j. i < j \<and> j \<le> pos \<and> j < length str \<longrightarrow> \<not> P (str ! j))"

lemma find_if_input_iff:
  "find_if_input P xs = i \<and> i < length xs \<longleftrightarrow> i < length xs \<and> P (xs ! i) \<and> (\<forall>j < i. \<not> P (xs ! j))"
  using find_if_input_at [of P xs] find_if_input_before [of _ P xs] find_if_input_le [of P xs]
  by (metis le_neq_implies_less linorder_neqE_nat find_if_input_end nth_mem)

lemma forward_search:
  "pos \<le> length str \<Longrightarrow> npos_or (length str) (pos + find_if_input P (drop pos str)) = Some i \<longleftrightarrow> first_from P str pos i"
proof -
  assume p: "pos \<le> length str"
  have "npos_or (length str) (pos + find_if_input P (drop pos str)) = Some i \<longleftrightarrow>
      pos \<le> i \<and> find_if_input P (drop pos str) = i - pos \<and> i - pos < length (drop pos str)"
    using p find_if_input_le [of P "drop pos str"] by (auto simp: npos_or_def)
  also have "\<dots> \<longleftrightarrow> pos \<le> i \<and> i - pos < length (drop pos str) \<and> P (drop pos str ! (i - pos))
      \<and> (\<forall>j < i - pos. \<not> P (drop pos str ! j))"
    using find_if_input_iff [of P "drop pos str" "i - pos"] by blast
  also have "\<dots> \<longleftrightarrow> first_from P str pos i"
    using p by (auto simp: first_from_def less_diff_conv2)
      (metis add.commute le_Suc_ex less_diff_conv nat_add_left_cancel_less)+
  finally show ?thesis .
qed

lemma backward_search:
  "from_end str pos (find_if_input P) = Some i \<longleftrightarrow> last_upto P str pos i"
proof (cases "str = []")
  case True
  then show ?thesis by (simp add: from_end_def last_upto_def)
next
  case False
  define n where "n = min (length str - 1) pos + 1"
  obtain m where m: "length str = Suc m" using False by (cases str) auto
  have n: "0 < n" "n \<le> length str" by (simp_all add: n_def m)
  have upto: "j < n \<longleftrightarrow> j \<le> pos \<and> j < length str" for j by (auto simp: n_def m)
  define r where "r = find_if_input P (rev (take n str))"
  have fe: "from_end str pos (find_if_input P) = (if r \<noteq> n then Some (n - r - 1) else None)"
    using False unfolding from_end_def Let_def n_def r_def by simp
  have nth: "rev (take n str) ! j = str ! (n - 1 - j)" if "j < n" for j
    using that n by (simp add: rev_nth)
  have len: "length (rev (take n str)) = n" using n by simp
  have "r \<le> n" using find_if_input_le [of P "rev (take n str)"] len by (simp add: r_def)
  show ?thesis
  proof (cases "r < n")
    case True
    then have at: "P (str ! (n - 1 - r))"
      using find_if_input_at [of P "rev (take n str)"] nth [OF True] len by (simp add: r_def)
    have before: "\<not> P (str ! j)" if "n - 1 - r < j" "j < n" for j
    proof -
      have "n - 1 - j < r" "n - 1 - j < n" "n - 1 - (n - 1 - j) = j" using that True by auto
      with find_if_input_before [of "n - 1 - j" P "rev (take n str)"] nth [of "n - 1 - j"] show ?thesis
        by (simp add: r_def)
    qed
    have "n - 1 - r < n" using n by simp
    have "from_end str pos (find_if_input P) = Some (n - 1 - r)" using True fe by simp
    moreover have "last_upto P str pos i \<longleftrightarrow> i = n - 1 - r"
    proof
      assume l: "last_upto P str pos i"
      then have "i < n" "P (str ! i)" by (simp_all add: last_upto_def upto)
      with before have "\<not> n - 1 - r < i" by blast
      moreover have "\<not> i < n - 1 - r" using l at \<open>n - 1 - r < n\<close> upto by (auto simp: last_upto_def)
      ultimately show "i = n - 1 - r" by simp
    next
      assume "i = n - 1 - r"
      then show "last_upto P str pos i" using at before \<open>n - 1 - r < n\<close> upto by (auto simp: last_upto_def)
    qed
    ultimately show ?thesis by auto
  next
    case False
    with \<open>r \<le> n\<close> have "r = n" by simp
    with fe have "from_end str pos (find_if_input P) = None" by simp
    moreover have "\<not> last_upto P str pos i"
    proof
      assume "last_upto P str pos i"
      then have i: "i < n" "P (str ! i)" by (simp_all add: last_upto_def upto)
      then have "n - 1 - i < r" "n - 1 - i < n" "n - 1 - (n - 1 - i) = i" using \<open>r = n\<close> by auto
      with find_if_input_before [of "n - 1 - i" P "rev (take n str)"] nth [of "n - 1 - i"] i show False
        by (simp add: r_def)
    qed
    ultimately show ?thesis by simp
  qed
qed

lemma hints_find: "find_first_of_hints id xs s = find_if_input (\<lambda>c. c \<in> set s) xs"
  "find_first_of_hints Not xs s = find_if_input (\<lambda>c. c \<notin> set s) xs"
  by (simp_all add: find_first_of_hints_def Let_def hints_correct id_def)

lemma npos_or_end: "npos_or n n = None" by (simp add: npos_or_def)

lemma first_from_end: "length str \<le> pos \<Longrightarrow> \<not> first_from P str pos i"
  by (simp add: first_from_def)

lemma bounded_search:
  "(if length str \<le> pos then None else npos_or (length str) (pos + find_if_input P (drop pos str))) = Some i
     \<longleftrightarrow> first_from P str pos i"
  by (simp add: forward_search first_from_end)

lemma unbounded_search:
  "(if length str < 1 then None
    else if pos \<le> length str then npos_or (length str) (pos + find_if_input P (drop pos str)) else None) = Some i
     \<longleftrightarrow> first_from P str pos i"
  by (auto simp: forward_search first_from_def)

text \<open>the eight searches for characters return the first position from \<open>pos\<close> on, or the last one up to
  \<open>pos\<close>, whose character is (or is not) the given one or one of the given set.\<close>

theorem character_searches:
  "str_find_char str c pos = Some i \<longleftrightarrow> first_from (\<lambda>x. x = c) str pos i"
  "str_find_first_of str s pos = Some i \<longleftrightarrow> first_from (\<lambda>x. x \<in> set s) str pos i"
  "str_find_first_not_of str s pos = Some i \<longleftrightarrow> first_from (\<lambda>x. x \<notin> set s) str pos i"
  "str_find_first_not_of_char str c pos = Some i \<longleftrightarrow> first_from (\<lambda>x. x \<noteq> c) str pos i"
  "str_rfind_char str c pos = Some i \<longleftrightarrow> last_upto (\<lambda>x. x = c) str pos i"
  "str_find_last_of str s pos = Some i \<longleftrightarrow> last_upto (\<lambda>x. x \<in> set s) str pos i"
  "str_find_last_not_of str s pos = Some i \<longleftrightarrow> last_upto (\<lambda>x. x \<notin> set s) str pos i"
  "str_find_last_not_of_char str c pos = Some i \<longleftrightarrow> last_upto (\<lambda>x. x \<noteq> c) str pos i"
  by (simp_all only: str_find_char_def str_find_first_of_def str_find_first_not_of_def str_find_first_not_of_char_def
        str_rfind_char_def str_find_last_of_def str_find_last_not_of_def str_find_last_not_of_char_def
        find_if_random_eq [abs_def] hints_find bounded_search unbounded_search backward_search)

section \<open>lower_bound and the comparisons\<close>

lemma lower_bound_loop_eq:
  assumes "first \<le> k" "k \<le> first + len"
    and "\<forall>i < k. cmp (xs ! i) v" and "\<forall>i. k \<le> i \<and> i < first + len \<longrightarrow> \<not> cmp (xs ! i) v"
  shows "lower_bound_loop cmp xs v first len = k"
  using assms
proof (induction cmp xs v first len rule: lower_bound_loop.induct)
  case (1 cmp xs v first len)
  show ?case
  proof (cases "len = 0")
    case True
    with "1.prems" show ?thesis by (simp add: lower_bound_loop.simps)
  next
    case False
    let ?m = "first + len div 2"
    have m: "?m < first + len" using False by simp
    show ?thesis
    proof (cases "cmp (xs ! ?m) v")
      case True
      with "1.prems"(4) m have "?m < k" by (metis not_less)
      then have "lower_bound_loop cmp xs v (?m + 1) (len - len div 2 - 1) = k"
        using "1.IH"(1) [OF _ refl refl True] False "1.prems" by auto
      with True False show ?thesis by (subst lower_bound_loop.simps) (simp add: Let_def)
    next
      case c: False
      with "1.prems"(3) have "k \<le> ?m" by (metis not_less)
      then have "lower_bound_loop cmp xs v first (len div 2) = k"
        using "1.IH"(2) [OF _ refl refl c] False "1.prems" m by auto
      with c False show ?thesis by (subst lower_bound_loop.simps) (simp add: Let_def)
    qed
  qed
qed

text \<open>on a sorted range \<open>lower_bound\<close> returns the first position at which the value can be inserted
  without breaking the order: everything before is smaller, nothing from there on is.\<close>

theorem lower_bound_insertion_point:
  fixes xs :: "'a::linorder list"
  assumes "sorted xs"
  shows "lower_bound (<) xs v \<le> length xs \<and> (\<forall>i < lower_bound (<) xs v. xs ! i < v)
    \<and> (\<forall>i. lower_bound (<) xs v \<le> i \<and> i < length xs \<longrightarrow> v \<le> xs ! i)
    \<and> sorted (take (lower_bound (<) xs v) xs @ v # drop (lower_bound (<) xs v) xs)"
proof -
  define k where "k = find_if_input (\<lambda>x. \<not> x < v) xs"
  have k: "k \<le> length xs" by (simp add: k_def find_if_input_le)
  have lo: "xs ! i < v" if "i < k" for i using find_if_input_before [of i "\<lambda>x. \<not> x < v" xs] that by (simp add: k_def)
  have hi: "v \<le> xs ! i" if "k \<le> i" "i < length xs" for i
  proof -
    have "\<not> xs ! k < v" using find_if_input_at [of "\<lambda>x. \<not> x < v" xs] that by (simp add: k_def)
    with sorted_nth_mono [OF assms that(1,2)] show ?thesis by simp
  qed
  have "lower_bound (<) xs v = k"
    unfolding lower_bound_def by (rule lower_bound_loop_eq) (use k lo hi in \<open>auto simp: not_less\<close>)
  moreover have "xs ! i \<le> xs ! (k + j)" if "i < k" "j < length xs - k" for i j
    using lo [OF that(1)] hi [of "k + j"] that by fastforce
  then have "sorted (take k xs @ v # drop k xs)"
    using assms k lo hi
    by (auto simp: sorted_append sorted_wrt_take sorted_wrt_drop in_set_conv_nth less_imp_le)
  ultimately show ?thesis using k lo hi by auto
qed

theorem lower_bound_insertion_point_witness: "lower_bound (<) [1, 3, 3, 7] (3 :: nat) = 1"
proof -
  have "sorted [1, 3, 3, 7 :: nat]" by simp
  note h = lower_bound_insertion_point [OF this, of 3]
  show ?thesis
  proof (rule ccontr)
    assume "lower_bound (<) [1, 3, 3, 7] (3 :: nat) \<noteq> 1"
    then consider "lower_bound (<) [1, 3, 3, 7] (3 :: nat) = 0" | "1 < lower_bound (<) [1, 3, 3, 7] (3 :: nat)" by linarith
    then show False
    proof cases
      case 1
      with h have "(3 :: nat) \<le> [1, 3, 3, 7] ! 0" by (metis length_greater_0_conv le_refl list.distinct(1))
      then show False by simp
    next
      case 2
      with h have "[1, 3, 3, 7] ! 1 < (3 :: nat)" by blast
      then show False by simp
    qed
  qed
qed

text \<open>the three-way comparison agrees with the two-way one in both directions, and for a linear order
  it is 0 only for equal ranges.\<close>

theorem compare_3way_consistent:
  assumes "\<And>x y. lt x y \<Longrightarrow> \<not> lt y x"
  shows "lexicographical_compare_3way lt xs ys =
    (if lexicographical_compare lt xs ys then -1 else if lexicographical_compare lt ys xs then 1 else 0)"
  using assms
  by (induction lt xs ys rule: lexicographical_compare_3way.induct) (auto simp: neq_Nil_conv)

theorem compare_3way_consistent_witness:
  "lexicographical_compare_3way (<) [1, 2] [1, 3 :: nat] = -1 \<and> lexicographical_compare (<) [1, 2] [1, 3 :: nat]"
proof -
  have "\<And>x y :: nat. x < y \<Longrightarrow> \<not> y < x" by simp
  from compare_3way_consistent [OF this, where xs = "[1, 2]" and ys = "[1, 3]"] show ?thesis by simp
qed

end
