(* ===== verification/StlHeap.thy ===== *)
theory StlHeap
  imports Prelude "HOL-Library.Multiset" "HOL-Library.Monad_Syntax"
begin

text \<open>
  The heaps of the C++ library (\<open>stl/_heap.h\<close>, \<open>stl/_heap.c\<close>) and partial sorting on top of them
  (\<open>stl/_algo.c\<close>).  The algorithms get a pair of random access iterators; the block they point into is a
  list here, an iterator an index, and an access behind its end, or in front of its beginning, is \<open>None\<close>.  An index
  handed to a heap operation is relative to \<open>__first\<close>, as in the code.  The comparison is a parameter; what
  it must be, a strict weak ordering, is the locale \<open>strict_weak\<close>.
\<close>

section \<open>Blocks of elements\<close>

definition load :: "'a list \<Rightarrow> nat \<Rightarrow> 'a option" where
  "load a i = (if i < length a then Some (a ! i) else None)"

definition store :: "'a list \<Rightarrow> nat \<Rightarrow> 'a \<Rightarrow> 'a list option" where
  "store a i x = (if i < length a then Some (a[i := x]) else None)"

lemma load_in [simp]: "i < length a \<Longrightarrow> load a i = Some (a ! i)"
  and store_in [simp]: "i < length a \<Longrightarrow> store a i x = Some (a[i := x])"
  by (simp_all add: load_def store_def)

section \<open>The heap operations\<close>

abbreviation par :: "nat \<Rightarrow> nat" where "par i \<equiv> (i - 1) div 2"

text \<open>\<open>__push_heap\<close>: the value goes up from the hole.\<close>

function push_up :: "('a \<Rightarrow> 'a \<Rightarrow> bool) \<Rightarrow> nat \<Rightarrow> nat \<Rightarrow> nat \<Rightarrow> 'a \<Rightarrow> 'a list \<Rightarrow> 'a list option" where
  "push_up lt first hole topmost val a =
     (if topmost < hole then do {
        x \<leftarrow> load a (first + par hole);
        if lt x val then do {
          a \<leftarrow> store a (first + hole) x;
          push_up lt first (par hole) topmost val a
        } else store a (first + hole) val
      } else store a (first + hole) val)"
  by auto

termination by (relation "measure (\<lambda>(lt, first, hole, topmost, val, a). hole)") auto

declare push_up.simps [simp del]

definition push_heap :: "('a \<Rightarrow> 'a \<Rightarrow> bool) \<Rightarrow> nat \<Rightarrow> nat \<Rightarrow> 'a list \<Rightarrow> 'a list option" where
  "push_heap lt first last' a = do {
     val \<leftarrow> load a (last' - 1);
     push_up lt first (last' - first - 1) 0 val a
   }"

text \<open>\<open>__adjust_heap\<close>: the hole goes down to a leaf, then the value up from there.\<close>

function walk_down :: "('a \<Rightarrow> 'a \<Rightarrow> bool) \<Rightarrow> nat \<Rightarrow> nat \<Rightarrow> nat \<Rightarrow> nat \<Rightarrow> 'a list \<Rightarrow> ('a list \<times> nat \<times> nat) option" where
  "walk_down lt first hole second len a =
     (if second < len then do {
        x \<leftarrow> load a (first + second);
        y \<leftarrow> load a (first + (second - 1));
        let child = (if lt x y then second - 1 else second);
        z \<leftarrow> load a (first + child);
        a \<leftarrow> store a (first + hole) z;
        walk_down lt first child (2 * (child + 1)) len a
      } else Some (a, hole, second))"
  by auto

termination by (relation "measure (\<lambda>(lt, first, hole, second, len, a). len - second)") auto

declare walk_down.simps [simp del]

definition adjust_heap :: "('a \<Rightarrow> 'a \<Rightarrow> bool) \<Rightarrow> nat \<Rightarrow> nat \<Rightarrow> nat \<Rightarrow> 'a \<Rightarrow> 'a list \<Rightarrow> 'a list option" where
  "adjust_heap lt first hole len val a = do {
     (a, h, second) \<leftarrow> walk_down lt first hole (2 * hole + 2) len a;
     if second = len then do {
       x \<leftarrow> load a (first + (second - 1));
       a \<leftarrow> store a (first + h) x;
       push_up lt first (second - 1) hole val a
     } else push_up lt first h hole val a
   }"

text \<open>\<open>__pop_heap\<close> puts the first element of the heap to \<open>__result\<close> and a value in its place.\<close>

definition pop_heap_to :: "('a \<Rightarrow> 'a \<Rightarrow> bool) \<Rightarrow> nat \<Rightarrow> nat \<Rightarrow> nat \<Rightarrow> 'a \<Rightarrow> 'a list \<Rightarrow> 'a list option" where
  "pop_heap_to lt first last' result val a = do {
     x \<leftarrow> load a first;
     a \<leftarrow> store a result x;
     adjust_heap lt first 0 (last' - first) val a
   }"

definition pop_heap :: "('a \<Rightarrow> 'a \<Rightarrow> bool) \<Rightarrow> nat \<Rightarrow> nat \<Rightarrow> 'a list \<Rightarrow> 'a list option" where
  "pop_heap lt first last' a = do {
     val \<leftarrow> load a (last' - 1);
     pop_heap_to lt first (last' - 1) (last' - 1) val a
   }"

fun make_heap_loop :: "('a \<Rightarrow> 'a \<Rightarrow> bool) \<Rightarrow> nat \<Rightarrow> nat \<Rightarrow> nat \<Rightarrow> 'a list \<Rightarrow> 'a list option" where
  "make_heap_loop lt first len 0 a = do {
     val \<leftarrow> load a (first + 0);
     adjust_heap lt first 0 len val a
   }"
| "make_heap_loop lt first len (Suc parent) a = do {
     val \<leftarrow> load a (first + Suc parent);
     a \<leftarrow> adjust_heap lt first (Suc parent) len val a;
     make_heap_loop lt first len parent a
   }"

definition make_heap :: "('a \<Rightarrow> 'a \<Rightarrow> bool) \<Rightarrow> nat \<Rightarrow> nat \<Rightarrow> 'a list \<Rightarrow> 'a list option" where
  "make_heap lt first last' a =
     (if last' - first < 2 then Some a else make_heap_loop lt first (last' - first) ((last' - first - 2) div 2) a)"

function sort_heap :: "('a \<Rightarrow> 'a \<Rightarrow> bool) \<Rightarrow> nat \<Rightarrow> nat \<Rightarrow> 'a list \<Rightarrow> 'a list option" where
  "sort_heap lt first last' a =
     (if 1 < last' - first then do {
        a \<leftarrow> pop_heap lt first last' a;
        sort_heap lt first (last' - 1) a
      } else Some a)"
  by auto

termination by (relation "measure (\<lambda>(lt, first, last', a). last')") auto

declare sort_heap.simps [simp del]

text \<open>\<open>__is_heap\<close>.\<close>

function is_heap_loop :: "('a \<Rightarrow> 'a \<Rightarrow> bool) \<Rightarrow> nat \<Rightarrow> nat \<Rightarrow> nat \<Rightarrow> nat \<Rightarrow> 'a list \<Rightarrow> bool option" where
  "is_heap_loop lt first parent child n a =
     (if child < n then do {
        x \<leftarrow> load a (first + parent);
        y \<leftarrow> load a (first + child);
        if lt x y then Some False
        else is_heap_loop lt first (if even child then parent + 1 else parent) (child + 1) n a
      } else Some True)"
  by auto

termination by (relation "measure (\<lambda>(lt, first, parent, child, n, a). n - child)") auto

declare is_heap_loop.simps [simp del]

definition is_heap :: "('a \<Rightarrow> 'a \<Rightarrow> bool) \<Rightarrow> nat \<Rightarrow> nat \<Rightarrow> 'a list \<Rightarrow> bool option" where
  "is_heap lt first last' a = is_heap_loop lt first 0 1 (last' - first) a"

section \<open>Partial sorting\<close>

function partial_loop :: "('a \<Rightarrow> 'a \<Rightarrow> bool) \<Rightarrow> nat \<Rightarrow> nat \<Rightarrow> nat \<Rightarrow> nat \<Rightarrow> 'a list \<Rightarrow> 'a list option" where
  "partial_loop lt first middle i last' a =
     (if i < last' then do {
        x \<leftarrow> load a i;
        y \<leftarrow> load a first;
        a \<leftarrow> (if lt x y then pop_heap_to lt first middle i x a else Some a);
        partial_loop lt first middle (i + 1) last' a
      } else Some a)"
  by auto

termination by (relation "measure (\<lambda>(lt, first, middle, i, last', a). last' - i)") auto

declare partial_loop.simps [simp del]

definition partial_sort :: "('a \<Rightarrow> 'a \<Rightarrow> bool) \<Rightarrow> nat \<Rightarrow> nat \<Rightarrow> nat \<Rightarrow> 'a list \<Rightarrow> 'a list option" where
  "partial_sort lt first middle last' a = do {
     a \<leftarrow> make_heap lt first middle a;
     a \<leftarrow> partial_loop lt first middle middle last' a;
     sort_heap lt first middle a
   }"

text \<open>\<open>__partial_sort_copy\<close> from a range of input iterators.\<close>

fun copy_some :: "'a list \<Rightarrow> nat \<Rightarrow> nat \<Rightarrow> 'a list \<Rightarrow> ('a list \<times> nat \<times> 'a list) option" where
  "copy_some [] real_last result_last a = Some ([], real_last, a)"
| "copy_some (x # xs) real_last result_last a =
     (if real_last \<noteq> result_last then do {
        a \<leftarrow> store a real_last x;
        copy_some xs (real_last + 1) result_last a
      } else Some (x # xs, real_last, a))"

fun replace_larger :: "('a \<Rightarrow> 'a \<Rightarrow> bool) \<Rightarrow> 'a list \<Rightarrow> nat \<Rightarrow> nat \<Rightarrow> 'a list \<Rightarrow> 'a list option" where
  "replace_larger lt [] first real_last a = Some a"
| "replace_larger lt (x # xs) first real_last a = do {
     y \<leftarrow> load a first;
     a \<leftarrow> (if lt x y then adjust_heap lt first 0 (real_last - first) x a else Some a);
     replace_larger lt xs first real_last a
   }"

definition partial_sort_copy ::
    "('a \<Rightarrow> 'a \<Rightarrow> bool) \<Rightarrow> 'a list \<Rightarrow> nat \<Rightarrow> nat \<Rightarrow> 'a list \<Rightarrow> ('a list \<times> nat) option" where
  "partial_sort_copy lt xs first last' a =
     (if first = last' then Some (a, last')
      else do {
        (rest, real_last, a) \<leftarrow> copy_some xs first last' a;
        a \<leftarrow> make_heap lt first real_last a;
        a \<leftarrow> replace_larger lt rest first real_last a;
        a \<leftarrow> sort_heap lt first real_last a;
        Some (a, real_last)
      })"

end
