(* ===== verification/StlSearchN.thy ===== *)
theory StlSearchN
  imports StlSearchProps StlHeap
begin

text \<open>
  \<open>search_n\<close> (\<open>stl/_algo.c\<close>): the first of a number of consecutive elements that satisfy a predicate.  There
  are two versions; one jumps over the range and looks back.  An access outside of the range is
  \<open>None\<close> there, and so is a loop that does not end.
\<close>

section \<open>search_n\<close>

text \<open>The version for forward iterators: a run of elements that match, what is left of the count and of the
  range.\<close>

fun run_on :: "('a \<Rightarrow> bool) \<Rightarrow> 'a list \<Rightarrow> nat \<Rightarrow> nat \<times> 'a list" where
  "run_on pred (x # xs) (Suc n) = (if pred x then run_on pred xs n else (Suc n, x # xs))"
| "run_on pred xs n = (n, xs)"

lemma run_on_shorter: "run_on pred xs n = (m, ys) \<Longrightarrow> length ys \<le> length xs"
  by (induction pred xs n arbitrary: m ys rule: run_on.induct) (auto split: if_splits intro: le_SucI)

lemma drop_shorter: "drop i xs = x # ys \<Longrightarrow> length ys < length xs"
  by (metis Suc_le_eq diff_le_self length_Cons length_drop)

function search_n_forward :: "('a \<Rightarrow> bool) \<Rightarrow> nat \<Rightarrow> 'a list \<Rightarrow> nat" where
  "search_n_forward pred cnt xs =
     (let i = find_if_input pred xs in
      case drop i xs of [] \<Rightarrow> i
      | x # ys \<Rightarrow> (case run_on pred ys (cnt - 1) of
          (0, rest) \<Rightarrow> i
        | (Suc n, []) \<Rightarrow> length xs
        | (Suc n, z # zs) \<Rightarrow> (length xs - length zs) + search_n_forward pred cnt zs))"
  by auto

termination by (relation "measure (\<lambda>(pred, cnt, xs). length xs)") (auto dest!: run_on_shorter [OF sym] drop_shorter)

declare search_n_forward.simps [simp del]

text \<open>The version for random access iterators.  \<open>a\<close> is the range, \<open>p\<close> is \<open>__pattSize\<close>, \<open>l\<close> \<open>__lookAhead\<close>, \<open>t\<close>
  \<open>__tailSize\<close>; \<open>Inl\<close> is a return from inside a loop.  \<open>run_back\<close> steps back from \<open>__backTrack\<close>: \<open>None\<close> is success, else
  the remainder.\<close>

fun run_back :: "('a \<Rightarrow> bool) \<Rightarrow> 'a list \<Rightarrow> nat \<Rightarrow> nat \<Rightarrow> nat option option" where
  "run_back pred a 0 remainder = None"
| "run_back pred a (Suc i) remainder = do {
     x \<leftarrow> load a i;
     if pred x then if remainder - 1 = 0 then Some None else run_back pred a i (remainder - 1)
     else Some (Some remainder)
   }"

partial_function (option) skip_loop :: "('a \<Rightarrow> bool) \<Rightarrow> 'a list \<Rightarrow> nat \<Rightarrow> nat \<Rightarrow> nat \<Rightarrow> (nat + nat \<times> nat) option" where
  "skip_loop pred a p l t = Option.bind (load a l) (\<lambda>x.
     if \<not> pred x then if t < p then Some (Inl (length a)) else skip_loop pred a p (l + p) (t - p)
     else Some (Inr (l, t)))"

partial_function (option) rematch :: "('a \<Rightarrow> bool) \<Rightarrow> 'a list \<Rightarrow> nat \<Rightarrow> nat \<Rightarrow> nat \<Rightarrow> nat \<Rightarrow> (nat + nat \<times> nat) option" where
  "rematch pred a p l t remainder = Option.bind (load a l) (\<lambda>x.
     if pred x
     then Option.bind (if remainder - 1 = 0 then Some None else run_back pred a l (remainder - 1)) (\<lambda>r.
       if r = None then Some (Inl (l - (p - 1)))
       else let remainder' = the r + (p - remainder) in
         if t < remainder' then Some (Inl (length a)) else rematch pred a p (l + remainder') (t - remainder') remainder')
     else Some (Inr (l, t)))"

definition first_match :: "('a \<Rightarrow> bool) \<Rightarrow> 'a list \<Rightarrow> nat \<Rightarrow> nat \<Rightarrow> nat \<Rightarrow> (nat + nat \<times> nat) option" where
  "first_match pred a p l t =
     (if p - 1 = 0 then Some (Inl (l - (p - 1)))
      else do {
        r \<leftarrow> run_back pred a l (p - 1);
        case r of None \<Rightarrow> Some (Inl (l - (p - 1)))
        | Some remainder \<Rightarrow> if t < remainder then Some (Inl (length a)) else rematch pred a p (l + remainder) (t - remainder) remainder
      })"

partial_function (option) search_n_loop :: "('a \<Rightarrow> bool) \<Rightarrow> 'a list \<Rightarrow> nat \<Rightarrow> nat \<Rightarrow> nat \<Rightarrow> nat option" where
  "search_n_loop pred a p l t =
     (if p \<le> t then Option.bind (skip_loop pred a p l (t - p)) (\<lambda>r. case r of
        Inl i \<Rightarrow> Some i
      | Inr s \<Rightarrow> Option.bind (first_match pred a p (fst s) (snd s)) (\<lambda>r. case r of
          Inl i \<Rightarrow> Some i
        | Inr s \<Rightarrow> search_n_loop pred a p (fst s + p) (snd s)))
      else Some (length a))"

definition search_n_random :: "('a \<Rightarrow> bool) \<Rightarrow> nat \<Rightarrow> 'a list \<Rightarrow> nat option" where
  "search_n_random pred cnt a = search_n_loop pred a cnt (cnt - 1) (length a)"

text \<open>\<open>search_n\<close> itself, for random access iterators.\<close>

definition search_n :: "('a \<Rightarrow> bool) \<Rightarrow> int \<Rightarrow> 'a list \<Rightarrow> nat option" where
  "search_n pred cnt a = (if cnt \<le> 0 then Some 0 else search_n_random pred (nat cnt) a)"

text \<open>The variant for a value uses \<open>find\<close> for a single element.\<close>

definition search_n_value :: "'a \<Rightarrow> int \<Rightarrow> 'a list \<Rightarrow> nat option" where
  "search_n_value val cnt a =
     (if cnt \<le> 0 then Some 0
      else if cnt = 1 then Some (find_random val a)
      else search_n_random (\<lambda>x. x = val) (nat cnt) a)"

section \<open>Both find the first run\<close>

text \<open>At \<open>j\<close> there are \<open>p\<close> elements that satisfy the predicate; no run ends before \<open>l\<close>; \<open>i\<close> is what a search
  has to return.\<close>

definition run_at :: "('a \<Rightarrow> bool) \<Rightarrow> 'a list \<Rightarrow> nat \<Rightarrow> nat \<Rightarrow> bool" where
  "run_at pred a p j \<longleftrightarrow> j + p \<le> length a \<and> (\<forall>i. j \<le> i \<and> i < j + p \<longrightarrow> pred (a ! i))"

definition none_before :: "('a \<Rightarrow> bool) \<Rightarrow> 'a list \<Rightarrow> nat \<Rightarrow> nat \<Rightarrow> bool" where
  "none_before pred a p l \<longleftrightarrow> (\<forall>j. run_at pred a p j \<longrightarrow> l < j + p)"

definition first_run :: "('a \<Rightarrow> bool) \<Rightarrow> 'a list \<Rightarrow> nat \<Rightarrow> nat \<Rightarrow> bool" where
  "first_run pred a p i \<longleftrightarrow> i \<le> length a \<and> (i < length a \<longrightarrow> run_at pred a p i) \<and> (\<forall>j < i. \<not> run_at pred a p j)"

lemma first_run_unique: "0 < p \<Longrightarrow> first_run pred a p i \<Longrightarrow> first_run pred a p j \<Longrightarrow> i = j"
  unfolding first_run_def by (metis (no_types, opaque_lifting) linorder_neqE_nat order_less_le_trans)

lemma none_before_mismatch:
  assumes "none_before pred a p l" "\<not> pred (a ! q)" "q \<le> l"
  shows "none_before pred a p (q + p)"
  unfolding none_before_def
proof (intro allI impI)
  fix j
  assume r: "run_at pred a p j"
  with assms(1) have "l < j + p" by (simp add: none_before_def)
  with r assms(2,3) have "q < j" unfolding run_at_def by (metis leI order_le_less_trans)
  then show "q + p < j + p" by simp
qed

lemma first_run_found:
  assumes "none_before pred a p l" "run_at pred a p j" "0 < p" "j + p = l + 1"
  shows "first_run pred a p j"
proof -
  have "\<not> run_at pred a p i" if "i < j" for i
  proof
    assume "run_at pred a p i"
    with assms(1) have "l < i + p" by (simp add: none_before_def)
    with that assms(4) show False by simp
  qed
  then show ?thesis using assms(2) by (simp add: first_run_def run_at_def)
qed

lemma first_run_none:
  assumes "none_before pred a p l" "length a \<le> l"
  shows "first_run pred a p (length a)"
proof -
  have "\<not> run_at pred a p i" for i
  proof
    assume r: "run_at pred a p i"
    with assms(1) have "l < i + p" by (simp add: none_before_def)
    with r assms(2) show False by (simp add: run_at_def)
  qed
  then show ?thesis by (simp add: first_run_def)
qed

lemma run_back_outcome:
  assumes "0 < remainder" "remainder \<le> i" "i \<le> length a"
  shows "(run_back pred a i remainder = Some None \<and> (\<forall>k. i - remainder \<le> k \<and> k < i \<longrightarrow> pred (a ! k)))
    \<or> (\<exists>r q. run_back pred a i remainder = Some (Some r) \<and> 0 < r \<and> r \<le> remainder \<and> q + 1 + remainder = i + r
          \<and> \<not> pred (a ! q) \<and> (\<forall>k. q < k \<and> k < i \<longrightarrow> pred (a ! k)))"
  using assms
proof (induction pred a i remainder rule: run_back.induct)
  case (2 pred a i remainder)
  have x: "load a i = Some (a ! i)" using "2.prems" by (simp add: load_def)
  consider "\<not> pred (a ! i)" | "pred (a ! i)" "remainder = 1" | "pred (a ! i)" "1 < remainder" using "2.prems" by linarith
  then show ?case
  proof cases
    case 1
    then show ?thesis using x "2.prems" by (auto intro!: exI [of _ i] simp: less_Suc_eq)
  next
    case 2
    then show ?thesis using x by (auto simp: less_Suc_eq)
  next
    case 3
    with "2.IH" [of "a ! i"] x "2.prems" have
      "(run_back pred a i (remainder - 1) = Some None \<and> (\<forall>k. i - (remainder - 1) \<le> k \<and> k < i \<longrightarrow> pred (a ! k)))
      \<or> (\<exists>r q. run_back pred a i (remainder - 1) = Some (Some r) \<and> 0 < r \<and> r \<le> remainder - 1 \<and> q + 1 + (remainder - 1) = i + r
            \<and> \<not> pred (a ! q) \<and> (\<forall>k. q < k \<and> k < i \<longrightarrow> pred (a ! k)))" by auto
    then show ?thesis
    proof (elim disjE exE conjE)
      fix r q
      assume h: "run_back pred a i (remainder - 1) = Some (Some r)" "0 < r" "r \<le> remainder - 1"
        "q + 1 + (remainder - 1) = i + r" "\<not> pred (a ! q)" "\<forall>k. q < k \<and> k < i \<longrightarrow> pred (a ! k)"
      then have "\<forall>k. q < k \<and> k < Suc i \<longrightarrow> pred (a ! k)" using 3 by (auto simp: less_Suc_eq)
      with h 3 x show ?thesis by (intro disjI2 exI [of _ r] exI [of _ q]) auto
    qed (use 3 x in \<open>auto simp: less_Suc_eq\<close>)
  qed
qed simp

text \<open>What a part of the search returns: a result, or a position to go on from.\<close>

definition searched :: "('a \<Rightarrow> bool) \<Rightarrow> 'a list \<Rightarrow> nat \<Rightarrow> nat \<Rightarrow> (nat \<Rightarrow> nat \<Rightarrow> bool) \<Rightarrow> (nat + nat \<times> nat) option \<Rightarrow> bool" where
  "searched pred a p t Q r \<longleftrightarrow> (case r of None \<Rightarrow> False | Some (Inl i) \<Rightarrow> first_run pred a p i
     | Some (Inr (l', t')) \<Rightarrow> l' + 1 + t' = length a \<and> t' \<le> t \<and> Q l' t')"

lemma searched_mono: "searched pred a p t Q r \<Longrightarrow> t \<le> t' \<Longrightarrow> searched pred a p t' Q r"
  by (auto simp: searched_def split: option.splits sum.splits)

lemma skip_loop_correct:
  assumes "l + 1 + t = length a" "0 < p" "none_before pred a p l" "p \<le> l + 1"
  shows "searched pred a p t (\<lambda>l' t'. pred (a ! l') \<and> none_before pred a p l' \<and> p \<le> l' + 1) (skip_loop pred a p l t)"
  using assms
proof (induction t arbitrary: l rule: less_induct)
  case (less t)
  have x: "load a l = Some (a ! l)" using less.prems by (simp add: load_def)
  show ?case
  proof (cases "pred (a ! l)")
    case True
    with less.prems x show ?thesis by (subst skip_loop.simps) (simp add: searched_def)
  next
    case False
    then have n: "none_before pred a p (l + p)" using less.prems by (intro none_before_mismatch) auto
    show ?thesis
    proof (cases "t < p")
      case True
      then have "first_run pred a p (length a)" using less.prems by (intro first_run_none [OF n]) simp
      with True False x show ?thesis by (subst skip_loop.simps) (simp add: searched_def)
    next
      case t: False
      then have "searched pred a p (t - p) (\<lambda>l' t'. pred (a ! l') \<and> none_before pred a p l' \<and> p \<le> l' + 1) (skip_loop pred a p (l + p) (t - p))"
        using less.prems n by (intro less.IH) auto
      from searched_mono [OF this, of t] False t x show ?thesis by (subst skip_loop.simps) simp
    qed
  qed
qed

lemma rematch_correct:
  assumes "l + 1 + t = length a" "0 < remainder" "remainder < p" "p \<le> l + 1" "none_before pred a p l"
    and "\<forall>i. l < i + p \<and> i + remainder \<le> l \<longrightarrow> pred (a ! i)"
  shows "searched pred a p t (\<lambda>l' t'. none_before pred a p (l' + p)) (rematch pred a p l t remainder)"
  using assms
proof (induction t arbitrary: l remainder rule: less_induct)
  case (less t)
  have x: "load a l = Some (a ! l)" using less.prems by (simp add: load_def)
  have found: "first_run pred a p (l - (p - 1))" if "\<forall>k. l - (remainder - 1) \<le> k \<and> k \<le> l \<longrightarrow> pred (a ! k)"
  proof (rule first_run_found [OF less.prems(5)])
    have "pred (a ! i)" if "l - (p - 1) \<le> i" "i \<le> l" for i
      using that less.prems(2-4,6) \<open>\<forall>k. l - (remainder - 1) \<le> k \<and> k \<le> l \<longrightarrow> pred (a ! k)\<close> by (cases "i + remainder \<le> l") auto
    then show "run_at pred a p (l - (p - 1))" using less.prems by (auto simp: run_at_def)
  qed (use less.prems in auto)
  show ?case
  proof (cases "pred (a ! l)")
    case False
    then have "none_before pred a p (l + p)" using less.prems by (intro none_before_mismatch) auto
    with less.prems x False show ?thesis by (subst rematch.simps) (simp add: searched_def)
  next
    case True
    show ?thesis
    proof (cases "remainder = 1")
      case r: True
      have "first_run pred a p (l - (p - 1))" by (rule found) (use r True in auto)
      with x True r show ?thesis by (subst rematch.simps) (simp add: searched_def)
    next
      case r: False
      then have "0 < remainder - 1" "remainder - 1 \<le> l" "l \<le> length a" using less.prems by auto
      from run_back_outcome [OF this, of pred] show ?thesis
      proof (elim disjE exE conjE)
        assume b: "run_back pred a l (remainder - 1) = Some None"
          and k: "\<forall>k. l - (remainder - 1) \<le> k \<and> k < l \<longrightarrow> pred (a ! k)"
        have "first_run pred a p (l - (p - 1))" by (rule found) (use k True in \<open>auto simp: le_less\<close>)
        with x True r b show ?thesis by (subst rematch.simps) (simp add: searched_def)
      next
        fix r' q
        assume b: "run_back pred a l (remainder - 1) = Some (Some r')" "0 < r'" "r' \<le> remainder - 1" "q + 1 + (remainder - 1) = l + r'"
          and q: "\<not> pred (a ! q)" and k: "\<forall>k. q < k \<and> k < l \<longrightarrow> pred (a ! k)"
        define m where "m = r' + (p - remainder)"
        have m: "q + p = l + m" "m < p" "0 < m" using b less.prems(3) by (auto simp: m_def)
        have n: "none_before pred a p (l + m)" unfolding m(1) [symmetric] using less.prems q b by (intro none_before_mismatch) auto
        show ?thesis
        proof (cases "t < m")
          case True
          then have "first_run pred a p (length a)" using less.prems by (intro first_run_none [OF n]) simp
          with b x r \<open>pred (a ! l)\<close> True \<open>0 < remainder - 1\<close> show ?thesis by (subst rematch.simps) (simp add: searched_def m_def)
        next
          case t: False
          have "\<forall>i. l + m < i + p \<and> i + m \<le> l + m \<longrightarrow> pred (a ! i)" using k True m(1) by (auto simp: le_less)
          then have "searched pred a p (t - m) (\<lambda>l' t'. none_before pred a p (l' + p)) (rematch pred a p (l + m) (t - m) m)"
            using less.prems t m n by (intro less.IH) auto
          from searched_mono [OF this, of t] b x r True t \<open>0 < remainder - 1\<close> show ?thesis by (subst rematch.simps) (simp add: m_def Let_def)
        qed
      qed
    qed
  qed
qed

lemma first_match_correct:
  assumes "l + 1 + t = length a" "0 < p" "p \<le> l + 1" "none_before pred a p l" "pred (a ! l)"
  shows "searched pred a p t (\<lambda>l' t'. none_before pred a p (l' + p)) (first_match pred a p l t)"
proof (cases "p = 1")
  case True
  have "first_run pred a p l" by (rule first_run_found [OF assms(4)]) (use assms True in \<open>auto simp: run_at_def le_less_Suc_eq\<close>)
  with True show ?thesis by (simp add: first_match_def searched_def)
next
  case False
  then have "0 < p - 1" "p - 1 \<le> l" "l \<le> length a" using assms by auto
  from run_back_outcome [OF this, of pred] show ?thesis
  proof (elim disjE exE conjE)
    assume b: "run_back pred a l (p - 1) = Some None" and k: "\<forall>k. l - (p - 1) \<le> k \<and> k < l \<longrightarrow> pred (a ! k)"
    have "run_at pred a p (l - (p - 1))" using k assms by (auto simp: run_at_def less_Suc_eq)
    then have "first_run pred a p (l - (p - 1))" by (rule first_run_found [OF assms(4)]) (use assms in auto)
    with b show ?thesis using \<open>0 < p - 1\<close> by (simp add: first_match_def searched_def)
  next
    fix r q
    assume b: "run_back pred a l (p - 1) = Some (Some r)" "0 < r" "r \<le> p - 1" "q + 1 + (p - 1) = l + r"
      and q: "\<not> pred (a ! q)" and k: "\<forall>k. q < k \<and> k < l \<longrightarrow> pred (a ! k)"
    have m: "q + p = l + r" using b assms(2) by simp
    have n: "none_before pred a p (l + r)" unfolding m [symmetric] using assms q b by (intro none_before_mismatch) auto
    show ?thesis
    proof (cases "t < r")
      case True
      then have "first_run pred a p (length a)" using assms by (intro first_run_none [OF n]) simp
      with b True show ?thesis using \<open>0 < p - 1\<close> by (simp add: first_match_def searched_def)
    next
      case t: False
      have "\<forall>i. l + r < i + p \<and> i + r \<le> l + r \<longrightarrow> pred (a ! i)" using k assms(5) m by (auto simp: le_less)
      then have "searched pred a p (t - r) (\<lambda>l' t'. none_before pred a p (l' + p)) (rematch pred a p (l + r) (t - r) r)"
        using assms t b n \<open>0 < p - 1\<close> by (intro rematch_correct) auto
      from searched_mono [OF this, of t] b t show ?thesis using \<open>0 < p - 1\<close> by (simp add: first_match_def)
    qed
  qed
qed

lemma search_n_loop_correct:
  assumes "l + 1 + t = length a + p" "0 < p" "p \<le> l + 1" "none_before pred a p l"
  shows "\<exists>i. search_n_loop pred a p l t = Some i \<and> first_run pred a p i"
  using assms
proof (induction t arbitrary: l rule: less_induct)
  case (less t)
  show ?case
  proof (cases "p \<le> t")
    case False
    have "first_run pred a p (length a)" using less.prems False by (intro first_run_none) auto
    with False show ?thesis by (subst search_n_loop.simps) simp
  next
    case True
    have "searched pred a p (t - p) (\<lambda>l' t'. pred (a ! l') \<and> none_before pred a p l' \<and> p \<le> l' + 1) (skip_loop pred a p l (t - p))"
      using less.prems True by (intro skip_loop_correct) auto
    then consider i where "skip_loop pred a p l (t - p) = Some (Inl i)" "first_run pred a p i"
      | l' t' where "skip_loop pred a p l (t - p) = Some (Inr (l', t'))" "l' + 1 + t' = length a" "t' \<le> t - p" "pred (a ! l')"
          "none_before pred a p l'" "p \<le> l' + 1"
      by (auto simp: searched_def split: option.splits sum.splits)
    then show ?thesis
    proof cases
      case 1
      with True show ?thesis by (subst search_n_loop.simps) simp
    next
      case s: 2
      have "searched pred a p t' (\<lambda>l' t'. none_before pred a p (l' + p)) (first_match pred a p l' t')"
        by (rule first_match_correct [OF s(2) less.prems(2) s(6,5,4)])
      then consider i where "first_match pred a p l' t' = Some (Inl i)" "first_run pred a p i"
        | l2 t2 where "first_match pred a p l' t' = Some (Inr (l2, t2))" "l2 + 1 + t2 = length a" "t2 \<le> t'" "none_before pred a p (l2 + p)"
        by (auto simp: searched_def split: option.splits sum.splits)
      then show ?thesis
      proof cases
        case 1
        with s(1) True show ?thesis by (subst search_n_loop.simps) simp
      next
        case f: 2
        have "\<exists>i. search_n_loop pred a p (l2 + p) t2 = Some i \<and> first_run pred a p i"
          by (rule less.IH) (use f s(3) less.prems(2) True in auto)
        with f(1) s(1) True show ?thesis by (subst search_n_loop.simps) simp
      qed
    qed
  qed
qed

lemma search_n_random_correct: "0 < cnt \<Longrightarrow> \<exists>i. search_n_random pred cnt a = Some i \<and> first_run pred a cnt i"
  unfolding search_n_random_def
  by (rule search_n_loop_correct) (auto simp: none_before_def run_at_def)

lemma run_on_outcome:
  "run_on pred ys n = (m, rest) \<Longrightarrow> \<exists>k. k + m = n \<and> k \<le> length ys \<and> rest = drop k ys \<and> (\<forall>i < k. pred (ys ! i))
     \<and> (m \<noteq> 0 \<and> rest \<noteq> [] \<longrightarrow> \<not> pred (hd rest))"
proof (induction pred ys n arbitrary: m rest rule: run_on.induct)
  case (1 pred x xs n)
  show ?case
  proof (cases "pred x")
    case True
    with 1 obtain k where "k + m = n" "k \<le> length xs" "rest = drop k xs" "\<forall>i < k. pred (xs ! i)"
      "m \<noteq> 0 \<and> rest \<noteq> [] \<longrightarrow> \<not> pred (hd rest)" by auto
    with True show ?thesis by (intro exI [of _ "Suc k"]) (auto simp: nth_Cons split: nat.splits)
  next
    case False
    with 1 show ?thesis by (intro exI [of _ 0]) auto
  qed
qed auto

lemma run_at_drop:
  assumes c: "c \<le> length xs"
  shows "run_at pred (drop c xs) p j \<longleftrightarrow> run_at pred xs p (c + j)"
proof
  assume h: "run_at pred (drop c xs) p j"
  have "pred (xs ! i)" if i: "c + j \<le> i" "i < c + j + p" for i
    using h c i by (auto simp: run_at_def dest: spec [of _ "i - c"])
  with h c show "run_at pred xs p (c + j)" by (auto simp: run_at_def)
qed (use c in \<open>auto simp: run_at_def\<close>)

lemma first_run_drop:
  assumes "first_run pred (drop c xs) p r" "c \<le> length xs" "\<forall>j < c. \<not> run_at pred xs p j"
  shows "first_run pred xs p (c + r)"
proof -
  have "\<not> run_at pred xs p j" if "j < c + r" for j
  proof (cases "j < c")
    case False
    then show ?thesis using assms(1) that run_at_drop [OF assms(2), of pred p "j - c"] by (simp add: first_run_def)
  qed (use assms(3) in blast)
  with assms run_at_drop [OF assms(2), of pred p r] show ?thesis by (auto simp: first_run_def)
qed

lemma search_n_forward_correct: "0 < cnt \<Longrightarrow> first_run pred xs cnt (search_n_forward pred cnt xs)"
proof (induction xs rule: measure_induct_rule [of length])
  case (less xs)
  define i where "i = find_if_input pred xs"
  have before: "\<not> run_at pred xs cnt j" if "j < i" for j
    using find_if_input_before [of j pred xs] that less.prems by (auto simp: i_def run_at_def)
  show ?case
  proof (cases "drop i xs")
    case Nil
    then have "i = length xs" using find_if_input_le [of pred xs] by (simp add: i_def)
    with before Nil show ?thesis by (subst search_n_forward.simps) (simp add: first_run_def Let_def flip: i_def)
  next
    case (Cons x ys)
    then have i: "i < length xs" "ys = drop (Suc i) xs" "x = xs ! i" by (metis drop_all leI list.distinct(1), metis drop_Suc list.sel(3) tl_drop, metis Cons_nth_drop_Suc drop_all leI list.distinct(1) list.sel(1))
    have x: "pred (xs ! i)" using find_if_input_at [of pred xs] i(1) by (simp add: i_def)
    obtain m rest where r: "run_on pred ys (cnt - 1) = (m, rest)" by (cases "run_on pred ys (cnt - 1)") auto
    from run_on_outcome [OF r] obtain k where k: "k + m = cnt - 1" "k \<le> length ys" "rest = drop k ys" "\<forall>i < k. pred (ys ! i)"
      "m \<noteq> 0 \<and> rest \<noteq> [] \<longrightarrow> \<not> pred (hd rest)" by blast
    have on: "pred (xs ! j)" if "i \<le> j" "j \<le> i + k" for j
    proof (cases "j = i")
      case False
      then show ?thesis using k(2,4) that i by (auto dest: spec [of _ "j - Suc i"])
    qed (use x in simp)
    consider "m = 0" | n where "m = Suc n" "rest = []" | n z zs where "m = Suc n" "rest = z # zs" by (cases m; cases rest) auto
    then show ?thesis
    proof cases
      case 1
      then have "run_at pred xs cnt i" using k on i less.prems by (auto simp: run_at_def)
      with before i(1) have "first_run pred xs cnt i" by (simp add: first_run_def)
      with Cons r 1 show ?thesis by (subst search_n_forward.simps) (simp add: Let_def flip: i_def)
    next
      case 2
      have "\<not> run_at pred xs cnt j" for j
      proof (cases "j < i")
        case False
        then show ?thesis using k 2 i less.prems by (auto simp: run_at_def)
      qed (use before in blast)
      with Cons r 2 show ?thesis by (subst search_n_forward.simps) (simp add: Let_def first_run_def flip: i_def)
    next
      case 3
      let ?c = "Suc (i + Suc k)"
      have q: "Suc i + k < length xs" using 3 k(3) i by (metis drop_drop drop_eq_Nil add.commute leI list.distinct(1))
      have z: "xs ! (Suc i + k) = z" using 3 k(3) i(2) q by (metis hd_drop_conv_nth drop_drop add.commute list.sel(1))
      have zs: "zs = drop ?c xs" using 3 k(3) i(2) by (metis drop_Suc tl_drop drop_drop list.sel(3) add.commute add_Suc)
      have "first_run pred zs cnt (search_n_forward pred cnt zs)" using less.prems zs q by (intro less.IH) auto
      moreover have "\<not> run_at pred xs cnt j" if "j < ?c" for j
      proof (cases "j < i")
        case False
        have "\<not> pred (xs ! (Suc i + k))" using k(5) 3 z by simp
        moreover have "j \<le> Suc i + k \<and> Suc i + k < j + cnt" using False that k(1) 3(1) by auto
        ultimately show ?thesis by (auto simp: run_at_def)
      qed (use before in blast)
      ultimately have "first_run pred xs cnt (?c + search_n_forward pred cnt zs)"
        using q unfolding zs by (intro first_run_drop) auto
      moreover have "length xs - length zs = ?c" using q zs by simp
      ultimately show ?thesis using Cons r 3 by (subst search_n_forward.simps) (simp add: Let_def flip: i_def)
    qed
  qed
qed

lemma find_first_run: "first_run pred a 1 (find_if_input pred a)"
  using find_if_input_before [of _ pred a] find_if_input_at [of pred a] find_if_input_le [of pred a]
  by (auto simp: first_run_def run_at_def le_less_Suc_eq)

lemma search_n_correct: "0 < cnt \<Longrightarrow> \<exists>i. search_n pred cnt a = Some i \<and> first_run pred a (nat cnt) i"
  using search_n_random_correct [of "nat cnt" pred a] by (simp add: search_n_def)

lemma search_n_value_eq: "search_n_value val cnt a = search_n (\<lambda>x. x = val) cnt a"
proof (cases "cnt = 1")
  case True
  then show ?thesis
    using search_n_correct [of 1 "\<lambda>x. x = val" a] find_first_run [of "\<lambda>x. x = val" a] first_run_unique [of 1 "\<lambda>x. x = val" a]
    by (auto simp: search_n_value_def find_random_def find_if_random_eq)
qed (simp add: search_n_value_def search_n_def)

text \<open>C40: \<open>search_n\<close> returns, looks at no element outside of the range, and finds the first of \<open>cnt\<close>
  consecutive elements that satisfy the predicate, or the end if there is none; so the version that jumps
  over the range and the one that reads it from the front agree, and so does the variant for a value, which
  calls \<open>find\<close> for a single element.\<close>

theorem search_n_first_run:
  assumes "0 < cnt"
  shows "search_n pred cnt a = Some (search_n_forward pred (nat cnt) a)
    \<and> first_run pred a (nat cnt) (search_n_forward pred (nat cnt) a)
    \<and> search_n_value val cnt a = search_n (\<lambda>x. x = val) cnt a"
  using assms search_n_correct [of cnt pred a] search_n_forward_correct [of "nat cnt" pred a]
    first_run_unique [of "nat cnt" pred a] by (auto simp: search_n_value_eq)

theorem search_n_first_run_witness: "search_n_value (CHR '' '') 2 ''a b  c'' = Some 3"
proof -
  have "search_n_forward (\<lambda>c. c = CHR '' '') (nat 2) ''a b  c'' = 3" by code_simp
  then show ?thesis using search_n_first_run [of 2 "\<lambda>c. c = CHR '' ''" "''a b  c''" "CHR '' ''"] by simp
qed

end
