(* ===== verification/StlStreams.thy ===== *)
theory StlStreams
  imports StlSearch
begin

text \<open>
  The input streams of STLport, with which \<open>causalityTool\<close> reads its file of simulation points: the
  unformatted input functions of \<open>stl/_istream.c\<close> and the string functions of \<open>stl/_string_io.c\<close>.

  A stream buffer is seen through its get area: \<open>get_area\<close> is \<open>[gptr, egptr)\<close>, \<open>refills\<close> the get areas
  that later calls of \<open>underflow\<close> will install, none of them empty, and \<open>source\<close> what comes one character
  at a time once the buffer has switched to unbuffered mode.  Stream buffers throw nothing here and
  \<open>exceptions()\<close> is at its default, so the \<open>_STLP_TRY\<close> blocks run to their end and \<open>setstate\<close> only sets
  bits.  A stream always has a buffer and none is tied to it.  Counts are natural numbers, as the callers have to pass them.
\<close>

section \<open>Stream buffers\<close>

datatype iobit = eofbit | failbit | badbit

type_synonym iostate = "iobit set"

record streambuf =
  get_area :: string
  refills :: "string list"
  source :: string

definition buffered_text :: "streambuf \<Rightarrow> string" where
  "buffered_text b = get_area b @ concat (refills b) @ source b"

definition underflow :: "streambuf \<Rightarrow> streambuf" where
  "underflow b = (case refills b of [] \<Rightarrow> b | a # r \<Rightarrow> b\<lparr>get_area := a, refills := r\<rparr>)"

text \<open>The result \<open>None\<close> is \<open>eof\<close>.\<close>

definition sgetc :: "streambuf \<Rightarrow> char option \<times> streambuf" where
  "sgetc b = (let b' = (if get_area b = [] then underflow b else b) in
     case get_area b' of c # _ \<Rightarrow> (Some c, b')
     | [] \<Rightarrow> (case source b' of c # _ \<Rightarrow> (Some c, b') | [] \<Rightarrow> (None, b')))"

definition sbumpc :: "streambuf \<Rightarrow> char option \<times> streambuf" where
  "sbumpc b = (let b' = (if get_area b = [] then underflow b else b) in
     case get_area b' of c # cs \<Rightarrow> (Some c, b'\<lparr>get_area := cs\<rparr>)
     | [] \<Rightarrow> (case source b' of c # cs \<Rightarrow> (Some c, b'\<lparr>source := cs\<rparr>) | [] \<Rightarrow> (None, b')))"

definition gbump :: "nat \<Rightarrow> streambuf \<Rightarrow> streambuf" where
  "gbump n b = b\<lparr>get_area := drop n (get_area b)\<rparr>"

text \<open>Only the character just taken is ever put back, so there is room for it.\<close>

definition sputbackc :: "char \<Rightarrow> streambuf \<Rightarrow> streambuf" where
  "sputbackc c b = b\<lparr>get_area := c # get_area b\<rparr>"

text \<open>A buffer to write to that has room for so many more characters.\<close>

record sink =
  written :: string
  room :: nat

definition sputn :: "string \<Rightarrow> sink \<Rightarrow> nat \<times> sink" where
  "sputn s d = (let n = min (length s) (room d) in (n, \<lparr>written = written d @ take n s, room = room d - n\<rparr>))"

definition sputc :: "char \<Rightarrow> sink \<Rightarrow> bool \<times> sink" where
  "sputc c d = (if room d = 0 then (False, d) else (True, \<lparr>written = written d @ [c], room = room d - 1\<rparr>))"

section \<open>Delimiters\<close>

definition Is_not_wspace :: "char \<Rightarrow> bool" where
  "Is_not_wspace c = (\<not> is_space c)"

definition Is_wspace_null :: "char \<Rightarrow> bool" where
  "Is_wspace_null c = (c = CHR 0x00 \<or> is_space c)"

text \<open>\<open>scan_is\<close> and \<open>scan_not\<close> of the character type facet, and the find of \<open>_algobase.c\<close>.\<close>

definition scan_is :: "(char \<Rightarrow> bool) \<Rightarrow> string \<Rightarrow> nat" where
  "scan_is m xs = length (takeWhile (\<lambda>c. \<not> m c) xs)"

definition Scan_wspace_null :: "string \<Rightarrow> nat" where
  "Scan_wspace_null xs = (let lst = find_if_random (\<lambda>c. c = CHR 0x00) xs in scan_is is_space (take lst xs))"

definition Scan_for_not_wspace :: "string \<Rightarrow> nat" where
  "Scan_for_not_wspace xs = scan_is (\<lambda>c. \<not> is_space c) xs"

definition Scan_for_char_val :: "char \<Rightarrow> string \<Rightarrow> nat" where
  "Scan_for_char_val val xs = find_if_random (\<lambda>c. c = val) xs"

text \<open>An \<open>int_type\<close> is a character or \<open>eof\<close>, which is no character's value.\<close>

definition Eq_int_bound :: "char option \<Rightarrow> char \<Rightarrow> bool" where
  "Eq_int_bound val c = (Some c = val)"

definition Scan_for_int_val :: "char option \<Rightarrow> string \<Rightarrow> nat" where
  "Scan_for_int_val val xs = find_if_random (Eq_int_bound val) xs"

text \<open>\<open>_Constant_unary_fun(false)\<close> and \<open>_Project2nd\<close>: no delimiter, a scan to the end.\<close>

definition never_delim :: "char \<Rightarrow> bool" where
  "never_delim c = False"

definition Project2nd :: "string \<Rightarrow> nat" where
  "Project2nd xs = length xs"

section \<open>Termination\<close>

text \<open>The loops over the get areas end because each further trip has a new one.\<close>

definition areas_left :: "streambuf \<Rightarrow> nat" where
  "areas_left b = 2 * length (refills b) + (if get_area b = [] then 0 else 1)"

lemma get_area_gbump [simp]: "get_area (gbump n b) = drop n (get_area b)"
  and refills_gbump [simp]: "refills (gbump n b) = refills b"
  and source_gbump [simp]: "source (gbump n b) = source b"
  by (simp_all add: gbump_def)

lemma areas_left_sgetc [termination_simp]:
  "sgetc (gbump n b) = (c, b') \<Longrightarrow> get_area b \<noteq> [] \<Longrightarrow> length (get_area b) \<le> n \<Longrightarrow> areas_left b' < areas_left b"
  by (auto simp: sgetc_def areas_left_def underflow_def Let_def split: if_splits list.splits)

lemma areas_left_refilled:
  "get_area (snd (sgetc (gbump n b))) \<noteq> [] \<Longrightarrow> \<not> n < length (get_area b) \<Longrightarrow>
    areas_left (snd (sgetc (gbump n b))) < areas_left b"
  by (auto simp: sgetc_def areas_left_def underflow_def Let_def split: if_splits list.splits)

lemma length_sbumpc [termination_simp]:
  "sbumpc b = (Some c, b') \<Longrightarrow> length (buffered_text b') < length (buffered_text b)"
  by (auto simp: sbumpc_def buffered_text_def underflow_def Let_def split: if_splits list.splits)

section \<open>Reading into an array\<close>

text \<open>Both give the number of characters extracted, the characters stored, the buffer and the status.
  \<open>rem\<close> is \<open>_Num - __n\<close>.\<close>

primrec read_unbuffered ::
    "(char \<Rightarrow> bool) \<Rightarrow> bool \<Rightarrow> bool \<Rightarrow> nat \<Rightarrow> streambuf \<Rightarrow> nat \<times> string \<times> streambuf \<times> iostate" where
  "read_unbuffered is_delim extract_delim is_getline 0 b = (0, [], b, if is_getline then {failbit} else {})"
| "read_unbuffered is_delim extract_delim is_getline (Suc rem) b =
     (case sbumpc b of
        (None, b) \<Rightarrow> (0, [], b, {eofbit})
      | (Some c, b) \<Rightarrow>
          if is_delim c then (if extract_delim then (1, [], b, {}) else (0, [], sputbackc c b, {}))
          else let (n, s, b, status) = read_unbuffered is_delim extract_delim is_getline rem b
               in (Suc n, c # s, b, status))"

text \<open>A buffer whose get area is empty at the head of the loop has switched to unbuffered input.\<close>

function (sequential) read_buffered ::
    "(char \<Rightarrow> bool) \<Rightarrow> (string \<Rightarrow> nat) \<Rightarrow> bool \<Rightarrow> bool \<Rightarrow> nat \<Rightarrow> streambuf \<Rightarrow>
     nat \<times> string \<times> streambuf \<times> iostate" where
  "read_buffered is_delim scan_delim extract_delim is_getline rem b =
     (if get_area b = [] then read_unbuffered is_delim extract_delim is_getline rem b
      else let p = scan_delim (get_area b); avail = length (get_area b); chunk = min p rem;
               s = take chunk (get_area b); b1 = gbump chunk b in
        if p \<noteq> avail \<and> p \<le> rem then
          (if extract_delim then (chunk + 1, s, gbump 1 b1, {}) else (chunk, s, b1, {}))
        else if chunk = rem then
          (if is_getline then
             (if chunk = avail then
                (case sgetc b1 of (None, b2) \<Rightarrow> (chunk, s, b2, {eofbit}) | (Some _, b2) \<Rightarrow> (chunk, s, b2, {}))
              else (chunk, s, b1, {failbit}))
           else (chunk, s, b1, {}))
        else (case sgetc b1 of
                (None, b2) \<Rightarrow> (chunk, s, b2, {eofbit})
              | (Some _, b2) \<Rightarrow>
                  let (n, s', b3, status) =
                        read_buffered is_delim scan_delim extract_delim is_getline (rem - chunk) b2
                  in (chunk + n, s @ s', b3, status)))"
  by pat_completeness auto
termination
  by (relation "measure (\<lambda>(_, _, _, _, _, b). areas_left b)") (auto dest: areas_left_sgetc [OF sym] simp: min_def split: if_splits)

declare read_buffered.simps [simp del]

text \<open>The branch that every caller makes, with the terminating null character.\<close>

definition read_chars :: "(char \<Rightarrow> bool) \<Rightarrow> (string \<Rightarrow> nat) \<Rightarrow> bool \<Rightarrow> bool \<Rightarrow> bool \<Rightarrow> nat \<Rightarrow> streambuf \<Rightarrow>
    nat \<times> string \<times> streambuf \<times> iostate" where
  "read_chars is_delim scan_delim extract_delim append_null is_getline num b =
     (let (n, s, b, status) =
        (if get_area b \<noteq> [] then read_buffered is_delim scan_delim extract_delim is_getline num b
         else read_unbuffered is_delim extract_delim is_getline num b)
      in (n, if append_null then s @ [CHR 0x00] else s, b, status))"

section \<open>Skipping characters\<close>

definition at_eof_state :: "bool \<Rightarrow> iostate" where
  "at_eof_state set_failbit = (if set_failbit then {eofbit, failbit} else {eofbit})"

function ignore_unbuffered :: "(char \<Rightarrow> bool) \<Rightarrow> bool \<Rightarrow> bool \<Rightarrow> streambuf \<Rightarrow> streambuf \<times> iostate" where
  "ignore_unbuffered is_delim extract_delim set_failbit b =
     (case sbumpc b of
        (None, b') \<Rightarrow> (b', at_eof_state set_failbit)
      | (Some c, b') \<Rightarrow>
          if is_delim c then (if extract_delim then b' else sputbackc c b', {})
          else ignore_unbuffered is_delim extract_delim set_failbit b')"
  by pat_completeness auto
termination
  by (relation "measure (\<lambda>(_, _, _, b). length (buffered_text b))") (auto dest: length_sbumpc [OF sym])

function ignore_buffered ::
    "(char \<Rightarrow> bool) \<Rightarrow> (string \<Rightarrow> nat) \<Rightarrow> bool \<Rightarrow> bool \<Rightarrow> streambuf \<Rightarrow> streambuf \<times> iostate" where
  "ignore_buffered is_delim scan_delim extract_delim set_failbit b =
     (if get_area b = [] then ignore_unbuffered is_delim extract_delim set_failbit b
      else let p = scan_delim (get_area b); b1 = gbump p b in
        if p < length (get_area b) then (if extract_delim then gbump 1 b1 else b1, {})
        else (case sgetc b1 of
                (None, b2) \<Rightarrow> (b2, at_eof_state set_failbit)
              | (Some _, b2) \<Rightarrow> ignore_buffered is_delim scan_delim extract_delim set_failbit b2))"
  by pat_completeness auto
termination
  by (relation "measure (\<lambda>(_, _, _, _, b). areas_left b)") (auto dest: areas_left_sgetc [OF sym])

declare ignore_unbuffered.simps [simp del]
declare ignore_buffered.simps [simp del]

text \<open>With a count: \<open>max_chars\<close> is \<open>minus\<close>, or constant for an unlimited number.\<close>

function ignore_num_unbuffered ::
    "nat \<Rightarrow> (nat \<Rightarrow> nat \<Rightarrow> nat) \<Rightarrow> (char \<Rightarrow> bool) \<Rightarrow> bool \<Rightarrow> bool \<Rightarrow> nat \<Rightarrow> streambuf \<Rightarrow>
     nat \<times> streambuf \<times> iostate" where
  "ignore_num_unbuffered num max_chars is_delim extract_delim set_failbit n b =
     (if max_chars num n > 0 then
        (case sbumpc b of
           (None, b') \<Rightarrow> (n, b', at_eof_state set_failbit)
         | (Some c, b') \<Rightarrow>
             if is_delim c then (if extract_delim then (n + 1, b', {}) else (n, sputbackc c b', {}))
             else ignore_num_unbuffered num max_chars is_delim extract_delim set_failbit (n + 1) b')
      else (n, b, {}))"
  by pat_completeness auto
termination
  by (relation "measure (\<lambda>(_, _, _, _, _, _, b). length (buffered_text b))") (auto dest: length_sbumpc [OF sym])

text \<open>The last line hands the whole \<open>_Num\<close> on, not what is left of it.\<close>

function ignore_num_buffered ::
    "nat \<Rightarrow> (nat \<Rightarrow> nat \<Rightarrow> nat) \<Rightarrow> (char \<Rightarrow> bool) \<Rightarrow> (string \<Rightarrow> nat) \<Rightarrow> bool \<Rightarrow> bool \<Rightarrow> nat \<Rightarrow> streambuf \<Rightarrow>
     nat \<times> streambuf \<times> iostate" where
  "ignore_num_buffered num max_chars is_delim scan_delim extract_delim set_failbit n b =
     (if get_area b = [] then
        (let (k, b', status) = ignore_num_unbuffered num max_chars is_delim extract_delim set_failbit 0 b
         in (n + k, b', status))
      else let avail = length (get_area b); m = max_chars num n in
        if avail \<ge> m then
          let p = scan_delim (take m (get_area b)); b1 = gbump p b in
          if extract_delim \<and> p \<noteq> m then (n + p + 1, gbump 1 b1, {}) else (n + p, b1, {})
        else
          let p = scan_delim (get_area b); b1 = gbump p b in
          if p < avail then (if extract_delim then (n + p + 1, gbump 1 b1, {}) else (n + p, b1, {}))
          else (case sgetc b1 of
                  (None, b2) \<Rightarrow> (n + p, b2, at_eof_state set_failbit)
                | (Some _, b2) \<Rightarrow>
                    ignore_num_buffered num max_chars is_delim scan_delim extract_delim set_failbit (n + p) b2))"
  by pat_completeness auto
termination
  by (relation "measure (\<lambda>(_, _, _, _, _, _, _, b). areas_left b)") (auto dest: areas_left_sgetc [OF sym])

declare ignore_num_unbuffered.simps [simp del]
declare ignore_num_buffered.simps [simp del]

section \<open>Copying into another buffer\<close>

text \<open>\<open>rethrow\<close> only matters when the destination throws.\<close>

function copy_unbuffered :: "(char \<Rightarrow> bool) \<Rightarrow> bool \<Rightarrow> streambuf \<Rightarrow> sink \<Rightarrow> nat \<times> streambuf \<times> sink \<times> iostate" where
  "copy_unbuffered is_delim extract_delim src dest =
     (case sbumpc src of
        (None, src') \<Rightarrow> (0, src', dest, {eofbit})
      | (Some c, src') \<Rightarrow>
          if is_delim c then (0, if extract_delim then src' else sputbackc c src', dest, {})
          else (case sputc c dest of
                  (False, dest') \<Rightarrow> (0, sputbackc c src', dest', {})
                | (True, dest') \<Rightarrow>
                    let (extracted, src2, dest2, status) = copy_unbuffered is_delim extract_delim src' dest'
                    in (extracted + 1, src2, dest2, status)))"
  by pat_completeness auto
termination
  by (relation "measure (\<lambda>(_, _, src, _). length (buffered_text src))") (auto dest: length_sbumpc [OF sym])

function copy_buffered ::
    "(string \<Rightarrow> nat) \<Rightarrow> (char \<Rightarrow> bool) \<Rightarrow> bool \<Rightarrow> streambuf \<Rightarrow> sink \<Rightarrow> nat \<times> streambuf \<times> sink \<times> iostate" where
  "copy_buffered scan_delim is_delim extract_delim src dest =
     (let avail = length (get_area src); lst = scan_delim (get_area src);
          (n, dest') = sputn (take (if extract_delim \<and> lst \<noteq> avail then lst + 1 else lst) (get_area src)) dest;
          src1 = gbump n src
      in if n < avail then (n, src1, dest', {})
         else (case sgetc src1 of (c, src2) \<Rightarrow>
           if get_area src2 \<noteq> [] then
             let (extracted, src3, dest3, status) = copy_buffered scan_delim is_delim extract_delim src2 dest'
             in (n + extracted, src3, dest3, status)
           else if c = None then (n, src2, dest', {eofbit})
           else let (extracted, src3, dest3, status) = copy_unbuffered is_delim extract_delim src2 dest'
                in (n + extracted, src3, dest3, status)))"
  by pat_completeness auto
termination
  by (relation "measure (\<lambda>(_, _, _, src, _). areas_left src)")
     (auto intro!: areas_left_refilled simp: prod_eq_iff)

declare copy_unbuffered.simps [simp del]
declare copy_buffered.simps [simp del]

section \<open>basic_istream\<close>

record istream =
  rdbuf :: streambuf
  rdstate :: iostate
  gcount :: nat
  width :: int

definition good :: "istream \<Rightarrow> bool" where
  "good s = (rdstate s = {})"

definition setstate :: "iostate \<Rightarrow> istream \<Rightarrow> istream" where
  "setstate bits s = s\<lparr>rdstate := rdstate s \<union> bits\<rparr>"

definition skip_whitespace :: "bool \<Rightarrow> istream \<Rightarrow> istream" where
  "skip_whitespace set_failbit s =
     (let (b, status) =
        (if get_area (rdbuf s) \<noteq> []
         then ignore_buffered Is_not_wspace Scan_for_not_wspace False set_failbit (rdbuf s)
         else ignore_unbuffered Is_not_wspace False set_failbit (rdbuf s))
      in setstate status (s\<lparr>rdbuf := b\<rparr>))"

text \<open>The sentries: the stream afterwards is good exactly when the sentry is true.\<close>

definition init_noskip :: "istream \<Rightarrow> istream" where
  "init_noskip s = (if good s then s else setstate {failbit} s)"

definition init_skip :: "istream \<Rightarrow> istream" where
  "init_skip s = (let s = (if good s then skip_whitespace True s else s)
                  in if \<not> good s then setstate {failbit} s else s)"

definition ws :: "istream \<Rightarrow> istream" where
  "ws s = (if eofbit \<in> rdstate s then s
           else let s = init_noskip s in if good s then skip_whitespace False s else s)"

subsection \<open>Single characters\<close>

definition peek :: "istream \<Rightarrow> char option \<times> istream" where
  "peek s = (let s = init_noskip (s\<lparr>gcount := 0\<rparr>) in
     if good s then
       (case sgetc (rdbuf s) of (c, b) \<Rightarrow>
          (c, setstate (if c = None then {eofbit} else {}) (s\<lparr>rdbuf := b\<rparr>)))
     else (None, s))"

definition get :: "istream \<Rightarrow> char option \<times> istream" where
  "get s = (let s = (init_noskip s)\<lparr>gcount := 0\<rparr> in
     if good s then
       (case sbumpc (rdbuf s) of
          (Some c, b) \<Rightarrow> (Some c, s\<lparr>rdbuf := b, gcount := 1\<rparr>)
        | (None, b) \<Rightarrow> (None, setstate {eofbit, failbit} (s\<lparr>rdbuf := b\<rparr>)))
     else (None, setstate {eofbit, failbit} s))"

definition ignore_one :: "istream \<Rightarrow> istream" where
  "ignore_one s = (let s = (init_noskip s)\<lparr>gcount := 0\<rparr> in
     if good s then
       (case sbumpc (rdbuf s) of
          (Some c, b) \<Rightarrow> s\<lparr>rdbuf := b, gcount := 1\<rparr>
        | (None, b) \<Rightarrow> setstate {eofbit} (s\<lparr>rdbuf := b\<rparr>))
     else s)"

subsection \<open>Arrays of characters\<close>

text \<open>\<open>basic_istream::get\<close> and \<open>getline\<close> with a size \<open>n\<close>; with size 0 nothing is stored.\<close>

definition get_array :: "char \<Rightarrow> nat \<Rightarrow> istream \<Rightarrow> string \<times> istream" where
  "get_array delim n s =
     (let s = (init_noskip s)\<lparr>gcount := 0\<rparr>;
          (str, s) =
            (if good s \<and> n > 0 then
               (let (k, str, b, status) =
                  read_chars (\<lambda>c. c = delim) (Scan_for_char_val delim) False True False (n - 1) (rdbuf s)
                in (str, setstate status (s\<lparr>rdbuf := b, gcount := k\<rparr>)))
             else ([], s))
      in (str, if gcount s = 0 then setstate {failbit} s else s))"

definition getline_array :: "char \<Rightarrow> nat \<Rightarrow> istream \<Rightarrow> string \<times> istream" where
  "getline_array delim n s =
     (let s = (init_noskip s)\<lparr>gcount := 0\<rparr>;
          (str, s) =
            (if good s \<and> n > 0 then
               (let (k, str, b, status) =
                  read_chars (\<lambda>c. c = delim) (Scan_for_char_val delim) True True True (n - 1) (rdbuf s)
                in (str, setstate status (s\<lparr>rdbuf := b, gcount := k\<rparr>)))
             else ([], s))
      in (str, if gcount s = 0 then setstate {failbit} s else s))"

definition read :: "nat \<Rightarrow> istream \<Rightarrow> string \<times> istream" where
  "read n s =
     (let s = (init_noskip s)\<lparr>gcount := 0\<rparr>;
          (str, s) =
            (if good s then
               (let (k, str, b, status) = read_chars never_delim Project2nd False False False n (rdbuf s)
                in (str, setstate status (s\<lparr>rdbuf := b, gcount := k\<rparr>)))
             else ([], setstate {failbit} s))
      in (str, if eofbit \<in> rdstate s then setstate {eofbit, failbit} s else s))"

text \<open>\<open>showmanyc\<close> is what the virtual function of the buffer answers; -1 means that \<open>underflow\<close> will fail.\<close>

definition readsome :: "(streambuf \<Rightarrow> int) \<Rightarrow> nat \<Rightarrow> istream \<Rightarrow> string \<times> istream" where
  "readsome showmanyc nmax s =
     (let s = (init_noskip s)\<lparr>gcount := 0\<rparr> in
      if good s then
        (let avail = (if get_area (rdbuf s) \<noteq> [] then int (length (get_area (rdbuf s))) else showmanyc (rdbuf s)) in
         if avail = -1 then ([], setstate {eofbit} s)
         else if avail \<noteq> 0 then
           (let (k, str, b, status) =
              read_chars never_delim Project2nd False False False (min (nat avail) nmax) (rdbuf s)
            in (str, setstate status (s\<lparr>rdbuf := b, gcount := k\<rparr>)))
         else ([], s))
      else ([], setstate (if eofbit \<in> rdstate s then {eofbit, failbit} else {failbit}) s))"

text \<open>\<open>operator>>\<close> into an array; \<open>max_streamsize\<close> is the largest \<open>streamsize\<close>.\<close>

definition max_streamsize :: int where
  "max_streamsize = 2 ^ 63 - 1"

definition formatted_get :: "istream \<Rightarrow> string \<times> istream" where
  "formatted_get s =
     (let s = init_skip s;
          (str, s) =
            (if good s then
               (let nmax = (if width s > 0 then width s - 1 else max_streamsize - 1);
                    (n, str, b, status) =
                      read_chars Is_wspace_null Scan_wspace_null False True False (nat nmax) (rdbuf s);
                    s = setstate status (s\<lparr>rdbuf := b\<rparr>)
                in (str, if n = 0 then setstate {failbit} s else s))
             else ([], s))
      in (str, s\<lparr>width := 0\<rparr>))"

definition formatted_get_char :: "istream \<Rightarrow> char option \<times> istream" where
  "formatted_get_char s =
     (let s = init_skip s in
      if good s then
        (case sbumpc (rdbuf s) of
           (Some c, b) \<Rightarrow> (Some c, s\<lparr>rdbuf := b\<rparr>)
         | (None, b) \<Rightarrow> (None, setstate {eofbit, failbit} (s\<lparr>rdbuf := b\<rparr>)))
      else (None, s))"

subsection \<open>Skipping and copying\<close>

text \<open>A count equal to the largest \<open>int\<close> means no limit.\<close>

definition no_limit :: nat where
  "no_limit = 2 ^ 31 - 1"

definition ignore_chars :: "(char \<Rightarrow> bool) \<Rightarrow> (string \<Rightarrow> nat) \<Rightarrow> bool \<Rightarrow> nat \<Rightarrow> istream \<Rightarrow> istream" where
  "ignore_chars is_delim scan_delim extract_delim n s =
     (let s = (init_noskip s)\<lparr>gcount := 0\<rparr> in
      if good s then
        (let maxss = nat max_streamsize;
             (k, b, status) =
               (if n = no_limit then
                  (if get_area (rdbuf s) \<noteq> []
                   then ignore_num_buffered maxss (\<lambda>_ _. maxss) is_delim scan_delim extract_delim False 0 (rdbuf s)
                   else ignore_num_unbuffered maxss (\<lambda>_ _. maxss) is_delim extract_delim False 0 (rdbuf s))
                else
                  (if get_area (rdbuf s) \<noteq> []
                   then ignore_num_buffered n (-) is_delim scan_delim extract_delim False 0 (rdbuf s)
                   else ignore_num_unbuffered n (-) is_delim extract_delim False 0 (rdbuf s)))
         in setstate status (s\<lparr>rdbuf := b, gcount := k\<rparr>))
      else s)"

definition ignore :: "nat \<Rightarrow> istream \<Rightarrow> istream" where
  "ignore n s = ignore_chars never_delim Project2nd False n s"

definition ignore_until :: "nat \<Rightarrow> char option \<Rightarrow> istream \<Rightarrow> istream" where
  "ignore_until n delim s = ignore_chars (Eq_int_bound delim) (Scan_for_int_val delim) True n s"

definition get_streambuf :: "char \<Rightarrow> istream \<Rightarrow> sink \<Rightarrow> istream \<times> sink" where
  "get_streambuf delim s dest =
     (let s = (init_noskip s)\<lparr>gcount := 0\<rparr>;
          (s, dest) =
            (if good s then
               (let (k, b, dest, status) =
                  (if get_area (rdbuf s) \<noteq> []
                   then copy_buffered (Scan_for_char_val delim) (\<lambda>c. c = delim) False (rdbuf s) dest
                   else copy_unbuffered (\<lambda>c. c = delim) False (rdbuf s) dest)
                in (setstate status (s\<lparr>rdbuf := b, gcount := k\<rparr>), dest))
             else (s, dest))
      in (if gcount s = 0 then setstate {failbit} s else s, dest))"

definition read_streambuf :: "istream \<Rightarrow> sink \<Rightarrow> istream \<times> sink" where
  "read_streambuf s dest =
     (let s = init_skip s;
          (n, s, dest) =
            (if good s then
               (let (k, b, dest, status) =
                  (if get_area (rdbuf s) \<noteq> []
                   then copy_buffered Project2nd never_delim False (rdbuf s) dest
                   else copy_unbuffered never_delim False (rdbuf s) dest)
                in (k, setstate status (s\<lparr>rdbuf := b\<rparr>), dest))
             else (0, s, dest))
      in (if n = 0 then setstate {failbit} s else s, dest))"

section \<open>Strings\<close>

text \<open>\<open>max_size\<close> is that of \<open>basic_string\<close>.  Each loop runs at most so many times, or \<open>width\<close> times.\<close>

primrec extract_word :: "nat \<Rightarrow> streambuf \<Rightarrow> string \<times> streambuf \<times> iostate" where
  "extract_word 0 b = ([], b, {})"
| "extract_word (Suc n) b =
     (case sbumpc b of
        (None, b) \<Rightarrow> ([], b, {eofbit})
      | (Some c, b) \<Rightarrow>
          if is_space c then ([], sputbackc c b, {})
          else let (s, b, status) = extract_word n b in (c # s, b, status))"

text \<open>The string keeps its old value \<open>old\<close> when the sentry fails.\<close>

definition extract_string :: "nat \<Rightarrow> istream \<Rightarrow> string \<Rightarrow> string \<times> istream" where
  "extract_string max_size s old =
     (let s = init_skip s in
      if good s then
        (let n = (if width s \<le> 0 then max_size else nat (width s));
             s = s\<lparr>width := 0\<rparr>;
             (str, b, status) = extract_word n (rdbuf s);
             s = setstate status (s\<lparr>rdbuf := b\<rparr>)
         in (str, if str = [] then setstate {failbit} s else s))
      else (old, setstate {failbit} s))"

text \<open>\<open>getline\<close>: the number of characters read, the line, the buffer, the status.\<close>

primrec getline_loop :: "char \<Rightarrow> nat \<Rightarrow> streambuf \<Rightarrow> nat \<times> string \<times> streambuf \<times> iostate" where
  "getline_loop delim 0 b = (0, [], b, {})"
| "getline_loop delim (Suc n) b =
     (case sbumpc b of
        (None, b) \<Rightarrow> (0, [], b, {eofbit})
      | (Some c, b) \<Rightarrow>
          if c \<noteq> delim then let (k, s, b, status) = getline_loop delim n b in (Suc k, c # s, b, status)
          else (1, [], b, {}))"

definition getline :: "nat \<Rightarrow> char \<Rightarrow> istream \<Rightarrow> string \<Rightarrow> string \<times> istream" where
  "getline max_size delim s old =
     (let s = init_noskip s;
          (nread, str, s) =
            (if good s then
               (let (k, str, b, status) = getline_loop delim max_size (rdbuf s)
                in (k, str, setstate status (s\<lparr>rdbuf := b\<rparr>)))
             else (0, old, s))
      in (str, if nread = 0 \<or> nread \<ge> max_size then setstate {failbit} s else s))"

text \<open>The loop of \<open>causalityTool\<close>'s \<open>main\<close>, \<open>while (good()) getline(...)\<close>: the lines it sees, given enough
  \<open>fuel\<close>.\<close>

fun stream_lines :: "nat \<Rightarrow> nat \<Rightarrow> istream \<Rightarrow> string \<Rightarrow> string list option" where
  "stream_lines max_size fuel s line =
     (if \<not> good s then Some []
      else case fuel of 0 \<Rightarrow> None
      | Suc k \<Rightarrow> (case getline max_size (CHR 0x0A) s line of
                    (line, s) \<Rightarrow> map_option ((#) line) (stream_lines max_size k s line)))"

declare stream_lines.simps [simp del]

text \<open>Output: the stream's buffer, width, fill character and adjustment.\<close>

record ostream =
  obuf :: sink
  ostate :: iostate
  owidth :: int
  ofill :: char
  oleft :: bool

fun string_fill :: "char \<Rightarrow> nat \<Rightarrow> sink \<Rightarrow> bool \<times> sink" where
  "string_fill f 0 d = (True, d)"
| "string_fill f (Suc n) d = (case sputc f d of (False, d) \<Rightarrow> (False, d) | (True, d) \<Rightarrow> string_fill f n d)"

text \<open>The sentry of the output stream is true exactly when the stream is good.\<close>

definition insert_string :: "ostream \<Rightarrow> string \<Rightarrow> ostream" where
  "insert_string os s =
     (if ostate os \<noteq> {} then os\<lparr>ostate := ostate os \<union> {failbit}\<rparr>
      else
        let n = length s; w = owidth os; os = os\<lparr>owidth := 0\<rparr>;
            need_pad = (n < unat (word_of_int w :: 64 word));
            pad_len = (if need_pad then nat (w - int n) else 0);
            (ok1, d1) = (if \<not> oleft os then string_fill (ofill os) pad_len (obuf os) else (True, obuf os));
            (ok2, d2) = (if ok1 then (case sputn s d1 of (k, d) \<Rightarrow> (k = n, d)) else (False, d1));
            (ok3, d3) = (if oleft os \<and> ok2 then string_fill (ofill os) pad_len d2 else (ok2, d2))
        in os\<lparr>obuf := d3, ostate := (if ok3 then {} else {failbit})\<rparr>)"

end
