(* ===== verification/StlStreamProps.thy ===== *)
theory StlStreamProps
  imports StlStreams StlSearchProps InstrumentationLaws
begin

text \<open>
  What the input streams promise.  Seen from outside a stream is a text, whatever the get areas it
  arrives in: the abstract operations below work on that text, and the buffered and the unbuffered
  routines are refinements of them wherever they agree at all.  They do not agree in \<open>getline\<close> into an
  array, and not in \<open>ignore\<close> once the buffer switches to unbuffered input.
\<close>

section \<open>Buffers as texts\<close>

definition ok_buf :: "streambuf \<Rightarrow> bool" where
  "ok_buf b \<longleftrightarrow> [] \<notin> set (refills b)"

lemma sbumpc_cases:
  assumes "ok_buf b"
  obtains (eof) b' where "buffered_text b = []" "sbumpc b = (None, b')" "buffered_text b' = []" "ok_buf b'"
  | (char) c cs b' where "buffered_text b = c # cs" "sbumpc b = (Some c, b')" "buffered_text b' = cs" "ok_buf b'"
  using assms
  by (fastforce simp: sbumpc_def buffered_text_def underflow_def ok_buf_def Let_def split: list.splits if_splits)

lemma sgetc_cases:
  assumes "ok_buf b"
  obtains (eof) b' where "buffered_text b = []" "sgetc b = (None, b')" "buffered_text b' = []" "ok_buf b'"
  | (char) c cs b' where "buffered_text b = c # cs" "sgetc b = (Some c, b')" "buffered_text b' = c # cs" "ok_buf b'"
  using assms
  by (fastforce simp: sgetc_def buffered_text_def underflow_def ok_buf_def Let_def split: list.splits if_splits)

lemma ok_buf_gbump [simp]: "ok_buf (gbump n b) = ok_buf b"
  by (simp add: ok_buf_def gbump_def)

lemma ok_buf_sputbackc [simp]: "ok_buf (sputbackc c b) = ok_buf b"
  by (simp add: ok_buf_def sputbackc_def)

lemma text_sputbackc [simp]: "buffered_text (sputbackc c b) = c # buffered_text b"
  by (simp add: buffered_text_def sputbackc_def)

lemma text_gbump: "n \<le> length (get_area b) \<Longrightarrow> buffered_text (gbump n b) = drop n (buffered_text b)"
  by (simp add: buffered_text_def gbump_def)

lemma take_text: "n \<le> length (get_area b) \<Longrightarrow> take n (buffered_text b) = take n (get_area b)"
  by (simp add: buffered_text_def)

section \<open>What reading is\<close>

text \<open>Of a text: the characters read, what is left, whether the end was met.  At most \<open>num\<close>
  characters, up to a delimiter, which stays.\<close>

definition upto_delim :: "(char \<Rightarrow> bool) \<Rightarrow> nat \<Rightarrow> string \<Rightarrow> string" where
  "upto_delim is_delim num t = takeWhile (\<lambda>c. \<not> is_delim c) (take num t)"

definition read_text :: "(char \<Rightarrow> bool) \<Rightarrow> nat \<Rightarrow> string \<Rightarrow> nat \<times> string \<times> string \<times> iostate" where
  "read_text is_delim num t =
     (let s = upto_delim is_delim num t
      in (length s, s, drop (length s) t, if length s < num \<and> s = t then {eofbit} else {}))"

lemma read_text_0 [simp]: "read_text d 0 t = (0, [], t, {})"
  by (simp add: read_text_def upto_delim_def)

lemma read_text_Nil [simp]: "read_text d (Suc num) [] = (0, [], [], {eofbit})"
  by (simp add: read_text_def upto_delim_def)

lemma read_text_delim: "d c \<Longrightarrow> read_text d num (c # t) = (0, [], c # t, {})"
  by (cases num) (simp_all add: read_text_def upto_delim_def)

lemma read_text_Cons:
  "\<not> d c \<Longrightarrow> read_text d (Suc num) (c # t) =
    (case read_text d num t of (n, s, r, st) \<Rightarrow> (Suc n, c # s, r, st))"
  by (simp add: read_text_def upto_delim_def Let_def)

lemma read_text_append:
  assumes "list_all (\<lambda>c. \<not> d c) s" and "length s \<le> num"
  shows "read_text d num (s @ t) =
    (case read_text d (num - length s) t of (n, s', r, st) \<Rightarrow> (length s + n, s @ s', r, st))"
  using assms
proof (induction s arbitrary: num)
  case Nil
  then show ?case by (cases "read_text d num t") simp
next
  case (Cons c s)
  then obtain m where m: "num = Suc m" by (cases num) auto
  show ?case using Cons m by (simp add: read_text_Cons split: prod.splits)
qed

definition of_buffer :: "nat \<times> string \<times> streambuf \<times> iostate \<Rightarrow> nat \<times> string \<times> string \<times> iostate" where
  "of_buffer r = (case r of (n, s, b, st) \<Rightarrow> (n, s, buffered_text b, st))"

lemma read_unbuffered_text:
  "ok_buf b \<Longrightarrow> of_buffer (read_unbuffered d False False num b) = read_text d num (buffered_text b)"
proof (induction num arbitrary: b)
  case 0
  show ?case by (simp add: of_buffer_def)
next
  case (Suc num)
  from Suc.prems show ?case
  proof (cases rule: sbumpc_cases)
    case eof
    then show ?thesis by (simp add: of_buffer_def)
  next
    case (char c cs b')
    with Suc.IH [of b'] show ?thesis
      by (auto simp: of_buffer_def read_text_delim read_text_Cons split: prod.splits)
  qed
qed

section \<open>Delimiters\<close>

text \<open>The contract between the two function objects that every routine takes.\<close>

locale delimiter =
  fixes is_delim :: "char \<Rightarrow> bool" and scan_delim :: "string \<Rightarrow> nat"
  assumes scan: "scan_delim xs = length (takeWhile (\<lambda>c. \<not> is_delim c) xs)"
begin

lemma scan_le: "scan_delim xs \<le> length xs"
  by (simp add: scan length_takeWhile_le)

lemma scan_before: "list_all (\<lambda>c. \<not> is_delim c) (take (scan_delim xs) xs)"
  unfolding scan takeWhile_eq_take [symmetric] by (auto simp: list_all_iff dest: set_takeWhileD)

lemma scan_at: "scan_delim xs < length xs \<Longrightarrow> is_delim (xs ! scan_delim xs)"
  using nth_length_takeWhile [of "\<lambda>c. \<not> is_delim c" xs] by (simp add: scan)

lemma scan_all: "scan_delim xs = length xs \<Longrightarrow> list_all (\<lambda>c. \<not> is_delim c) xs"
  using scan_before [of xs] by simp

lemma drop_at_delim:
  "scan_delim (get_area b) < length (get_area b) \<Longrightarrow> drop (scan_delim (get_area b)) (buffered_text b) =
    get_area b ! scan_delim (get_area b) # drop (Suc (scan_delim (get_area b))) (buffered_text b)"
  by (simp add: buffered_text_def Cons_nth_drop_Suc [symmetric] del: Cons_nth_drop_Suc)

lemma read_text_area:
  assumes "k \<le> scan_delim (get_area b)" and "k \<le> num"
  shows "read_text is_delim num (buffered_text b) =
    (case read_text is_delim (num - k) (drop k (buffered_text b)) of
       (n, s', r, st) \<Rightarrow> (k + n, take k (get_area b) @ s', r, st))"
proof -
  have k: "k \<le> length (get_area b)" using assms(1) scan_le [of "get_area b"] by linarith
  have "list_all (\<lambda>c. \<not> is_delim c) (take k (get_area b))"
    using scan_before [of "get_area b"] assms(1)
    by (auto simp: list_all_iff dest: set_take_subset_set_take [OF assms(1), THEN subsetD])
  moreover have "take k (get_area b) @ drop k (buffered_text b) = buffered_text b"
    using take_text [OF k] append_take_drop_id [of k "buffered_text b"] by simp
  ultimately show ?thesis
    using read_text_append [of is_delim "take k (get_area b)" num "drop k (buffered_text b)"] k assms(2)
    by (simp add: min_absorb2)
qed

text \<open>The optimised routine and the plain one.\<close>

lemma read_buffered_text:
  "ok_buf b \<Longrightarrow> of_buffer (read_buffered is_delim scan_delim False False num b) =
    read_text is_delim num (buffered_text b)"
proof (induction "areas_left b" arbitrary: b num rule: less_induct)
  case less
  let ?a = "get_area b" and ?t = "buffered_text b"
  let ?p = "scan_delim ?a"
  note ok = less.prems
  consider (none) "?a = []" | (delim) "?a \<noteq> []" "?p < length ?a" "?p \<le> num"
    | (full) "?a \<noteq> []" "num \<le> ?p" "\<not> (?p \<noteq> length ?a \<and> ?p \<le> num)"
    | (more) "?a \<noteq> []" "?p = length ?a" "?p < num"
    using scan_le [of ?a] by linarith
  then show ?case
  proof cases
    case none
    then show ?thesis using read_unbuffered_text [OF ok] by (simp add: read_buffered.simps)
  next
    case delim
    with drop_at_delim [OF delim(2)] scan_at [OF delim(2)] read_text_area [of ?p b num] delim show ?thesis
      by (simp add: read_buffered.simps [of _ _ _ _ _ b] Let_def of_buffer_def text_gbump read_text_delim min_absorb1)
  next
    case full
    with scan_le [of ?a] read_text_area [of num b num] show ?thesis
      by (auto simp: read_buffered.simps [of _ _ _ _ _ b] Let_def of_buffer_def text_gbump min_absorb2)
  next
    case more
    have ok1: "ok_buf (gbump ?p b)" using ok by simp
    show ?thesis
    proof (cases rule: sgetc_cases [OF ok1])
      case (1 b')
      with more read_text_area [of ?p b num] show ?thesis
        by (cases "num - length ?a") (auto simp: read_buffered.simps [of _ _ _ _ _ b] Let_def of_buffer_def text_gbump)
    next
      case (2 c cs b')
      have "areas_left b' < areas_left b" using areas_left_sgetc [OF 2(2) more(1)] more(2) by simp
      from less.hyps [OF this 2(4), of "num - length ?a"] 2 more read_text_area [of ?p b num] show ?thesis
        by (auto simp: read_buffered.simps [of _ _ _ _ _ b] Let_def of_buffer_def text_gbump split: prod.splits)
    qed
  qed
qed

end

lemma find_if_random_takeWhile: "find_if_random P xs = length (takeWhile (\<lambda>c. \<not> P c) xs)"
  unfolding find_if_random_eq by (induction xs) auto

interpretation no_delim: delimiter never_delim Project2nd
  by unfold_locales (simp add: never_delim_def Project2nd_def takeWhile_eq_all_conv [THEN iffD2])

interpretation char_delim: delimiter "\<lambda>c. c = d" "Scan_for_char_val d" for d
  by unfold_locales (simp add: Scan_for_char_val_def find_if_random_takeWhile)

interpretation int_delim: delimiter "Eq_int_bound d" "Scan_for_int_val d" for d
  by unfold_locales (simp add: Scan_for_int_val_def find_if_random_takeWhile)

lemma takeWhile_conj: "takeWhile P (takeWhile Q xs) = takeWhile (\<lambda>c. Q c \<and> P c) xs"
  by (induction xs) auto

interpretation word_delim: delimiter Is_wspace_null Scan_wspace_null
  by unfold_locales
     (simp add: Scan_wspace_null_def scan_is_def find_if_random_takeWhile Is_wspace_null_def
        takeWhile_eq_take [symmetric] takeWhile_conj)

interpretation not_space_delim: delimiter Is_not_wspace Scan_for_not_wspace
  by unfold_locales (simp add: Scan_for_not_wspace_def scan_is_def Is_not_wspace_def)

section \<open>Skipping\<close>

text \<open>Of a text: skip to the first delimiter, which stays; the status if there is none.\<close>

definition skip_text :: "(char \<Rightarrow> bool) \<Rightarrow> bool \<Rightarrow> string \<Rightarrow> string \<times> iostate" where
  "skip_text is_delim set_failbit t =
     (let r = dropWhile (\<lambda>c. \<not> is_delim c) t in (r, if r = [] then at_eof_state set_failbit else {}))"

lemma skip_text_Nil [simp]: "skip_text d f [] = ([], at_eof_state f)"
  and skip_text_delim: "d c \<Longrightarrow> skip_text d f (c # t) = (c # t, {})"
  and skip_text_Cons: "\<not> d c \<Longrightarrow> skip_text d f (c # t) = skip_text d f t"
  by (simp_all add: skip_text_def)

lemma skip_text_append: "list_all (\<lambda>c. \<not> d c) s \<Longrightarrow> skip_text d f (s @ t) = skip_text d f t"
  by (induction s) (simp_all add: skip_text_Cons)

lemma ignore_unbuffered_text:
  "ok_buf b \<Longrightarrow> map_prod buffered_text id (ignore_unbuffered d False f b) = skip_text d f (buffered_text b)"
proof (induction "length (buffered_text b)" arbitrary: b rule: less_induct)
  case less
  from less.prems show ?case
  proof (cases rule: sbumpc_cases)
    case eof
    then show ?thesis by (simp add: ignore_unbuffered.simps)
  next
    case (char c cs b')
    with less.hyps [of b'] show ?thesis
      by (cases "d c") (simp_all add: ignore_unbuffered.simps [of _ _ _ b] skip_text_delim skip_text_Cons)
  qed
qed

lemma ok_buf_ignore_unbuffered: "ok_buf b \<Longrightarrow> ok_buf (fst (ignore_unbuffered d e f b))"
proof (induction "length (buffered_text b)" arbitrary: b rule: less_induct)
  case less
  from less.prems show ?case
  proof (cases rule: sbumpc_cases)
    case eof
    then show ?thesis by (simp add: ignore_unbuffered.simps)
  next
    case (char c cs b')
    with less.hyps [of b'] show ?thesis by (simp add: ignore_unbuffered.simps [of _ _ _ b])
  qed
qed

context delimiter
begin

lemma skip_area: "skip_text is_delim f (buffered_text b) = skip_text is_delim f (drop (scan_delim (get_area b)) (buffered_text b))"
proof -
  have "take (scan_delim (get_area b)) (get_area b) @ drop (scan_delim (get_area b)) (buffered_text b) = buffered_text b"
    by (metis append_take_drop_id scan_le take_text)
  then show ?thesis using skip_text_append [OF scan_before] by metis
qed

lemma ignore_buffered_text:
  "ok_buf b \<Longrightarrow> map_prod buffered_text id (ignore_buffered is_delim scan_delim False f b) = skip_text is_delim f (buffered_text b) \<and>
    ok_buf (fst (ignore_buffered is_delim scan_delim False f b))"
proof (induction "areas_left b" arbitrary: b rule: less_induct)
  case less
  let ?a = "get_area b"
  let ?p = "scan_delim ?a"
  note ok = less.prems
  consider (none) "?a = []" | (delim) "?a \<noteq> []" "?p < length ?a" | (more) "?a \<noteq> []" "?p = length ?a"
    using scan_le [of ?a] by linarith
  then show ?case
  proof cases
    case none
    then show ?thesis
      using ignore_unbuffered_text [OF ok] ok_buf_ignore_unbuffered [OF ok] by (simp add: ignore_buffered.simps)
  next
    case delim
    with skip_area [of f b] drop_at_delim [OF delim(2)] scan_at [OF delim(2)] ok show ?thesis
      by (simp add: ignore_buffered.simps [of _ _ _ _ b] Let_def text_gbump skip_text_delim)
  next
    case more
    have ok1: "ok_buf (gbump ?p b)" using ok by simp
    show ?thesis
    proof (cases rule: sgetc_cases [OF ok1])
      case (1 b')
      with more skip_area [of f b] show ?thesis
        by (simp add: ignore_buffered.simps [of _ _ _ _ b] Let_def text_gbump)
    next
      case (2 c cs b')
      have "areas_left b' < areas_left b" using areas_left_sgetc [OF 2(2) more(1)] more(2) by simp
      from less.hyps [OF this 2(4)] 2 more skip_area [of f b] show ?thesis
        by (simp add: ignore_buffered.simps [of _ _ _ _ b] Let_def text_gbump)
    qed
  qed
qed

end

section \<open>Streams as texts\<close>

record text_stream =
  unread :: string
  tstate :: iostate
  tcount :: nat
  twidth :: int

definition view :: "istream \<Rightarrow> text_stream" where
  "view s = \<lparr>unread = buffered_text (rdbuf s), tstate = rdstate s, tcount = gcount s, twidth = width s\<rparr>"

definition ok_stream :: "istream \<Rightarrow> bool" where
  "ok_stream s = ok_buf (rdbuf s)"

lemma view_simps [simp]:
  "unread (view s) = buffered_text (rdbuf s)" "tstate (view s) = rdstate s"
  "tcount (view s) = gcount s" "twidth (view s) = width s"
  by (simp_all add: view_def)

lemma setstate_simps [simp]:
  "rdbuf (setstate st s) = rdbuf s" "rdstate (setstate st s) = rdstate s \<union> st"
  "gcount (setstate st s) = gcount s" "width (setstate st s) = width s"
  by (simp_all add: setstate_def)

context delimiter
begin

lemma read_chars_text:
  "ok_buf b \<Longrightarrow> of_buffer (read_chars is_delim scan_delim False append_null False num b) =
    (case read_text is_delim num (buffered_text b) of
       (n, s, r, st) \<Rightarrow> (n, if append_null then s @ [CHR 0x00] else s, r, st))"
  using read_buffered_text [of b num] read_unbuffered_text [of b is_delim num]
  by (auto simp: read_chars_def of_buffer_def split: prod.splits)

end

lemma skip_whitespace_view:
  assumes "ok_stream s"
  shows "view (skip_whitespace f s) = (view s)\<lparr>unread := dropWhile is_space (unread (view s)),
      tstate := tstate (view s) \<union> (if dropWhile is_space (unread (view s)) = [] then at_eof_state f else {})\<rparr>"
    and "ok_stream (skip_whitespace f s)"
  using assms not_space_delim.ignore_buffered_text [of "rdbuf s" f]
    ignore_unbuffered_text [of "rdbuf s" Is_not_wspace f] ok_buf_ignore_unbuffered [of "rdbuf s" Is_not_wspace False f]
  by (auto simp: skip_whitespace_def ok_stream_def view_def skip_text_def Is_not_wspace_def Let_def
      map_prod_def split: prod.splits)

lemma init_skip_view:
  assumes "ok_stream s" and "good s"
  shows "view (init_skip s) = (view s)\<lparr>unread := dropWhile is_space (unread (view s)),
      tstate := if dropWhile is_space (unread (view s)) = [] then {eofbit, failbit} else {}\<rparr>"
    and "ok_stream (init_skip s)"
  using assms skip_whitespace_view [of s True]
  by (auto simp: init_skip_def good_def at_eof_state_def ok_stream_def view_def Let_def)

lemma init_skip_fields:
  assumes "ok_stream s" and "good s"
  shows "buffered_text (rdbuf (init_skip s)) = dropWhile is_space (unread (view s))"
    and "rdstate (init_skip s) = (if dropWhile is_space (unread (view s)) = [] then {eofbit, failbit} else {})"
    and "gcount (init_skip s) = gcount s" and "width (init_skip s) = width s" and "ok_stream (init_skip s)"
  using arg_cong [OF init_skip_view(1) [OF assms], of unread] arg_cong [OF init_skip_view(1) [OF assms], of tstate]
    arg_cong [OF init_skip_view(1) [OF assms], of tcount] arg_cong [OF init_skip_view(1) [OF assms], of twidth]
    init_skip_view(2) [OF assms]
  by simp_all

lemma formatted_get_view:
  assumes "ok_stream s" and "good s"
  shows "map_prod id view (formatted_get s) =
      (let t = dropWhile is_space (unread (view s));
           num = (if width s > 0 then width s - 1 else max_streamsize - 1) in
       if t = [] then ([], (view s)\<lparr>unread := [], tstate := {eofbit, failbit}, twidth := 0\<rparr>)
       else (case read_text Is_wspace_null (nat num) t of (k, str, r, st) \<Rightarrow>
               (str @ [CHR 0x00],
                (view s)\<lparr>unread := r, tstate := st \<union> (if k = 0 then {failbit} else {}), twidth := 0\<rparr>)))"
proof (cases "dropWhile is_space (unread (view s)) = []")
  case True
  with init_skip_fields [OF assms] show ?thesis by (simp add: formatted_get_def good_def view_def)
next
  case False
  define num where "num = (if width s > 0 then width s - 1 else max_streamsize - 1)"
  obtain k str b st where r: "read_chars Is_wspace_null Scan_wspace_null False True False (nat num) (rdbuf (init_skip s)) = (k, str, b, st)"
    by (metis prod_cases4)
  have "ok_buf (rdbuf (init_skip s))" using init_skip_fields(5) [OF assms] by (simp add: ok_stream_def)
  from word_delim.read_chars_text [OF this, of True "nat num"] r init_skip_fields(1) [OF assms]
  obtain s0 where s0: "read_text Is_wspace_null (nat num) (dropWhile is_space (unread (view s))) = (k, s0, buffered_text b, st)"
    and str: "str = s0 @ [CHR 0x00]"
    by (auto simp: of_buffer_def split: prod.splits)
  have "formatted_get s = (str, (if k = 0 then setstate {failbit} (setstate st ((init_skip s)\<lparr>rdbuf := b\<rparr>))
      else setstate st ((init_skip s)\<lparr>rdbuf := b\<rparr>))\<lparr>width := 0\<rparr>)"
    using False r init_skip_fields(2,4) [OF assms]
    by (cases "width s > 0") (auto simp: formatted_get_def good_def Let_def num_def)
  then show ?thesis
    using False s0 str init_skip_fields(2,3) [OF assms] by (auto simp: Let_def num_def view_def)
qed

text \<open>C34: the three functions of basic_istream that read into an array (get, read and the extraction of a
  C string) are refinements of reading from a text: what they store, count and leave unread and the
  state bits they set depend only on the characters still to come, not on how the stream buffer cuts
  them into get areas nor on whether it is buffered at all, so the chunked routine __read_buffered and
  the character-wise __read_unbuffered agree; get and the extraction stop in front of the delimiter and
  end with a null character, a short read sets eofbit and failbit, and a get of nothing sets failbit.\<close>
theorem array_reads_refine_text:
  assumes "ok_stream s" and "good s" and "0 < n"
  shows "map_prod id view (get_array d n s) =
      (case read_text (\<lambda>c. c = d) (n - 1) (unread (view s)) of (k, str, r, st) \<Rightarrow>
         (str @ [CHR 0x00],
          (view s)\<lparr>unread := r, tstate := st \<union> (if k = 0 then {failbit} else {}), tcount := k\<rparr>)) \<and>
    map_prod id view (read n s) =
      (let str = take n (unread (view s)) in
         (str, (view s)\<lparr>unread := drop n (unread (view s)),
                        tstate := if length str < n then {eofbit, failbit} else {}, tcount := length str\<rparr>)) \<and>
    map_prod id view (formatted_get s) =
      (let t = dropWhile is_space (unread (view s));
           num = (if width s > 0 then width s - 1 else max_streamsize - 1) in
       if t = [] then ([], (view s)\<lparr>unread := [], tstate := {eofbit, failbit}, twidth := 0\<rparr>)
       else (case read_text Is_wspace_null (nat num) t of (k, str, r, st) \<Rightarrow>
               (str @ [CHR 0x00],
                (view s)\<lparr>unread := r, tstate := st \<union> (if k = 0 then {failbit} else {}), twidth := 0\<rparr>)))"
proof (intro conjI)
  show "map_prod id view (get_array d n s) =
      (case read_text (\<lambda>c. c = d) (n - 1) (unread (view s)) of (k, str, r, st) \<Rightarrow>
         (str @ [CHR 0x00],
          (view s)\<lparr>unread := r, tstate := st \<union> (if k = 0 then {failbit} else {}), tcount := k\<rparr>))"
    using assms char_delim.read_chars_text [of "rdbuf s" d True "n - 1"]
    by (auto simp: get_array_def init_noskip_def good_def ok_stream_def of_buffer_def view_def split: prod.splits)
next
  have "upto_delim never_delim n t = take n t" for t
    by (simp add: upto_delim_def never_delim_def takeWhile_eq_all_conv [THEN iffD2])
  then show "map_prod id view (read n s) =
      (let str = take n (unread (view s)) in
         (str, (view s)\<lparr>unread := drop n (unread (view s)),
                        tstate := if length str < n then {eofbit, failbit} else {}, tcount := length str\<rparr>))"
    using assms no_delim.read_chars_text [of "rdbuf s" False n]
    by (auto simp: read_def init_noskip_def good_def ok_stream_def of_buffer_def view_def read_text_def Let_def
        min_def split: prod.splits if_splits)
next
  show "map_prod id view (formatted_get s) =
      (let t = dropWhile is_space (unread (view s));
           num = (if width s > 0 then width s - 1 else max_streamsize - 1) in
       if t = [] then ([], (view s)\<lparr>unread := [], tstate := {eofbit, failbit}, twidth := 0\<rparr>)
       else (case read_text Is_wspace_null (nat num) t of (k, str, r, st) \<Rightarrow>
               (str @ [CHR 0x00],
                (view s)\<lparr>unread := r, tstate := st \<union> (if k = 0 then {failbit} else {}), twidth := 0\<rparr>)))"
    by (rule formatted_get_view [OF assms(1,2)])
qed

definition demo_stream :: "streambuf \<Rightarrow> istream" where
  "demo_stream b = \<lparr>rdbuf = b, rdstate = {}, gcount = 0, width = 0\<rparr>"

definition demo_buf :: streambuf where
  "demo_buf = \<lparr>get_area = ''ab'', refills = [''cd e'', ''f''], source = ''g''\<rparr>"

theorem array_reads_refine_text_witness:
  "map_prod id view (get_array (CHR ''e'') 10 (demo_stream demo_buf)) =
    (''abcd '' @ [CHR 0x00], \<lparr>unread = ''efg'', tstate = {}, tcount = 5, twidth = 0\<rparr>)"
  using array_reads_refine_text [of "demo_stream demo_buf" 10 "CHR ''e''", THEN conjunct1]
  by (simp add: demo_stream_def demo_buf_def ok_stream_def ok_buf_def good_def buffered_text_def read_text_def
      upto_delim_def view_def)

section \<open>getline into an array\<close>

lemma read_unbuffered_plain:
  "d \<notin> set l \<Longrightarrow> read_unbuffered (\<lambda>c. c = d) e g (length l) \<lparr>get_area = [], refills = [], source = l @ t\<rparr> =
    (length l, l, \<lparr>get_area = [], refills = [], source = t\<rparr>, if g then {failbit} else {})"
  by (induction l) (auto simp: sbumpc_def underflow_def)

text \<open>getline of basic_istream into an array that a line fills exactly does three different things for
  the same text: when the whole text is in the get area it takes the line and its delimiter and the
  stream stays good; when the get area ends with the line it takes the line, leaves the delimiter (the
  next getline delivers an empty line) and the stream stays good; when the buffer is unbuffered it
  takes the line, leaves the delimiter and sets failbit.\<close>
theorem getline_array_depends_on_buffering:
  assumes "d \<notin> set l" and "l \<noteq> []"
  defines "str \<equiv> l @ [CHR 0x00]" and "n \<equiv> Suc (length l)"
  shows "getline_array d n (demo_stream \<lparr>get_area = l @ d # t, refills = [], source = []\<rparr>) =
      (str, (demo_stream \<lparr>get_area = t, refills = [], source = []\<rparr>)\<lparr>gcount := n\<rparr>) \<and>
    getline_array d n (demo_stream \<lparr>get_area = l, refills = [d # t], source = []\<rparr>) =
      (str, (demo_stream \<lparr>get_area = d # t, refills = [], source = []\<rparr>)\<lparr>gcount := n - 1\<rparr>) \<and>
    getline_array d n (demo_stream \<lparr>get_area = [], refills = [], source = l @ d # t\<rparr>) =
      (str, (demo_stream \<lparr>get_area = [], refills = [], source = d # t\<rparr>)\<lparr>gcount := n - 1, rdstate := {failbit}\<rparr>)"
proof -
  have whole: "takeWhile (\<lambda>c. c \<noteq> d) l = l" using assms(1) by (auto simp: takeWhile_eq_all_conv)
  have scan: "Scan_for_char_val d (l @ r) = (if r = [] \<or> hd r = d then length l else Scan_for_char_val d (l @ r))" for r
    using assms(1) by (cases r) (auto simp: Scan_for_char_val_def find_if_random_takeWhile takeWhile_append whole)
  note defs = getline_array_def demo_stream_def read_chars_def init_noskip_def good_def setstate_def n_def str_def
  have "getline_array d n (demo_stream \<lparr>get_area = l @ d # t, refills = [], source = []\<rparr>) =
      (str, (demo_stream \<lparr>get_area = t, refills = [], source = []\<rparr>)\<lparr>gcount := n\<rparr>)"
    using assms(2) scan [of "d # t"] by (simp add: defs read_buffered.simps Let_def gbump_def)
  moreover have "getline_array d n (demo_stream \<lparr>get_area = l, refills = [d # t], source = []\<rparr>) =
      (str, (demo_stream \<lparr>get_area = d # t, refills = [], source = []\<rparr>)\<lparr>gcount := n - 1\<rparr>)"
    using assms(2) scan [of "[]"] by (simp add: defs read_buffered.simps Let_def gbump_def sgetc_def underflow_def)
  moreover have "getline_array d n (demo_stream \<lparr>get_area = [], refills = [], source = l @ d # t\<rparr>) =
      (str, (demo_stream \<lparr>get_area = [], refills = [], source = d # t\<rparr>)\<lparr>gcount := n - 1, rdstate := {failbit}\<rparr>)"
    using assms(2) read_unbuffered_plain [OF assms(1), of True True "d # t"] by (simp add: defs)
  ultimately show ?thesis by blast
qed

theorem getline_array_depends_on_buffering_witness:
  "snd (getline_array (CHR 0x0A) 3 (demo_stream \<lparr>get_area = ''ab'', refills = [CHR 0x0A # ''c''], source = []\<rparr>)) =
    \<lparr>rdbuf = \<lparr>get_area = CHR 0x0A # ''c'', refills = [], source = []\<rparr>, rdstate = {}, gcount = 2, width = 0\<rparr>"
  using getline_array_depends_on_buffering [of "CHR 0x0A" "''ab''" "''c''"]
  by (simp add: numeral_eq_Suc demo_stream_def)

section \<open>Lines\<close>

lemma getline_loop_line:
  assumes "ok_buf b" and "d \<notin> set l" and "length l < n" and "buffered_text b = l @ d # r"
  shows "\<exists>b'. getline_loop d n b = (Suc (length l), l, b', {}) \<and> buffered_text b' = r \<and> ok_buf b'"
  using assms
proof (induction l arbitrary: b n)
  case Nil
  then obtain m where n: "n = Suc m" by (cases n) auto
  from Nil.prems(1) show ?case by (cases rule: sbumpc_cases) (use Nil n in auto)
next
  case (Cons x l)
  then obtain m where n: "n = Suc m" by (cases n) auto
  from Cons.prems(1) show ?case
  proof (cases rule: sbumpc_cases)
    case eof
    with Cons.prems show ?thesis by simp
  next
    case (char c cs b')
    with Cons.prems n Cons.IH [of b' m] show ?thesis by auto
  qed
qed

lemma getline_loop_last:
  assumes "ok_buf b" and "d \<notin> set (buffered_text b)" and "length (buffered_text b) < n"
  shows "\<exists>b'. getline_loop d n b = (length (buffered_text b), buffered_text b, b', {eofbit}) \<and> buffered_text b' = []"
  using assms
proof (induction n arbitrary: b)
  case 0
  then show ?case by simp
next
  case (Suc n)
  from Suc.prems(1) show ?case
  proof (cases rule: sbumpc_cases)
    case eof
    with Suc.prems show ?thesis by simp
  next
    case (char c cs b')
    with Suc.prems Suc.IH [of b'] show ?thesis by auto
  qed
qed

lemma split_on_absent: "d \<notin> set t \<Longrightarrow> split_on d t = [t]"
  using split_on_last .

lemma stream_lines_eq:
  assumes "ok_stream s" and "good s" and "Suc (length (unread (view s))) < max_size"
    and "length (getlines (unread (view s))) \<le> fuel"
  shows "stream_lines max_size fuel s line = Some (getlines (unread (view s)))"
  using assms
proof (induction fuel arbitrary: s line)
  case 0
  then show ?case by (simp add: getlines_def)
next
  case (Suc fuel)
  let ?t = "buffered_text (rdbuf s)" and ?nl = "CHR 0x0A"
  have ok: "ok_buf (rdbuf s)" using Suc.prems(1) by (simp add: ok_stream_def)
  show ?case
  proof (cases "?nl \<in> set ?t")
    case False
    with getline_loop_last [OF ok False, of max_size] Suc.prems
    obtain b' where "getline_loop ?nl max_size (rdbuf s) = (length ?t, ?t, b', {eofbit})" by auto
    with Suc.prems False show ?thesis
      by (simp add: stream_lines.simps getline_def init_noskip_def getlines_def split_on_absent good_def)
  next
    case True
    then obtain l r where t: "?t = l @ ?nl # r" and l: "?nl \<notin> set l" by (meson split_list_first)
    with getline_loop_line [OF ok l _ t, of max_size] Suc.prems(3)
    obtain b' where b': "getline_loop ?nl max_size (rdbuf s) = (Suc (length l), l, b', {})"
      and r: "buffered_text b' = r" "ok_buf b'" by auto
    have "stream_lines max_size fuel (s\<lparr>rdbuf := b', rdstate := {}\<rparr>) l = Some (getlines r)"
      using Suc.IH [of "s\<lparr>rdbuf := b', rdstate := {}\<rparr>"] Suc.prems t l r
      by (simp add: ok_stream_def good_def getlines_def split_on_piece)
    with b' Suc.prems t l show ?thesis
      by (simp add: stream_lines.simps [of _ _ s] getline_def init_noskip_def good_def setstate_def
          getlines_def split_on_piece)
  qed
qed

text \<open>the loop "while good, getline" over an opened file delivers exactly the pieces of its text
  between the newlines, one more than there are newlines, and then ends: the last call, which meets the
  end of the file, stores what is behind the last newline.  So the first pass of causalityTool's main
  over the simulation points counts what the second pass splits, however the file buffer is filled.\<close>
theorem file_loop_delivers_lines:
  assumes "ok_stream s" and "good s" and "Suc (length (unread (view s))) < max_size"
    and "length (getlines (unread (view s))) \<le> fuel"
  shows "stream_lines max_size fuel s line = Some (getlines (unread (view s)))"
  by (rule stream_lines_eq [OF assms])

theorem file_loop_delivers_lines_witness:
  "stream_lines 1000 3 (demo_stream \<lparr>get_area = ''7 w'', refills = [''1'' @ [CHR 0x0A], ''8 w2''], source = []\<rparr>) [] =
    Some [''7 w1'', ''8 w2'']"
  using file_loop_delivers_lines [of "demo_stream \<lparr>get_area = ''7 w'', refills = [''1'' @ [CHR 0x0A], ''8 w2''], source = []\<rparr>" 1000 3 "[]"]
  by (simp add: demo_stream_def ok_stream_def ok_buf_def good_def buffered_text_def getlines_def)

section \<open>ignore\<close>

lemma ignore_num_unbuffered_source:
  "n \<le> num \<Longrightarrow> num - n \<le> length t \<Longrightarrow>
    ignore_num_unbuffered num (-) never_delim False f n \<lparr>get_area = [], refills = [], source = t\<rparr> =
      (num, \<lparr>get_area = [], refills = [], source = drop (num - n) t\<rparr>, {})"
proof (induction "num - n" arbitrary: n t)
  case 0
  then show ?case by (simp add: ignore_num_unbuffered.simps)
next
  case (Suc k)
  then obtain c t' where t: "t = c # t'" by (cases t) auto
  have "num - n = Suc (num - Suc n)" using Suc.hyps(2) by simp
  with Suc.hyps(1) [of "Suc n" t'] Suc.hyps(2) Suc.prems t show ?case
    by (simp add: ignore_num_unbuffered.simps [of _ _ _ _ _ n] never_delim_def sbumpc_def underflow_def)
qed

text \<open>when a stream buffer hands over to unbuffered input in the middle of ignore(n), basic_istream
  skips too much: the characters that were in the get area, fewer than n, are not taken off the count,
  and n further ones are dropped (__ignore_buffered passes _Num on, where __read_buffered passes
  _Num - __n).\<close>
theorem ignore_skips_too_much:
  assumes "a \<noteq> []" and "length a < n" and "n \<noteq> no_limit" and "n \<le> length t"
  shows "ignore n (demo_stream \<lparr>get_area = a, refills = [], source = t\<rparr>) =
    (demo_stream \<lparr>get_area = [], refills = [], source = drop n t\<rparr>)\<lparr>gcount := length a + n\<rparr>"
  using assms ignore_num_unbuffered_source [of 0 n t False]
  by (cases t) (simp_all add: ignore_def ignore_chars_def demo_stream_def init_noskip_def good_def setstate_def
      ignore_num_buffered.simps Project2nd_def gbump_def sgetc_def underflow_def Let_def)

theorem ignore_skips_too_much_witness:
  "gcount (ignore 3 (demo_stream \<lparr>get_area = ''ab'', refills = [], source = ''cdef''\<rparr>)) = 5"
  using ignore_skips_too_much [of "''ab''" 3 "''cdef''"] by (simp add: no_limit_def)

section \<open>Strings written and read\<close>

lemma string_fill_room: "n \<le> room d \<Longrightarrow>
    string_fill c n d = (True, \<lparr>written = written d @ replicate n c, room = room d - n\<rparr>)"
  by (induction n arbitrary: d) (auto simp: sputc_def replicate_append_same)

lemma sputn_room: "length w \<le> room d \<Longrightarrow>
    sputn w d = (length w, \<lparr>written = written d @ w, room = room d - length w\<rparr>)"
  by (simp add: sputn_def Let_def)

definition padding :: "ostream \<Rightarrow> string \<Rightarrow> string" where
  "padding os w = replicate (nat (owidth os) - length w) (ofill os)"

lemma insert_string_written:
  assumes "ostate os = {}" and "0 \<le> owidth os" and "owidth os < 2 ^ 63"
    and "length (padding os w) + length w \<le> room (obuf os)"
  shows "ostate (insert_string os w) = {}" and "owidth (insert_string os w) = 0"
    and "written (obuf (insert_string os w)) =
      written (obuf os) @ (if oleft os then w @ padding os w else padding os w @ w)"
proof -
  have "unat (word_of_int (owidth os) :: 64 word) = nat (owidth os)"
    using assms(2,3) by (simp add: unat_eq_nat_uint uint_word_of_int_eq take_bit_int_eq_self)
  then have pad: "(if length w < unat (word_of_int (owidth os) :: 64 word) then nat (owidth os - int (length w)) else 0)
      = nat (owidth os) - length w"
    by auto
  note defs = insert_string_def assms(1) Let_def pad padding_def string_fill_room sputn_room
  show "ostate (insert_string os w) = {}" "owidth (insert_string os w) = 0"
    "written (obuf (insert_string os w)) =
      written (obuf os) @ (if oleft os then w @ padding os w else padding os w @ w)"
    using assms(4) by (cases "oleft os"; simp add: defs)+
qed

lemma extract_word_text:
  assumes "ok_buf b" and "\<forall>c \<in> set w. \<not> is_space c" and "is_space c" and "length w < n"
    and "buffered_text b = w @ c # t"
  shows "\<exists>b'. extract_word n b = (w, b', {}) \<and> buffered_text b' = c # t"
  using assms
proof (induction w arbitrary: b n)
  case Nil
  then obtain m where n: "n = Suc m" by (cases n) auto
  from Nil.prems(1) show ?case by (cases rule: sbumpc_cases) (use Nil n in auto)
next
  case (Cons x w)
  then obtain m where n: "n = Suc m" by (cases n) auto
  from Cons.prems(1) show ?case
  proof (cases rule: sbumpc_cases)
    case eof
    with Cons.prems show ?thesis by simp
  next
    case (char c cs b')
    with Cons.prems n Cons.IH [of b' m] show ?thesis by auto
  qed
qed

lemma extract_string_word:
  assumes "ok_stream s" and "good s" and "width s = 0" and "w \<noteq> []" and "\<forall>c \<in> set w. \<not> is_space c"
    and "is_space c" and "length w < max_size" and "dropWhile is_space (unread (view s)) = w @ c # t"
  shows "map_prod id view (extract_string max_size s old) = (w, (view s)\<lparr>unread := c # t\<rparr>)"
proof -
  note f = init_skip_fields [OF assms(1,2)]
  have b: "buffered_text (rdbuf (init_skip s)) = w @ c # t" "ok_buf (rdbuf (init_skip s))"
    using f(1,5) assms(8) by (simp_all add: ok_stream_def)
  from extract_word_text [OF b(2) assms(5,6,7) b(1)]
  obtain b' where "extract_word max_size (rdbuf (init_skip s)) = (w, b', {})" and "buffered_text b' = c # t" by blast
  moreover have "rdstate (init_skip s) = {}" by (simp only: f(2) assms(8)) simp
  ultimately show ?thesis
    using f(3,4) assms(2,3,4) by (simp add: extract_string_def good_def view_def)
qed

text \<open>a word written with "<<" and followed by white space is read back by ">>", whatever the width and
  the adjustment it was written with: padding with a white space fill character is skipped in front
  of the word and ends it behind, provided the output buffer has room; writing resets the width, and
  both streams stay good.\<close>
theorem string_output_input_roundtrip:
  assumes out: "ostate os = {}" "written (obuf os) = []" "0 \<le> owidth os" "owidth os < 2 ^ 63" "is_space (ofill os)"
      "length (padding os w) + length w \<le> room (obuf os)"
    and word: "w \<noteq> []" "\<forall>c \<in> set w. \<not> is_space c" "length w < max_size" "is_space c"
    and inp: "ok_stream s" "good s" "width s = 0" "unread (view s) = written (obuf (insert_string os w)) @ c # t"
  shows "ostate (insert_string os w) = {} \<and> owidth (insert_string os w) = 0 \<and>
    fst (extract_string max_size s old) = w \<and> good (snd (extract_string max_size s old))"
proof -
  note wr = insert_string_written [OF out(1,3,4,6)]
  have pad: "\<forall>x \<in> set (padding os w). is_space x" using out(5) by (simp add: padding_def)
  obtain x ws where w: "w = x # ws" and x: "\<not> is_space x" using word(1,2) by (cases w) auto
  have "\<exists>c' t'. is_space c' \<and> dropWhile is_space (unread (view s)) = w @ c' # t'"
  proof (cases "oleft os \<and> padding os w \<noteq> []")
    case True
    then obtain p ps where "padding os w = p # ps" "is_space p" using pad by (cases "padding os w") auto
    with True show ?thesis using inp(4) wr(3) out(2) w x by simp
  next
    case False
    then show ?thesis using inp(4) wr(3) out(2) w x pad word(4) by auto
  qed
  then obtain c' t' where "is_space c'" "dropWhile is_space (unread (view s)) = w @ c' # t'" by blast
  from extract_string_word [OF inp(1,2,3) word(1,2) this(1) word(3) this(2), of old]
  show ?thesis using wr(1,2) inp(2) by (auto simp: good_def view_def map_prod_def split: prod.splits)
qed

theorem string_output_input_roundtrip_witness:
  "fst (extract_string 100 (demo_stream \<lparr>get_area = ''  a'', refills = [''b c''], source = []\<rparr>) []) = ''ab''"
proof -
  let ?os = "\<lparr>obuf = \<lparr>written = [], room = 10\<rparr>, ostate = {}, owidth = 4, ofill = CHR '' '', oleft = False\<rparr>"
  have "written (obuf (insert_string ?os ''ab'')) = ''  ab''"
    by (simp add: insert_string_written padding_def numeral_eq_Suc)
  then show ?thesis
    using string_output_input_roundtrip [of ?os "''ab''" 100 "CHR '' ''"
        "demo_stream \<lparr>get_area = ''  a'', refills = [''b c''], source = []\<rparr>" "''c''" "[]"]
    by (simp add: demo_stream_def ok_stream_def ok_buf_def good_def buffered_text_def padding_def is_space_def of_char_def)
qed

section \<open>Copying\<close>

text \<open>Of a text, into a buffer: up to a delimiter, as far as there is room.\<close>

definition copy_text :: "(char \<Rightarrow> bool) \<Rightarrow> string \<Rightarrow> sink \<Rightarrow> nat \<times> string \<times> sink \<times> iostate" where
  "copy_text is_delim t d =
     (let s = upto_delim is_delim (room d) t
      in (length s, drop (length s) t, \<lparr>written = written d @ s, room = room d - length s\<rparr>,
          if s = t then {eofbit} else {}))"

definition of_source :: "nat \<times> streambuf \<times> sink \<times> iostate \<Rightarrow> nat \<times> string \<times> sink \<times> iostate" where
  "of_source r = (case r of (n, b, d, st) \<Rightarrow> (n, buffered_text b, d, st))"

lemma copy_text_stop: "d c \<or> room k = 0 \<Longrightarrow> copy_text d (c # t) k = (0, c # t, k, {})"
  by (cases "room k") (auto simp: copy_text_def upto_delim_def)

lemma copy_text_Nil [simp]: "copy_text d [] k = (0, [], k, {eofbit})"
  by (simp add: copy_text_def upto_delim_def)

lemma copy_text_append:
  assumes "list_all (\<lambda>c. \<not> d c) s" and "length s \<le> room k"
  shows "copy_text d (s @ t) k =
    (case copy_text d t (snd (sputn s k)) of (n, r, k', st) \<Rightarrow> (length s + n, r, k', st))"
  using assms by (simp add: copy_text_def sputn_room upto_delim_def takeWhile_append2 list_all_iff Let_def)

lemma sputc_sputn: "room k \<noteq> 0 \<Longrightarrow> sputc c k = (True, snd (sputn [c] k))"
  by (simp add: sputc_def sputn_def Let_def min_def)

lemma copy_unbuffered_text:
  "ok_buf b \<Longrightarrow> of_source (copy_unbuffered d False b k) = copy_text d (buffered_text b) k"
proof (induction "length (buffered_text b)" arbitrary: b k rule: less_induct)
  case less
  from less.prems show ?case
  proof (cases rule: sbumpc_cases)
    case eof
    then show ?thesis by (simp add: copy_unbuffered.simps of_source_def)
  next
    case (char c cs b')
    show ?thesis
    proof (cases "d c \<or> room k = 0")
      case True
      with char show ?thesis
        by (auto simp: copy_unbuffered.simps [of _ _ b] of_source_def copy_text_stop sputc_def)
    next
      case False
      with less.hyps [of b' "snd (sputn [c] k)"] char copy_text_append [of d "[c]" k cs] show ?thesis
        by (auto simp: copy_unbuffered.simps [of _ _ b] of_source_def sputc_sputn split: prod.splits)
    qed
  qed
qed

context delimiter
begin

lemma copy_area:
  assumes "n \<le> scan_delim (get_area b)" and "n \<le> room k"
  shows "copy_text is_delim (buffered_text b) k =
    (case copy_text is_delim (drop n (buffered_text b)) (snd (sputn (take n (get_area b)) k)) of
       (m, r, k', st) \<Rightarrow> (n + m, r, k', st))"
proof -
  have n: "n \<le> length (get_area b)" using assms(1) scan_le [of "get_area b"] by linarith
  have "list_all (\<lambda>c. \<not> is_delim c) (take n (get_area b))"
    using scan_before [of "get_area b"]
    by (auto simp: list_all_iff dest: set_take_subset_set_take [OF assms(1), THEN subsetD])
  moreover have "take n (get_area b) @ drop n (buffered_text b) = buffered_text b"
    using take_text [OF n] append_take_drop_id [of n "buffered_text b"] by simp
  ultimately show ?thesis
    using copy_text_append [of is_delim "take n (get_area b)" k "drop n (buffered_text b)"] n assms(2)
    by (simp add: min_absorb2)
qed

lemma copy_buffered_text:
  "ok_buf b \<Longrightarrow> get_area b \<noteq> [] \<Longrightarrow>
    of_source (copy_buffered scan_delim is_delim False b k) = copy_text is_delim (buffered_text b) k"
proof (induction "areas_left b" arbitrary: b k rule: less_induct)
  case less
  let ?a = "get_area b"
  let ?p = "scan_delim ?a"
  let ?n = "min ?p (room k)"
  note ok = less.prems(1)
  define k' where "k' = snd (sputn (take ?n ?a) k)"
  have put: "sputn (take ?p ?a) k = (?n, k')"
    using scan_le [of ?a] by (simp add: k'_def sputn_def Let_def min_def)
  note eq = copy_buffered.simps [of _ _ _ b] copy_area [of ?n b k, folded k'_def]
  show ?case
  proof (cases "?n < length ?a")
    case True
    then have "drop ?n (buffered_text b) = ?a ! ?n # drop (Suc ?n) (buffered_text b)"
      by (simp add: buffered_text_def Cons_nth_drop_Suc [symmetric] del: Cons_nth_drop_Suc)
    moreover have "is_delim (?a ! ?n) \<or> room k' = 0"
      using True scan_at [of ?a] by (auto simp: k'_def sputn_def Let_def min_def)
    ultimately show ?thesis
      using True put by (simp add: eq Let_def of_source_def text_gbump copy_text_stop)
  next
    case False
    then have n: "?n = length ?a" "?p = length ?a" using scan_le [of ?a] by auto
    have ok1: "ok_buf (gbump ?n b)" using ok by simp
    show ?thesis
    proof (cases rule: sgetc_cases [OF ok1])
      case (1 b')
      then have "get_area b' = []" by (simp add: buffered_text_def)
      with 1 False put n show ?thesis by (simp add: eq Let_def of_source_def text_gbump)
    next
      case (2 c cs b')
      have "areas_left b' < areas_left b" using areas_left_sgetc [OF 2(2) less.prems(2)] n by simp
      note ih = less.hyps [OF this 2(4), of k']
        copy_unbuffered_text [OF 2(4), of is_delim k']
      show ?thesis
        using 2 False put n ih
        by (cases "get_area b' = []") (auto simp: eq Let_def of_source_def text_gbump split: prod.splits)
    qed
  qed
qed

end

text \<open>copying from a stream into another stream buffer up to a delimiter (basic_istream::get into a
  streambuf) moves the same characters whether it copies whole get areas (__copy_buffered) or one
  character at a time (__copy_unbuffered): those in front of the delimiter as far as the destination
  has room, no character being lost when it fills up; the rest stays unread, eofbit is set exactly when
  the whole text was moved, failbit exactly when nothing was.\<close>
theorem stream_copy_refines_text:
  assumes "ok_stream s" and "good s"
  shows "map_prod view id (get_streambuf d s k) =
    (case copy_text (\<lambda>c. c = d) (unread (view s)) k of (n, r, k', st) \<Rightarrow>
       ((view s)\<lparr>unread := r, tstate := st \<union> (if n = 0 then {failbit} else {}), tcount := n\<rparr>, k'))"
proof -
  have ok: "ok_buf (rdbuf s)" using assms(1) by (simp add: ok_stream_def)
  let ?r = "if get_area (rdbuf s) \<noteq> [] then copy_buffered (Scan_for_char_val d) (\<lambda>c. c = d) False (rdbuf s) k
    else copy_unbuffered (\<lambda>c. c = d) False (rdbuf s) k"
  have "of_source ?r = copy_text (\<lambda>c. c = d) (unread (view s)) k"
    using char_delim.copy_buffered_text [OF ok, of d k] copy_unbuffered_text [OF ok, of "\<lambda>c. c = d" k] by simp
  moreover obtain n b k' st where r: "?r = (n, b, k', st)" by (metis prod_cases4)
  ultimately have t: "copy_text (\<lambda>c. c = d) (unread (view s)) k = (n, buffered_text b, k', st)"
    by (simp add: of_source_def)
  have "get_streambuf d s k = (let s = setstate st (s\<lparr>rdbuf := b, gcount := n\<rparr>)
      in (if n = 0 then setstate {failbit} s else s, k'))"
    using assms(2) r by (cases "get_area (rdbuf s) = []") (simp_all add: get_streambuf_def init_noskip_def good_def)
  with t assms(2) show ?thesis by (simp add: good_def view_def)
qed

theorem stream_copy_refines_text_witness:
  "map_prod view id (get_streambuf (CHR ''e'') (demo_stream demo_buf) \<lparr>written = [], room = 3\<rparr>) =
    (\<lparr>unread = ''d efg'', tstate = {}, tcount = 3, twidth = 0\<rparr>, \<lparr>written = ''abc'', room = 0\<rparr>)"
  using stream_copy_refines_text [of "demo_stream demo_buf" "CHR ''e''" "\<lparr>written = [], room = 3\<rparr>"]
  by (simp add: demo_stream_def demo_buf_def ok_stream_def ok_buf_def good_def buffered_text_def copy_text_def
      upto_delim_def view_def numeral_eq_Suc)

end
