(* ===== verification/StlString.thy ===== *)
theory StlString
  imports Prelude
begin

text \<open>
  The strings of the C++ library the tools are compiled against, as blocks of memory: the members of
  \<open>basic_string\<close> that change a string (\<open>stl/_string.h\<close>, \<open>stl/_string.c\<close>, \<open>stl/_string_base.h\<close>).  A pointer
  into the string's own block is its distance from the start, so that a range handed to a member may
  overlap what the member moves: the self-referencing calls the code takes care of.  Every store and
  every read checks that it stays inside the block, and \<open>memcpy\<close> that its ranges do not overlap.
\<close>

section \<open>Memory\<close>

datatype str_error = Length_error | Out_of_range | Bad_alloc | Bad_access

type_synonym 'a res = "str_error + 'a"

definition bindE :: "'a res \<Rightarrow> ('a \<Rightarrow> 'b res) \<Rightarrow> 'b res" where
  "bindE m f = (case m of Inl e \<Rightarrow> Inl e | Inr a \<Rightarrow> f a)"

lemma bindE_simps [simp]: "bindE (Inl e) f = Inl e" "bindE (Inr a) f = f a"
  by (simp_all add: bindE_def)

abbreviation null :: char where "null \<equiv> CHR 0x00"

text \<open>The block a string owns, and \<open>_M_finish\<close>, the distance of its end from its start.\<close>

record str =
  storage :: string
  finish :: nat

text \<open>A range of characters \<open>[first, last)\<close>: outside of the block, or inside.\<close>

datatype source = Outside string | Inside nat nat

fun src_len :: "source \<Rightarrow> nat" where
  "src_len (Outside xs) = length xs"
| "src_len (Inside f l) = l - f"

text \<open>\<open>[first + k, last)\<close>, \<open>[first, first + k)\<close>, \<open>[first + k, last + k)\<close>.\<close>

fun advance :: "nat \<Rightarrow> source \<Rightarrow> source" where
  "advance k (Outside xs) = Outside (drop k xs)"
| "advance k (Inside f l) = Inside (f + k) l"

fun upto_mid :: "nat \<Rightarrow> source \<Rightarrow> source" where
  "upto_mid k (Outside xs) = Outside (take k xs)"
| "upto_mid k (Inside f l) = Inside f (f + k)"

fun shifted :: "nat \<Rightarrow> source \<Rightarrow> source" where
  "shifted k (Outside xs) = Outside xs"
| "shifted k (Inside f l) = Inside (f + k) (l + k)"

fun fetch :: "string \<Rightarrow> source \<Rightarrow> string res" where
  "fetch b (Outside xs) = Inr xs"
| "fetch b (Inside f l) = (if f \<le> l \<and> l \<le> length b then Inr (take (l - f) (drop f b)) else Inl Bad_access)"

definition poke :: "string \<Rightarrow> nat \<Rightarrow> string \<Rightarrow> string res" where
  "poke b i xs = (if i + length xs \<le> length b then Inr (take i b @ xs @ drop (i + length xs) b) else Inl Bad_access)"

text \<open>\<open>memset\<close> and \<open>__uninitialized_fill_n\<close>; \<open>memmove\<close>; \<open>memcpy\<close>.\<close>

definition set_chars :: "string \<Rightarrow> nat \<Rightarrow> nat \<Rightarrow> char \<Rightarrow> string res" where
  "set_chars b d n c = poke b d (replicate n c)"

definition move_chars :: "string \<Rightarrow> nat \<Rightarrow> source \<Rightarrow> string res" where
  "move_chars b d src = bindE (fetch b src) (poke b d)"

fun overlap :: "nat \<Rightarrow> source \<Rightarrow> bool" where
  "overlap d (Outside xs) = False"
| "overlap d (Inside f l) = (f < l \<and> f < d + (l - f) \<and> d < l)"

definition copy_chars :: "string \<Rightarrow> nat \<Rightarrow> source \<Rightarrow> string res" where
  "copy_chars b d src = (if overlap d src then Inl Bad_access else move_chars b d src)"

text \<open>\<open>__ucopy\<close> copies upwards, character by character.\<close>

fun copy_up :: "string \<Rightarrow> nat \<Rightarrow> nat \<Rightarrow> nat \<Rightarrow> string res" where
  "copy_up b d f 0 = Inr b"
| "copy_up b d f (Suc n) =
     (if f < length b \<and> d < length b then copy_up (b[d := b ! f]) (Suc d) (Suc f) n else Inl Bad_access)"

fun ucopy :: "string \<Rightarrow> nat \<Rightarrow> source \<Rightarrow> string res" where
  "ucopy b d (Outside xs) = poke b d xs"
| "ucopy b d (Inside f l) = copy_up b d f (l - f)"

text \<open>Accesses one after the other.\<close>

fun accesses :: "(string \<Rightarrow> string res) list \<Rightarrow> string \<Rightarrow> string res" where
  "accesses [] b = Inr b"
| "accesses (f # fs) b = bindE (f b) (accesses fs)"

section \<open>The base class\<close>

text \<open>The allocator: a block of the size asked for or of a larger one, with anything in it, or
  \<open>bad_alloc\<close>.  Short strings live in a buffer inside the object.\<close>

record env =
  allocate :: "nat \<Rightarrow> string option"
  static_buf :: string

definition DEFAULT_SIZE :: nat where "DEFAULT_SIZE = 4 * 8"

definition str_max_size :: nat where "str_max_size = min (2 ^ 64 - 1) (2 ^ 64 - 1) - 1"

definition M_capacity :: "str \<Rightarrow> nat" where "M_capacity s = length (storage s)"

definition M_rest :: "str \<Rightarrow> nat" where "M_rest s = length (storage s) - finish s"

definition str_capacity :: "str \<Rightarrow> nat" where "str_capacity s = M_capacity s - 1"

definition get_block :: "env \<Rightarrow> nat \<Rightarrow> string res" where
  "get_block e n = (case allocate e n of None \<Rightarrow> Inl Bad_alloc | Some b \<Rightarrow> Inr b)"

definition M_allocate_block :: "env \<Rightarrow> nat \<Rightarrow> string res" where
  "M_allocate_block e n =
     (if n \<le> str_max_size + 1 \<and> 0 < n
      then if DEFAULT_SIZE < n then get_block e n else Inr (static_buf e)
      else Inl Length_error)"

text \<open>A block filled piece by piece, the pieces read from the old block.\<close>

fun copy_pieces :: "string \<Rightarrow> source list \<Rightarrow> string \<Rightarrow> nat \<Rightarrow> (string \<times> nat) res" where
  "copy_pieces old [] new d = Inr (new, d)"
| "copy_pieces old (p # ps) new d = bindE (fetch old p) (\<lambda>xs. bindE (poke new d xs) (\<lambda>new.
     copy_pieces old ps new (d + length xs)))"

definition fill_block :: "string \<Rightarrow> string \<Rightarrow> source list \<Rightarrow> str res" where
  "fill_block old new ps = bindE (copy_pieces old ps new 0) (\<lambda>(new, new_finish).
     bindE (poke new new_finish [null]) (\<lambda>new. Inr \<lparr>storage = new, finish = new_finish\<rparr>))"

definition regrow :: "env \<Rightarrow> nat \<Rightarrow> source list \<Rightarrow> str \<Rightarrow> str res" where
  "regrow e len ps s = bindE (get_block e len) (\<lambda>new. fill_block (storage s) new ps)"

section \<open>Construction\<close>

definition range_initialize :: "env \<Rightarrow> string \<Rightarrow> source \<Rightarrow> str res" where
  "range_initialize e old src = bindE (M_allocate_block e (src_len src + 1)) (\<lambda>new. fill_block old new [src])"

definition str_empty :: "env \<Rightarrow> str res" where
  "str_empty e = bindE (M_allocate_block e DEFAULT_SIZE) (\<lambda>new. fill_block [] new [])"

definition str_of_fill :: "env \<Rightarrow> nat \<Rightarrow> char \<Rightarrow> str res" where
  "str_of_fill e n c = bindE (M_allocate_block e (n + 1)) (\<lambda>new. fill_block [] new [Outside (replicate n c)])"

definition str_of_ptr :: "env \<Rightarrow> string \<Rightarrow> str res" where
  "str_of_ptr e xs = range_initialize e [] (Outside xs)"

definition str_copy :: "env \<Rightarrow> str \<Rightarrow> str res" where
  "str_copy e s = range_initialize e (storage s) (Inside 0 (finish s))"

definition str_sub :: "env \<Rightarrow> str \<Rightarrow> nat \<Rightarrow> nat \<Rightarrow> str res" where
  "str_sub e s pos n =
     (if finish s < pos then Inl Out_of_range
      else range_initialize e (storage s) (Inside pos (pos + min n (finish s - pos))))"

section \<open>Size\<close>

definition next_size :: "nat \<Rightarrow> str \<Rightarrow> nat res" where
  "next_size n s =
     (if str_max_size - finish s < n then Inl Length_error
      else let len = (finish s + max n (finish s) + 1) mod 2 ^ 64 in
        Inr (if str_max_size < len \<or> len < finish s then str_max_size else len))"

definition M_reserve :: "env \<Rightarrow> nat \<Rightarrow> str \<Rightarrow> str res" where
  "M_reserve e n s = regrow e n [Inside 0 (finish s)] s"

definition reserve :: "env \<Rightarrow> nat \<Rightarrow> str \<Rightarrow> str res" where
  "reserve e res s =
     (if str_max_size < res then Inl Length_error
      else let n = max res (finish s) + 1 in if n < M_capacity s then Inr s else M_reserve e n s)"

definition make_room :: "env \<Rightarrow> bool \<Rightarrow> nat \<Rightarrow> str \<Rightarrow> str res" where
  "make_room e short n s = (if short then bindE (next_size n s) (\<lambda>len. M_reserve e len s) else Inr s)"

definition clear :: "str \<Rightarrow> str res" where
  "clear s = (if finish s = 0 then Inr s
     else bindE (poke (storage s) 0 [null]) (\<lambda>b. Inr (s\<lparr>storage := b, finish := 0\<rparr>)))"

definition str_at :: "str \<Rightarrow> nat \<Rightarrow> char res" where
  "str_at s n = (if finish s \<le> n then Inl Out_of_range else Inr (storage s ! n))"

text \<open>\<open>length() - 1\<close> wraps around on an empty string.\<close>

definition str_back :: "str \<Rightarrow> char res" where
  "str_back s = str_at s (nat ((int (finish s) - 1) mod 2 ^ 64))"

definition str_front :: "str \<Rightarrow> char res" where
  "str_front s = str_at s 0"

section \<open>Appending\<close>

definition push_back :: "env \<Rightarrow> char \<Rightarrow> str \<Rightarrow> str res" where
  "push_back e c s = bindE (make_room e (M_rest s = 1) 1 s) (\<lambda>s.
     bindE (accesses [\<lambda>b. poke b (finish s + 1) [null], \<lambda>b. poke b (finish s) [c]] (storage s)) (\<lambda>b.
       Inr (s\<lparr>storage := b, finish := finish s + 1\<rparr>)))"

definition pop_back :: "str \<Rightarrow> str res" where
  "pop_back s = (if finish s = 0 then Inl Bad_access
     else bindE (poke (storage s) (finish s - 1) [null]) (\<lambda>b. Inr (s\<lparr>storage := b, finish := finish s - 1\<rparr>)))"

definition append_fill :: "env \<Rightarrow> nat \<Rightarrow> char \<Rightarrow> str \<Rightarrow> str res" where
  "append_fill e n c s =
     (if n = 0 then Inr s
      else if str_max_size - finish s < n then Inl Length_error
      else bindE (make_room e (M_rest s \<le> n) n s) (\<lambda>s.
        bindE (accesses [\<lambda>b. set_chars b (finish s + 1) (n - 1) c, \<lambda>b. poke b (finish s + n) [null],
                 \<lambda>b. poke b (finish s) [c]] (storage s)) (\<lambda>b.
          Inr (s\<lparr>storage := b, finish := finish s + n\<rparr>))))"

definition M_append :: "env \<Rightarrow> source \<Rightarrow> str \<Rightarrow> str res" where
  "M_append e src s =
     (let n = src_len src in
      if n = 0 then Inr s
      else if M_rest s \<le> n
      then bindE (next_size n s) (\<lambda>len. regrow e len [Inside 0 (finish s), src] s)
      else bindE (accesses [\<lambda>b. ucopy b (finish s + 1) (advance 1 src), \<lambda>b. poke b (finish s + n) [null],
                 \<lambda>b. move_chars b (finish s) (upto_mid 1 src)] (storage s)) (\<lambda>b.
        Inr (s\<lparr>storage := b, finish := finish s + n\<rparr>)))"

text \<open>An argument of the class's own type is another string or this one.\<close>

fun whole :: "str \<Rightarrow> string option \<Rightarrow> source" where
  "whole s None = Inside 0 (finish s)"
| "whole s (Some t) = Outside t"

definition part :: "str \<Rightarrow> string option \<Rightarrow> nat \<Rightarrow> nat \<Rightarrow> source" where
  "part s t pos n = upto_mid (min n (src_len (whole s t) - pos)) (advance pos (whole s t))"

definition append_str :: "env \<Rightarrow> string option \<Rightarrow> str \<Rightarrow> str res" where
  "append_str e t s = M_append e (whole s t) s"

definition append_sub :: "env \<Rightarrow> string option \<Rightarrow> nat \<Rightarrow> nat \<Rightarrow> str \<Rightarrow> str res" where
  "append_sub e t pos n s =
     (if src_len (whole s t) < pos then Inl Out_of_range else M_append e (part s t pos n) s)"

section \<open>Erasing\<close>

definition erase_range :: "nat \<Rightarrow> nat \<Rightarrow> str \<Rightarrow> str res" where
  "erase_range f l s =
     (if f = l then Inr s
      else bindE (move_chars (storage s) f (Inside l (finish s + 1))) (\<lambda>b.
        Inr (s\<lparr>storage := b, finish := finish s - (l - f)\<rparr>)))"

definition erase_one :: "nat \<Rightarrow> str \<Rightarrow> str res" where
  "erase_one p s = bindE (move_chars (storage s) p (Inside (p + 1) (finish s + 1))) (\<lambda>b.
     Inr (s\<lparr>storage := b, finish := finish s - 1\<rparr>))"

definition erase :: "nat \<Rightarrow> nat \<Rightarrow> str \<Rightarrow> str res" where
  "erase pos n s = (if finish s < pos then Inl Out_of_range
     else erase_range pos (pos + min n (finish s - pos)) s)"

definition resize :: "env \<Rightarrow> nat \<Rightarrow> char \<Rightarrow> str \<Rightarrow> str res" where
  "resize e n c s = (if n \<le> finish s then erase_range n (finish s) s else append_fill e (n - finish s) c s)"

section \<open>Assigning\<close>

definition assign_fill :: "env \<Rightarrow> nat \<Rightarrow> char \<Rightarrow> str \<Rightarrow> str res" where
  "assign_fill e n c s =
     (if n \<le> finish s then bindE (set_chars (storage s) 0 n c) (\<lambda>b. erase_range n (finish s) (s\<lparr>storage := b\<rparr>))
      else if n < str_capacity s
      then bindE (set_chars (storage s) 0 (finish s) c) (\<lambda>b.
        append_fill e (n - finish s) c (s\<lparr>storage := b\<rparr>))
      else str_of_fill e n c)"

definition M_assign :: "env \<Rightarrow> source \<Rightarrow> str \<Rightarrow> str res" where
  "M_assign e src s =
     (let n = src_len src in
      if n \<le> finish s then bindE (move_chars (storage s) 0 (upto_mid n src)) (\<lambda>b.
        erase_range n (finish s) (s\<lparr>storage := b\<rparr>))
      else bindE (move_chars (storage s) 0 (upto_mid (finish s) src)) (\<lambda>b.
        M_append e (advance (finish s) src) (s\<lparr>storage := b\<rparr>)))"

definition assign_str :: "env \<Rightarrow> string option \<Rightarrow> str \<Rightarrow> str res" where
  "assign_str e t s = M_assign e (whole s t) s"

definition assign_op :: "env \<Rightarrow> string option \<Rightarrow> str \<Rightarrow> str res" where
  "assign_op e t s = (if t \<noteq> None then M_assign e (whole s t) s else Inr s)"

definition assign_sub :: "env \<Rightarrow> string option \<Rightarrow> nat \<Rightarrow> nat \<Rightarrow> str \<Rightarrow> str res" where
  "assign_sub e t pos n s =
     (if src_len (whole s t) < pos then Inl Out_of_range else M_assign e (part s t pos n) s)"

section \<open>Inserting\<close>

definition M_insert_aux :: "env \<Rightarrow> nat \<Rightarrow> char \<Rightarrow> str \<Rightarrow> str res" where
  "M_insert_aux e p c s =
     (if 1 < M_rest s
      then bindE (accesses [\<lambda>b. poke b (finish s + 1) [null], \<lambda>b. move_chars b (p + 1) (Inside p (finish s)),
                   \<lambda>b. poke b p [c]] (storage s)) (\<lambda>b. Inr (s\<lparr>storage := b, finish := finish s + 1\<rparr>))
      else bindE (next_size 1 s) (\<lambda>len. regrow e len [Inside 0 p, Outside [c], Inside p (finish s)] s))"

definition insert_fill :: "env \<Rightarrow> nat \<Rightarrow> nat \<Rightarrow> char \<Rightarrow> str \<Rightarrow> str res" where
  "insert_fill e pos n c s =
     (if n = 0 then Inr s
      else if n < M_rest s
      then let elems_after = finish s - pos in
        if n \<le> elems_after
        then bindE (accesses [\<lambda>b. ucopy b (finish s + 1) (Inside (finish s - n + 1) (finish s + 1)),
                 \<lambda>b. move_chars b (pos + n) (Inside pos (pos + (elems_after - n) + 1)),
                 \<lambda>b. set_chars b pos n c] (storage s)) (\<lambda>b. Inr (s\<lparr>storage := b, finish := finish s + n\<rparr>))
        else bindE (accesses [\<lambda>b. set_chars b (finish s + 1) (n - elems_after - 1) c,
                 \<lambda>b. ucopy b (finish s + (n - elems_after)) (Inside pos (finish s + 1)),
                 \<lambda>b. set_chars b pos (elems_after + 1) c] (storage s)) (\<lambda>b.
               Inr (s\<lparr>storage := b, finish := finish s + (n - elems_after) + elems_after\<rparr>))
      else bindE (next_size n s) (\<lambda>len.
        regrow e len [Inside 0 pos, Outside (replicate n c), Inside pos (finish s)] s))"

text \<open>\<open>__last < __pos\<close> and \<open>__first >= __pos\<close>, for a range in the block.\<close>

fun ends_before :: "source \<Rightarrow> nat \<Rightarrow> bool" where
  "ends_before (Outside xs) p = False"
| "ends_before (Inside f l) p = (l < p)"

fun starts_at_or_after :: "source \<Rightarrow> nat \<Rightarrow> bool" where
  "starts_at_or_after (Outside xs) p = False"
| "starts_at_or_after (Inside f l) p = (p \<le> f)"

definition M_insert :: "env \<Rightarrow> nat \<Rightarrow> source \<Rightarrow> bool \<Rightarrow> str \<Rightarrow> str res" where
  "M_insert e pos src self_ref s =
     (let n = src_len src in
      if n = 0 then Inr s
      else if n < M_rest s
      then let elems_after = finish s - pos in
        if n \<le> elems_after
        then bindE (accesses [\<lambda>b. ucopy b (finish s + 1) (Inside (finish s - n + 1) (finish s + 1)),
                 \<lambda>b. move_chars b (pos + n) (Inside pos (pos + (elems_after - n) + 1)),
                 \<lambda>b. if \<not> self_ref \<or> ends_before src pos then copy_chars b pos src
                     else if starts_at_or_after src pos then copy_chars b pos (shifted n src)
                     else move_chars b pos src] (storage s)) (\<lambda>b.
               Inr (s\<lparr>storage := b, finish := finish s + n\<rparr>))
        else bindE (accesses [\<lambda>b. ucopy b (finish s + 1) (advance (elems_after + 1) src),
                 \<lambda>b. ucopy b (finish s + (n - elems_after)) (Inside pos (finish s + 1)),
                 \<lambda>b. if \<not> self_ref then copy_chars b pos (upto_mid (elems_after + 1) src)
                     else move_chars b pos (upto_mid (elems_after + 1) src)] (storage s)) (\<lambda>b.
               Inr (s\<lparr>storage := b, finish := finish s + (n - elems_after) + elems_after\<rparr>))
      else bindE (next_size n s) (\<lambda>len. regrow e len [Inside 0 pos, src, Inside pos (finish s)] s))"

text \<open>\<open>_M_inside\<close> of the first pointer of a range.\<close>

fun M_inside :: "str \<Rightarrow> source \<Rightarrow> bool" where
  "M_inside s (Outside xs) = False"
| "M_inside s (Inside f l) = (f < finish s)"

definition insert_str :: "env \<Rightarrow> nat \<Rightarrow> string option \<Rightarrow> str \<Rightarrow> str res" where
  "insert_str e pos t s =
     (if finish s < pos then Inl Out_of_range
      else if str_max_size - finish s < src_len (whole s t) then Inl Length_error
      else M_insert e pos (whole s t) (t = None) s)"

definition insert_sub :: "env \<Rightarrow> nat \<Rightarrow> string option \<Rightarrow> nat \<Rightarrow> nat \<Rightarrow> str \<Rightarrow> str res" where
  "insert_sub e pos t beg n s =
     (if finish s < pos \<or> src_len (whole s t) < beg then Inl Out_of_range
      else if str_max_size - finish s < min n (src_len (whole s t) - beg) then Inl Length_error
      else M_insert e pos (part s t beg n) (t = None) s)"

definition insert_ptr :: "env \<Rightarrow> nat \<Rightarrow> source \<Rightarrow> str \<Rightarrow> str res" where
  "insert_ptr e pos src s =
     (if finish s < pos then Inl Out_of_range
      else if str_max_size - finish s < src_len src then Inl Length_error
      else M_insert e pos src (M_inside s src) s)"

definition insert_chars :: "env \<Rightarrow> nat \<Rightarrow> nat \<Rightarrow> char \<Rightarrow> str \<Rightarrow> str res" where
  "insert_chars e pos n c s =
     (if finish s < pos then Inl Out_of_range
      else if str_max_size - finish s < n then Inl Length_error
      else insert_fill e pos n c s)"

definition insert_char :: "env \<Rightarrow> nat \<Rightarrow> char \<Rightarrow> str \<Rightarrow> str res" where
  "insert_char e p c s = (if p = finish s then push_back e c s else M_insert_aux e p c s)"

section \<open>Replacing\<close>

definition replace_fill :: "env \<Rightarrow> nat \<Rightarrow> nat \<Rightarrow> nat \<Rightarrow> char \<Rightarrow> str \<Rightarrow> str res" where
  "replace_fill e lo hi n c s =
     (let len = hi - lo in
      if n \<le> len
      then bindE (set_chars (storage s) lo n c) (\<lambda>b. erase_range (lo + n) hi (s\<lparr>storage := b\<rparr>))
      else bindE (set_chars (storage s) lo len c) (\<lambda>b. insert_fill e hi (n - len) c (s\<lparr>storage := b\<rparr>)))"

text \<open>The comparisons of \<open>_M_replace\<close> with the range \<open>[__f, __l)\<close>; for a range outside the block the flag
  \<open>__self_ref\<close> is off and they are not looked at.\<close>

fun begins_before :: "source \<Rightarrow> nat \<Rightarrow> bool" where
  "begins_before (Outside xs) p = False"
| "begins_before (Inside f l) p = (f < p)"

fun ends_by :: "source \<Rightarrow> nat \<Rightarrow> bool" where
  "ends_by (Outside xs) p = False"
| "ends_by (Inside f l) p = (l \<le> p)"

fun offset :: "source \<Rightarrow> nat" where
  "offset (Outside xs) = 0"
| "offset (Inside f l) = f"

definition M_replace :: "env \<Rightarrow> nat \<Rightarrow> nat \<Rightarrow> source \<Rightarrow> bool \<Rightarrow> str \<Rightarrow> str res" where
  "M_replace e lo hi src self_ref s =
     (let n = src_len src; len = hi - lo in
      if n \<le> len
      then bindE (if \<not> self_ref \<or> ends_before src lo \<or> starts_at_or_after src hi
                  then copy_chars (storage s) lo src else move_chars (storage s) lo src) (\<lambda>b.
        erase_range (lo + n) hi (s\<lparr>storage := b\<rparr>))
      else if \<not> self_ref \<or> starts_at_or_after src hi \<or> ends_by src lo
      then bindE (copy_chars (storage s) lo (upto_mid len src)) (\<lambda>b.
        M_insert e hi (advance len src) self_ref (s\<lparr>storage := b\<rparr>))
      else if begins_before src lo
      then bindE (M_insert e hi (advance len src) True s) (\<lambda>s.
        bindE (move_chars (storage s) lo (Inside (offset src) (offset src + len))) (\<lambda>b. Inr (s\<lparr>storage := b\<rparr>)))
      else bindE (move_chars (storage s) lo (upto_mid len src)) (\<lambda>b.
        M_insert e hi (advance len src) True (s\<lparr>storage := b\<rparr>)))"

definition replace_with :: "nat \<Rightarrow> nat \<Rightarrow> nat \<Rightarrow> (nat \<Rightarrow> str \<Rightarrow> str res) \<Rightarrow> str \<Rightarrow> str res" where
  "replace_with pos n k go s =
     (if finish s < pos then Inl Out_of_range
      else let len = min n (finish s - pos) in
        if str_max_size - (finish s - len) < k then Inl Length_error else go len s)"

definition replace_str :: "env \<Rightarrow> nat \<Rightarrow> nat \<Rightarrow> string option \<Rightarrow> str \<Rightarrow> str res" where
  "replace_str e pos n t s = replace_with pos n (src_len (whole s t))
     (\<lambda>len. M_replace e pos (pos + len) (whole s t) (t = None)) s"

definition replace_sub :: "env \<Rightarrow> nat \<Rightarrow> nat \<Rightarrow> string option \<Rightarrow> nat \<Rightarrow> nat \<Rightarrow> str \<Rightarrow> str res" where
  "replace_sub e pos n t pos2 n2 s =
     (if finish s < pos \<or> src_len (whole s t) < pos2 then Inl Out_of_range
      else replace_with pos n (min n2 (src_len (whole s t) - pos2))
        (\<lambda>len. M_replace e pos (pos + len) (part s t pos2 n2) (t = None)) s)"

definition replace_ptr :: "env \<Rightarrow> nat \<Rightarrow> nat \<Rightarrow> source \<Rightarrow> str \<Rightarrow> str res" where
  "replace_ptr e pos n src s = replace_with pos n (src_len src)
     (\<lambda>len. M_replace e pos (pos + len) src (M_inside s src)) s"

definition replace_chars :: "env \<Rightarrow> nat \<Rightarrow> nat \<Rightarrow> nat \<Rightarrow> char \<Rightarrow> str \<Rightarrow> str res" where
  "replace_chars e pos n n2 c s = replace_with pos n n2 (\<lambda>len. replace_fill e pos (pos + len) n2 c) s"

section \<open>Ranges of iterators\<close>

text \<open>The member templates.  For an iterator that is a pointer \<open>uninitialized_copy\<close> is \<open>memcpy\<close>.  Iterators
  of input streams are taken one at a time.\<close>

definition M_appendT :: "env \<Rightarrow> source \<Rightarrow> str \<Rightarrow> str res" where
  "M_appendT e src s =
     (let n = src_len src in
      if n = 0 then Inr s
      else if M_rest s \<le> n
      then bindE (next_size n s) (\<lambda>len. regrow e len [Inside 0 (finish s), src] s)
      else bindE (accesses [\<lambda>b. move_chars b (finish s) (upto_mid 1 src),
                 \<lambda>b. copy_chars b (finish s + 1) (advance 1 src), \<lambda>b. poke b (finish s + n) [null]] (storage s)) (\<lambda>b.
        Inr (s\<lparr>storage := b, finish := finish s + n\<rparr>)))"

fun append_each :: "env \<Rightarrow> string \<Rightarrow> str \<Rightarrow> str res" where
  "append_each e [] s = Inr s"
| "append_each e (c # cs) s = bindE (push_back e c s) (append_each e cs)"

text \<open>\<open>while (__f != __l && __cur != _M_Finish())\<close>; \<open>n\<close> is the number of characters between \<open>__cur\<close> and the end.\<close>

fun assign_loop :: "nat \<Rightarrow> string \<Rightarrow> nat \<Rightarrow> source \<Rightarrow> (string \<times> nat \<times> source) res" where
  "assign_loop n b cur src =
     (if src_len src = 0 \<or> n = 0 then Inr (b, cur, src)
      else bindE (move_chars b cur (upto_mid 1 src)) (\<lambda>b. assign_loop (n - 1) b (cur + 1) (advance 1 src)))"

declare assign_loop.simps [simp del]

definition assign_range :: "env \<Rightarrow> source \<Rightarrow> str \<Rightarrow> str res" where
  "assign_range e src s = bindE (assign_loop (finish s) (storage s) 0 src) (\<lambda>(b, cur, rest).
     if src_len rest = 0 then erase_range cur (finish s) (s\<lparr>storage := b\<rparr>) else M_appendT e rest (s\<lparr>storage := b\<rparr>))"

definition M_insertT :: "env \<Rightarrow> nat \<Rightarrow> string \<Rightarrow> str \<Rightarrow> str res" where
  "M_insertT e pos xs s =
     (let n = length xs in
      if n = 0 then Inr s
      else if n < M_rest s
      then let elems_after = finish s - pos in
        if n \<le> elems_after
        then bindE (accesses [\<lambda>b. copy_chars b (finish s + 1) (Inside (finish s - n + 1) (finish s + 1)),
                 \<lambda>b. move_chars b (pos + n) (Inside pos (pos + (elems_after - n) + 1)),
                 \<lambda>b. copy_chars b pos (Outside xs)] (storage s)) (\<lambda>b.
               Inr (s\<lparr>storage := b, finish := finish s + n\<rparr>))
        else bindE (accesses [\<lambda>b. copy_chars b (finish s + 1) (Outside (drop (elems_after + 1) xs)),
                 \<lambda>b. copy_chars b (finish s + (n - elems_after)) (Inside pos (finish s + 1)),
                 \<lambda>b. copy_chars b pos (Outside (take (elems_after + 1) xs))] (storage s)) (\<lambda>b.
               Inr (s\<lparr>storage := b, finish := finish s + (n - elems_after) + elems_after\<rparr>))
      else bindE (next_size n s) (\<lambda>len. regrow e len [Inside 0 pos, Outside xs, Inside pos (finish s)] s))"

text \<open>The temporary string.\<close>

definition temporary :: "env \<Rightarrow> source \<Rightarrow> str \<Rightarrow> string res" where
  "temporary e src s = bindE (range_initialize e (storage s) src) (\<lambda>t. Inr (take (finish t) (storage t)))"

definition insert_range :: "env \<Rightarrow> nat \<Rightarrow> source \<Rightarrow> str \<Rightarrow> str res" where
  "insert_range e pos src s = bindE (temporary e src s) (\<lambda>xs. M_insertT e pos xs s)"

fun insert_each :: "env \<Rightarrow> nat \<Rightarrow> string \<Rightarrow> str \<Rightarrow> str res" where
  "insert_each e p [] s = Inr s"
| "insert_each e p (c # cs) s = bindE (insert_char e p c s) (insert_each e (p + 1) cs)"

definition replace_range :: "env \<Rightarrow> nat \<Rightarrow> nat \<Rightarrow> source \<Rightarrow> str \<Rightarrow> str res" where
  "replace_range e lo hi src s = bindE (temporary e src s) (\<lambda>xs. M_replace e lo hi (Outside xs) False s)"

text \<open>The iterator versions for pointers and other strings do not check the length themselves.\<close>

definition insert_iter :: "env \<Rightarrow> nat \<Rightarrow> source \<Rightarrow> str \<Rightarrow> str res" where
  "insert_iter e pos src s = M_insert e pos src (M_inside s src) s"

definition replace_iter :: "env \<Rightarrow> nat \<Rightarrow> nat \<Rightarrow> source \<Rightarrow> str \<Rightarrow> str res" where
  "replace_iter e lo hi src s = M_replace e lo hi src (M_inside s src) s"

section \<open>All of them\<close>

datatype edit =
    Reserve nat | Clear | Resize nat char | Push_back char | Pop_back
  | Append "string option" | Append_sub "string option" nat nat | Append_ptr source | Append_fill nat char
  | Assign "string option" | Assign_op "string option" | Assign_sub "string option" nat nat
  | Assign_ptr source | Assign_fill nat char
  | Erase nat nat | Erase_one nat | Erase_range nat nat
  | Insert nat "string option" | Insert_sub nat "string option" nat nat | Insert_ptr nat source
  | Insert_fill nat nat char | Insert_char nat char
  | Replace nat nat "string option" | Replace_sub nat nat "string option" nat nat
  | Replace_ptr nat nat source | Replace_fill nat nat nat char
  | Append_range source | Assign_range source | Insert_range nat source | Replace_range nat nat source
  | Insert_iter nat source | Replace_iter nat nat source

fun run_edit :: "env \<Rightarrow> edit \<Rightarrow> str \<Rightarrow> str res" where
  "run_edit e (Reserve n) s = reserve e n s"
| "run_edit e Clear s = clear s"
| "run_edit e (Resize n c) s = resize e n c s"
| "run_edit e (Push_back c) s = push_back e c s"
| "run_edit e Pop_back s = pop_back s"
| "run_edit e (Append t) s = append_str e t s"
| "run_edit e (Append_sub t pos n) s = append_sub e t pos n s"
| "run_edit e (Append_ptr src) s = M_append e src s"
| "run_edit e (Append_fill n c) s = append_fill e n c s"
| "run_edit e (Assign t) s = assign_str e t s"
| "run_edit e (Assign_op t) s = assign_op e t s"
| "run_edit e (Assign_sub t pos n) s = assign_sub e t pos n s"
| "run_edit e (Assign_ptr src) s = M_assign e src s"
| "run_edit e (Assign_fill n c) s = assign_fill e n c s"
| "run_edit e (Erase pos n) s = erase pos n s"
| "run_edit e (Erase_one p) s = erase_one p s"
| "run_edit e (Erase_range f l) s = erase_range f l s"
| "run_edit e (Insert pos t) s = insert_str e pos t s"
| "run_edit e (Insert_sub pos t beg n) s = insert_sub e pos t beg n s"
| "run_edit e (Insert_ptr pos src) s = insert_ptr e pos src s"
| "run_edit e (Insert_fill pos n c) s = insert_chars e pos n c s"
| "run_edit e (Insert_char p c) s = insert_char e p c s"
| "run_edit e (Replace pos n t) s = replace_str e pos n t s"
| "run_edit e (Replace_sub pos n t pos2 n2) s = replace_sub e pos n t pos2 n2 s"
| "run_edit e (Replace_ptr pos n src) s = replace_ptr e pos n src s"
| "run_edit e (Replace_fill pos n n2 c) s = replace_chars e pos n n2 c s"
| "run_edit e (Append_range src) s = M_appendT e src s"
| "run_edit e (Assign_range src) s = assign_range e src s"
| "run_edit e (Insert_range pos src) s = insert_range e pos src s"
| "run_edit e (Replace_range lo hi src) s = replace_range e lo hi src s"
| "run_edit e (Insert_iter pos src) s = insert_iter e pos src s"
| "run_edit e (Replace_iter lo hi src) s = replace_iter e lo hi src s"

fun run_edits :: "env \<Rightarrow> edit list \<Rightarrow> str \<Rightarrow> str res" where
  "run_edits e [] s = Inr s"
| "run_edits e (x # xs) s = bindE (run_edit e x s) (run_edits e xs)"

end
