(* ===== verification/StlStringLaws.thy ===== *)
theory StlStringLaws
  imports StlString
begin

text \<open>
  The members of \<open>StlString\<close> that move characters, one by one: on a block that holds \<open>xs\<close> (\<open>holds\<close>), with a
  source that may lie in the same block, each gives a block that holds the expected list (\<open>yields\<close>), or
  the error expected (\<open>correct\<close>).  The moves within the block are taken apart into opening a gap
  (\<open>open_gap\<close>, \<open>late_gap\<close>) and filling it from a source that may have moved itself (\<open>gap_filled\<close>,
  \<open>later_part\<close>).
\<close>

section \<open>Blocks\<close>

definition put :: "string \<Rightarrow> nat \<Rightarrow> string \<Rightarrow> string" where
  "put b i xs = take i b @ xs @ drop (i + length xs) b"

lemma length_put [simp]: "i + length xs \<le> length b \<Longrightarrow> length (put b i xs) = length b"
  by (simp add: put_def)

lemma nth_put: "i + length xs \<le> length b \<Longrightarrow> j < length b \<Longrightarrow>
    put b i xs ! j = (if i \<le> j \<and> j < i + length xs then xs ! (j - i) else b ! j)"
  by (auto simp: put_def nth_append min_def not_less)

lemma poke_put: "i + length xs \<le> length b \<Longrightarrow> poke b i xs = Inr (put b i xs)"
  by (simp add: poke_def put_def)

definition sub :: "string \<Rightarrow> nat \<Rightarrow> nat \<Rightarrow> string" where
  "sub b f n = take n (drop f b)"

lemma length_sub [simp]: "f + n \<le> length b \<Longrightarrow> length (sub b f n) = n"
  by (simp add: sub_def)

lemma nth_sub: "f + n \<le> length b \<Longrightarrow> j < n \<Longrightarrow> sub b f n ! j = b ! (f + j)"
  by (simp add: sub_def)

lemma fetch_inside: "f \<le> l \<Longrightarrow> l \<le> length b \<Longrightarrow> fetch b (Inside f l) = Inr (sub b f (l - f))"
  by (simp add: sub_def)

lemma copy_up_put:
  "f + n \<le> length b \<Longrightarrow> d + n \<le> length b \<Longrightarrow> f + n \<le> d \<or> d \<le> f \<Longrightarrow> copy_up b d f n = Inr (put b d (sub b f n))"
proof (induction n arbitrary: b d f)
  case 0
  then show ?case by (simp add: put_def sub_def)
next
  case (Suc n)
  have "copy_up b d f (Suc n) = Inr (put (b[d := b ! f]) (Suc d) (sub (b[d := b ! f]) (Suc f) n))"
    using Suc.prems Suc.IH [of "Suc f" "b[d := b ! f]" "Suc d"] by auto
  also have "put (b[d := b ! f]) (Suc d) (sub (b[d := b ! f]) (Suc f) n) = put b d (sub b f (Suc n))"
    using Suc.prems by (intro nth_equalityI) (auto simp: nth_put nth_sub nth_list_update intro!: arg_cong [of _ _ "nth b"])
  finally show ?case .
qed

lemma ucopy_put:
  "f \<le> l \<Longrightarrow> l \<le> d \<Longrightarrow> d + (l - f) \<le> length b \<Longrightarrow> ucopy b d (Inside f l) = Inr (put b d (sub b f (l - f)))"
  by (simp add: copy_up_put)

lemma set_chars_put: "d + n \<le> length b \<Longrightarrow> set_chars b d n c = Inr (put b d (replicate n c))"
  by (simp add: set_chars_def poke_put)

lemma move_chars_put:
  "fetch b src = Inr ys \<Longrightarrow> d + length ys \<le> length b \<Longrightarrow> move_chars b d src = Inr (put b d ys)"
  by (simp add: move_chars_def poke_put)

lemma copy_chars_put:
  "fetch b src = Inr ys \<Longrightarrow> d + length ys \<le> length b \<Longrightarrow> \<not> overlap d src \<Longrightarrow> copy_chars b d src = Inr (put b d ys)"
  by (simp add: copy_chars_def move_chars_put)

section \<open>What a block holds\<close>

definition holds :: "str \<Rightarrow> string \<Rightarrow> bool" where
  "holds s xs \<longleftrightarrow> finish s = length xs \<and> length xs < length (storage s) \<and> length (storage s) < 2 ^ 64
     \<and> (\<forall>i < length xs. storage s ! i = xs ! i) \<and> storage s ! length xs = null"

lemma holds_block: "holds s xs \<Longrightarrow> i \<le> length xs \<Longrightarrow> storage s ! i = (xs @ [null]) ! i"
  by (auto simp: holds_def nth_append)

lemma holds_len: "holds s xs \<Longrightarrow> finish s = length xs \<and> length xs < length (storage s) \<and> length (storage s) < 2 ^ 64"
  by (simp add: holds_def)

lemma holds_sub: "holds s xs \<Longrightarrow> f + n \<le> length xs + 1 \<Longrightarrow> sub (storage s) f n = take n (drop f (xs @ [null]))"
  using holds_len [of s xs] by (intro nth_equalityI) (auto simp: nth_sub holds_block simp del: take_append drop_append)

text \<open>The characters a range stands for, if the block holds \<open>xs\<close>; it may include the terminating null
  character.\<close>

fun src_chars :: "string \<Rightarrow> source \<Rightarrow> string" where
  "src_chars xs (Outside ys) = ys"
| "src_chars xs (Inside f l) = take (l - f) (drop f (xs @ [null]))"

fun src_in :: "string \<Rightarrow> source \<Rightarrow> bool" where
  "src_in xs (Outside ys) = True"
| "src_in xs (Inside f l) = (f \<le> l \<and> l \<le> length xs + 1)"

lemma length_src_chars: "src_in xs src \<Longrightarrow> length (src_chars xs src) = src_len src"
  by (cases src) auto

lemma fetch_src: "holds s xs \<Longrightarrow> src_in xs src \<Longrightarrow> fetch (storage s) src = Inr (src_chars xs src)"
  using holds_len [of s xs] by (cases src) (auto simp: holds_sub [unfolded sub_def])

definition env_ok :: "env \<Rightarrow> bool" where
  "env_ok e \<longleftrightarrow> (\<forall>n b. allocate e n = Some b \<longrightarrow> n \<le> length b \<and> length b < 2 ^ 64) \<and> length (static_buf e) = DEFAULT_SIZE"

text \<open>The memory is exhausted, or the string has become \<open>xs\<close>.\<close>

definition yields :: "str res \<Rightarrow> string \<Rightarrow> bool" where
  "yields r xs \<longleftrightarrow> r = Inl Bad_alloc \<or> (\<exists>s. r = Inr s \<and> holds s xs)"

lemma yields_Inr: "holds s xs \<Longrightarrow> yields (Inr s) xs"
  by (simp add: yields_def)

lemma yields_bind: "yields r xs \<Longrightarrow> (\<And>s. holds s xs \<Longrightarrow> yields (f s) ys) \<Longrightarrow> yields (bindE r f) ys"
  unfolding yields_def by fastforce

section \<open>New blocks\<close>

lemma put_put: "put (put b i xs) (i + length xs) ys = put b i (xs @ ys)" if "i + length xs + length ys \<le> length b"
  using that by (intro nth_equalityI) (auto simp: nth_put nth_append)

lemma copy_pieces_put:
  "list_all2 (\<lambda>p c. fetch old p = Inr c) ps cs \<Longrightarrow> d + length (concat cs) \<le> length new \<Longrightarrow>
    copy_pieces old ps new d = Inr (put new d (concat cs), d + length (concat cs))"
proof (induction arbitrary: new d rule: list_all2_induct)
  case Nil
  then show ?case by (simp add: put_def)
next
  case (Cons p ps c cs)
  then show ?case by (simp add: poke_put put_put add.assoc)
qed

lemma fill_block_holds:
  assumes "list_all2 (\<lambda>p c. fetch old p = Inr c) ps cs" "length (concat cs) < length new" "length new < 2 ^ 64"
  shows "\<exists>s. fill_block old new ps = Inr s \<and> holds s (concat cs) \<and> length (storage s) = length new"
  using copy_pieces_put [OF assms(1), of 0 new] assms(2,3)
  by (simp add: fill_block_def poke_put holds_def nth_put del: length_concat)

lemma regrow_cases:
  assumes "env_ok e" "list_all2 (\<lambda>p c. fetch (storage s) p = Inr c) ps cs" "length (concat cs) < len"
  shows "regrow e len ps s = Inl Bad_alloc
    \<or> (\<exists>s'. regrow e len ps s = Inr s' \<and> holds s' (concat cs) \<and> len \<le> length (storage s'))"
proof (cases "allocate e len")
  case None
  then show ?thesis by (simp add: regrow_def get_block_def)
next
  case (Some b)
  then have "len \<le> length b" "length b < 2 ^ 64" using assms(1) by (auto simp: env_ok_def)
  with fill_block_holds [OF assms(2), of b] assms(3) Some show ?thesis
    by (auto simp: regrow_def get_block_def simp del: length_concat)
qed

lemma regrow_yields:
  assumes "env_ok e" "list_all2 (\<lambda>p c. fetch (storage s) p = Inr c) ps cs" "length (concat cs) < len"
  shows "yields (regrow e len ps s) (concat cs)"
  using regrow_cases [OF assms] by (auto simp: yields_def)

lemma max_size_num: "str_max_size = 18446744073709551614"
  by (simp add: str_max_size_def)

lemma next_size_fits:
  assumes "finish s + n < str_max_size"
  shows "\<exists>len. next_size n s = Inr len \<and> finish s + n < len"
proof -
  let ?sum = "finish s + max n (finish s) + 1"
  show ?thesis
  proof (cases "?sum < 2 ^ 64")
    case True
    then show ?thesis using assms by (auto simp: next_size_def Let_def)
  next
    case False
    then have "?sum mod 2 ^ 64 = ?sum - 2 ^ 64" using assms by (simp add: max_size_num max_def le_mod_geq split: if_splits)
    also have "\<dots> < finish s" using False assms by (simp add: max_size_num max_def split: if_splits)
    finally show ?thesis using assms by (auto simp: next_size_def Let_def)
  qed
qed

lemma next_size_refuses: "str_max_size - finish s < n \<Longrightarrow> next_size n s = Inl Length_error"
  by (simp add: next_size_def)

lemma holds_bound: "holds s xs \<Longrightarrow> length (storage s) \<le> str_max_size + 1"
  by (simp add: holds_def max_size_num)

lemma own_text: "holds s xs \<Longrightarrow> n \<le> length xs \<Longrightarrow> fetch (storage s) (Inside 0 n) = Inr (take n xs)"
  using fetch_src [of s xs "Inside 0 n"] by simp

lemma reserve_yields:
  assumes "env_ok e" "holds s xs" "length xs < n"
  shows "yields (M_reserve e n s) xs"
  using regrow_yields [OF assms(1), of s "[Inside 0 (finish s)]" "[xs]" n] assms(2,3) own_text [OF assms(2), of "length xs"]
  by (simp add: M_reserve_def holds_len)

section \<open>Errors and results\<close>

text \<open>What a call must do: an error, or the characters \<open>ys\<close> (or \<open>bad_alloc\<close>).\<close>

definition correct :: "str res \<Rightarrow> string res \<Rightarrow> bool" where
  "correct r sp = (case sp of Inl e \<Rightarrow> r = Inl e | Inr ys \<Rightarrow> yields r ys)"

lemma correct_Inl [simp]: "correct r (Inl e) \<longleftrightarrow> r = Inl e"
  by (simp add: correct_def)

lemma correct_Inr [simp]: "correct r (Inr ys) \<longleftrightarrow> yields r ys"
  by (simp add: correct_def)

definition limited :: "string \<Rightarrow> string res" where
  "limited ys = (if str_max_size < length ys then Inl Length_error else Inr ys)"

lemma holdsI:
  assumes "finish s = length xs" "length xs < length (storage s)" "length (storage s) < 2 ^ 64"
    and "\<And>i. i \<le> length xs \<Longrightarrow> storage s ! i = (xs @ [null]) ! i"
  shows "holds s xs"
proof -
  have "storage s ! i = xs ! i" if "i < length xs" for i using assms(4) [of i] that by (simp add: nth_append)
  moreover have "storage s ! length xs = null" using assms(4) [of "length xs"] by simp
  ultimately show ?thesis using assms(1-3) by (simp add: holds_def)
qed

section \<open>Appending\<close>

lemma make_room_yields:
  assumes "env_ok e" "holds s xs" "length xs + n < str_max_size" "\<not> short \<longrightarrow> n < M_rest s"
  shows "make_room e short n s = Inl Bad_alloc
    \<or> (\<exists>s'. make_room e short n s = Inr s' \<and> holds s' xs \<and> length xs + n < length (storage s'))"
proof (cases short)
  case True
  obtain len where len: "next_size n s = Inr len" "length xs + n < len"
    using next_size_fits [of s n] assms(2,3) by (auto simp: holds_len)
  have "fetch (storage s) (Inside 0 (finish s)) = Inr xs"
    using own_text [OF assms(2), of "length xs"] assms(2) by (simp add: holds_len)
  with regrow_cases [OF assms(1), of s "[Inside 0 (finish s)]" "[xs]" len] True len show ?thesis
    by (auto simp: make_room_def M_reserve_def simp del: fetch.simps)
next
  case False
  then show ?thesis using assms by (auto simp: make_room_def M_rest_def holds_len)
qed

lemma make_room_bind:
  assumes "env_ok e" "holds s xs" "length xs + n < str_max_size" "\<not> short \<longrightarrow> n < M_rest s"
    and "\<And>s'. holds s' xs \<Longrightarrow> length xs + n < length (storage s') \<Longrightarrow> yields (f s') ys"
  shows "yields (bindE (make_room e short n s) f) ys"
  using make_room_yields [OF assms(1-4)] assms(5) unfolding yields_def by fastforce

text \<open>Storing changed characters behind a string that stays within its block.\<close>

lemma stored:
  assumes "holds s xs" "length b = length (storage s)" "length ys < length b"
    and "\<And>i. i \<le> length ys \<Longrightarrow> b ! i = (ys @ [null]) ! i" "m = length ys"
  shows "yields (Inr (s\<lparr>storage := b, finish := m\<rparr>)) ys"
  using assms holds_len [OF assms(1)] by (intro yields_Inr holdsI) auto

lemma push_back_correct:
  assumes "env_ok e" "holds s xs" "length xs + 1 \<noteq> str_max_size"
  shows "correct (push_back e c s) (limited (xs @ [c]))"
proof (cases "str_max_size < length xs + 1")
  case True
  then have "M_rest s = 1" using holds_len [OF assms(2)] holds_bound [OF assms(2)] unfolding M_rest_def by linarith
  then show ?thesis using True holds_len [OF assms(2)]
    by (simp add: push_back_def make_room_def next_size_refuses limited_def)
next
  case False
  have "yields (push_back e c s) (xs @ [c])"
    unfolding push_back_def
  proof (rule make_room_bind [OF assms(1,2)])
    show "length xs + 1 < str_max_size" using False assms(3) by simp
    show "\<not> M_rest s = 1 \<longrightarrow> 1 < M_rest s" using holds_len [OF assms(2)] by (auto simp: M_rest_def)
    fix s' assume h: "holds s' xs" and l: "length xs + 1 < length (storage s')"
    let ?b = "put (put (storage s') (length xs + 1) [null]) (length xs) [c]"
    have "yields (Inr (s'\<lparr>storage := ?b, finish := length xs + 1\<rparr>)) (xs @ [c])"
      using l by (intro stored [OF h]) (auto simp: nth_put nth_append holds_block [OF h])
    then show "yields (bindE (accesses [\<lambda>b. poke b (finish s' + 1) [null], \<lambda>b. poke b (finish s') [c]] (storage s'))
        (\<lambda>b. Inr (s'\<lparr>storage := b, finish := finish s' + 1\<rparr>))) (xs @ [c])"
      using l holds_len [OF h] by (simp add: poke_put)
  qed
  then show ?thesis using False by (simp add: limited_def)
qed

lemma append_fill_correct:
  assumes "env_ok e" "holds s xs" "length xs + n \<noteq> str_max_size"
  shows "correct (append_fill e n c s) (limited (xs @ replicate n c))"
proof (cases "n = 0 \<or> str_max_size < length xs + n")
  case True
  have "length xs \<le> str_max_size" using holds_len [OF assms(2)] holds_bound [OF assms(2)] by linarith
  with True show ?thesis using holds_len [OF assms(2)] assms(2)
    by (auto simp: append_fill_def limited_def yields_Inr)
next
  case False
  then have fits: "length xs + n < str_max_size" "0 < n" using assms(3) by auto
  have "yields (bindE (make_room e (M_rest s \<le> n) n s) (\<lambda>s.
        bindE (accesses [\<lambda>b. set_chars b (finish s + 1) (n - 1) c, \<lambda>b. poke b (finish s + n) [null],
                 \<lambda>b. poke b (finish s) [c]] (storage s)) (\<lambda>b.
          Inr (s\<lparr>storage := b, finish := finish s + n\<rparr>)))) (xs @ replicate n c)"
  proof (rule make_room_bind [OF assms(1,2) fits(1)])
    show "\<not> M_rest s \<le> n \<longrightarrow> n < M_rest s" by simp
    fix s' assume h: "holds s' xs" and l: "length xs + n < length (storage s')"
    let ?b = "put (put (put (storage s') (length xs + 1) (replicate (n - 1) c)) (length xs + n) [null]) (length xs) [c]"
    have "yields (Inr (s'\<lparr>storage := ?b, finish := length xs + n\<rparr>)) (xs @ replicate n c)"
      using l fits(2) by (intro stored [OF h]) (auto simp: nth_put nth_append holds_block [OF h])
    then show "yields (bindE (accesses [\<lambda>b. set_chars b (finish s' + 1) (n - 1) c, \<lambda>b. poke b (finish s' + n) [null],
        \<lambda>b. poke b (finish s') [c]] (storage s')) (\<lambda>b. Inr (s'\<lparr>storage := b, finish := finish s' + n\<rparr>))) (xs @ replicate n c)"
      using l fits(2) holds_len [OF h] by (simp add: poke_put set_chars_put)
  qed
  moreover have "\<not> str_max_size - finish s < n" using fits holds_len [OF assms(2)] by linarith
  ultimately show ?thesis using False fits by (simp add: limited_def append_fill_def)
qed

text \<open>Reading from a source after stores that left the text and its null character alone.\<close>

lemma fetch_agree:
  assumes "\<And>i. i \<le> length xs \<Longrightarrow> b ! i = (xs @ [null]) ! i" "length xs < length b" "src_in xs src" "k \<le> src_len src"
  shows "fetch b (upto_mid k src) = Inr (take k (src_chars xs src))"
proof (cases src)
  case (Inside f l)
  have "sub b f k = take k (take (l - f) (drop f (xs @ [null])))"
    using assms Inside by (intro nth_equalityI) (auto simp: nth_sub min_def simp del: take_append drop_append)
  moreover have "f + k \<le> length b" using assms(2-4) Inside by (auto intro: order_trans)
  ultimately show ?thesis using Inside by (simp add: sub_def del: take_append drop_append)
qed simp

lemma ucopy_src:
  assumes "holds s xs" "src_in xs src" "k \<le> src_len src" "length xs + 1 \<le> d" "d + (src_len src - k) \<le> length (storage s)"
  shows "ucopy (storage s) d (advance k src) = Inr (put (storage s) d (drop k (src_chars xs src)))"
proof (cases src)
  case (Outside ys)
  then show ?thesis using assms by (simp add: poke_put)
next
  case (Inside f l)
  have "sub (storage s) (f + k) (l - (f + k)) = drop k (take (l - f) (drop f (xs @ [null])))"
    using assms Inside holds_len [OF assms(1)]
    by (intro nth_equalityI) (auto simp: nth_sub holds_block [OF assms(1)] algebra_simps simp del: take_append drop_append)
  moreover have "f + k \<le> l" "l \<le> d" "d + (l - (f + k)) \<le> length (storage s)" using assms(2-5) Inside by auto
  ultimately show ?thesis using Inside ucopy_put [of "f + k" l d "storage s"]
    by (simp del: ucopy.simps take_append drop_append)
qed

lemma upto_mid_all: "src_in xs src \<Longrightarrow> upto_mid (src_len src) src = src"
  by (cases src) auto

lemma limited_room: "holds s xs \<Longrightarrow> n < M_rest s \<Longrightarrow> length xs + n \<le> str_max_size"
  using holds_bound [of s xs] holds_len [of s xs] unfolding M_rest_def by linarith

lemma limited_le: "holds s xs \<Longrightarrow> length ys \<le> length xs \<Longrightarrow> limited ys = Inr ys"
  using holds_bound [of s xs] holds_len [of s xs] by (simp add: limited_def)

lemma overfull: "holds s xs \<Longrightarrow> str_max_size < length xs + n \<Longrightarrow> M_rest s \<le> n"
  using limited_room [of s xs n] by linarith

lemma too_long: "holds s xs \<Longrightarrow> str_max_size < length xs + n \<Longrightarrow> next_size n s = Inl Length_error"
  using holds_len [of s xs] holds_bound [of s xs] by (intro next_size_refuses) auto

lemma M_append_correct:
  assumes e: "env_ok e" and h: "holds s xs" and src: "src_in xs src" and lim: "length xs + src_len src \<noteq> str_max_size"
  shows "correct (M_append e src s) (limited (xs @ src_chars xs src))"
proof -
  let ?n = "src_len src" and ?L = "length xs" and ?ys = "src_chars xs src"
  note len = length_src_chars [OF src] and hl = holds_len [OF h]
  consider "?n = 0" | "0 < ?n" "str_max_size < ?L + ?n" | "0 < ?n" "M_rest s \<le> ?n" "?L + ?n < str_max_size" | "0 < ?n" "?n < M_rest s"
    using lim by linarith
  then show ?thesis
  proof cases
    case 1
    then show ?thesis using len h limited_room [OF h, of 0] hl by (simp add: M_append_def limited_def yields_Inr M_rest_def)
  next
    case 2
    then show ?thesis using len too_long [OF h] overfull [OF h] by (simp add: M_append_def limited_def Let_def)
  next
    case 3
    obtain sz where sz: "next_size ?n s = Inr sz" "?L + ?n < sz" using next_size_fits [of s ?n] 3 hl by auto
    have "yields (regrow e sz [Inside 0 (finish s), src] s) (concat [xs, ?ys])"
      using own_text [OF h, of ?L] fetch_src [OF h src] sz hl len by (intro regrow_yields [OF e]) (simp_all del: fetch.simps)
    then show ?thesis using 3 sz len by (simp add: M_append_def limited_def Let_def)
  next
    case 4
    let ?b = "put (storage s) (?L + 1) (drop 1 ?ys)"
    let ?c = "put ?b (?L + ?n) [null]"
    have room: "?L + ?n < length (storage s)" using 4 hl by (simp add: M_rest_def)
    have u: "ucopy (storage s) (?L + 1) (advance 1 src) = Inr ?b" using 4 room by (intro ucopy_src [OF h src]) auto
    have agree: "?c ! i = (xs @ [null]) ! i" if "i \<le> ?L" for i
      using that room len 4(1) by (auto simp: nth_put holds_block [OF h])
    have f: "fetch ?c (upto_mid 1 src) = Inr (take 1 ?ys)"
      using agree room len 4(1) by (intro fetch_agree [OF _ _ src]) auto
    have "yields (Inr (s\<lparr>storage := put ?c ?L (take 1 ?ys), finish := ?L + ?n\<rparr>)) (xs @ ?ys)"
      using room len 4(1)
      by (intro stored [OF h]) (auto simp: nth_put nth_append holds_block [OF h] not_less Suc_le_eq Suc_diff_Suc)
    moreover have "M_append e src s = Inr (s\<lparr>storage := put ?c ?L (take 1 ?ys), finish := ?L + ?n\<rparr>)"
      using 4 u hl room len move_chars_put [OF f, of ?L] by (simp add: M_append_def Let_def poke_put)
    ultimately show ?thesis using limited_room [OF h 4(2)] len by (simp add: limited_def)
  qed
qed

section \<open>Erasing and assigning\<close>

lemma erase_range_holds:
  assumes "holds s xs" "f \<le> l" "l \<le> length xs"
  shows "\<exists>s'. erase_range f l s = Inr s' \<and> holds s' (take f xs @ drop l xs)"
proof (cases "f = l")
  case True
  then show ?thesis using assms by (simp add: erase_range_def)
next
  case False
  let ?b = "put (storage s) f (drop l xs @ [null])"
  note hl = holds_len [OF assms(1)]
  have "fetch (storage s) (Inside l (finish s + 1)) = Inr (drop l xs @ [null])"
    using fetch_src [OF assms(1), of "Inside l (length xs + 1)"] assms(3) hl by (simp del: fetch.simps)
  then have "move_chars (storage s) f (Inside l (finish s + 1)) = Inr ?b"
    by (rule move_chars_put) (use False assms hl in auto)
  then have e: "erase_range f l s = Inr (s\<lparr>storage := ?b, finish := length xs - (l - f)\<rparr>)"
    using False hl by (simp add: erase_range_def)
  have "holds (s\<lparr>storage := ?b, finish := length xs - (l - f)\<rparr>) (take f xs @ drop l xs)"
  proof (rule holdsI)
    fix i assume i: "i \<le> length (take f xs @ drop l xs)"
    then show "storage (s\<lparr>storage := ?b, finish := length xs - (l - f)\<rparr>) ! i = ((take f xs @ drop l xs) @ [null]) ! i"
      using assms hl by (auto simp: nth_put nth_append holds_block [OF assms(1)] min_def)
  qed (use assms hl in auto)
  with e show ?thesis by blast
qed

lemma erase_range_correct:
  "holds s xs \<Longrightarrow> f \<le> l \<Longrightarrow> l \<le> length xs \<Longrightarrow> yields (erase_range f l s) (take f xs @ drop l xs)"
  using erase_range_holds by (auto simp: yields_def)

lemma erase_correct:
  assumes "holds s xs"
  shows "correct (erase pos n s) (if length xs < pos then Inl Out_of_range else Inr (take pos xs @ drop (pos + n) xs))"
proof (cases "length xs < pos")
  case True
  then show ?thesis using holds_len [OF assms] by (simp add: erase_def)
next
  case False
  then have "drop (pos + min n (length xs - pos)) xs = drop (pos + n) xs" by (simp add: min_def)
  then show ?thesis
    using erase_range_correct [OF assms, of pos "pos + min n (length xs - pos)"] False holds_len [OF assms]
    by (simp add: erase_def)
qed

lemma erase_one_correct: "holds s xs \<Longrightarrow> p < length xs \<Longrightarrow> yields (erase_one p s) (take p xs @ drop (Suc p) xs)"
  using erase_range_correct [of s xs p "p + 1"] by (simp add: erase_one_def erase_range_def)

lemma resize_correct:
  assumes "env_ok e" "holds s xs" "n \<noteq> str_max_size"
  shows "correct (resize e n c s) (limited (take n xs @ replicate (n - length xs) c))"
proof (cases "n \<le> length xs")
  case True
  moreover have "length xs \<le> str_max_size" using holds_len [OF assms(2)] holds_bound [OF assms(2)] by linarith
  ultimately show ?thesis using erase_range_correct [OF assms(2), of n "length xs"] holds_len [OF assms(2)]
    by (simp add: resize_def limited_def)
next
  case False
  then show ?thesis using append_fill_correct [OF assms(1,2), of "n - length xs" c] assms(3) holds_len [OF assms(2)]
    by (simp add: resize_def)
qed

text \<open>Overwriting characters at the front.\<close>

lemma overwrite_holds:
  assumes "holds s xs" "d + length ys \<le> length xs"
  shows "holds (s\<lparr>storage := put (storage s) d ys\<rparr>) (put xs d ys)"
  using assms holds_len [OF assms(1)] by (intro holdsI) (auto simp: nth_put nth_append holds_block [OF assms(1)])

lemma set_chars_holds:
  assumes "holds s xs" "d + n \<le> length xs"
  shows "set_chars (storage s) d n c = Inr (put (storage s) d (replicate n c))
    \<and> holds (s\<lparr>storage := put (storage s) d (replicate n c)\<rparr>) (put xs d (replicate n c))"
  using overwrite_holds [OF assms(1), of d "replicate n c"] assms(2) holds_len [OF assms(1)]
  by (simp add: set_chars_put)

lemma assign_fill_correct:
  assumes e: "env_ok e" and h: "holds s xs" and n: "n \<noteq> str_max_size"
  shows "correct (assign_fill e n c s) (limited (replicate n c))"
proof -
  note hl = holds_len [OF h] and hb = holds_bound [OF h]
  consider "n \<le> length xs" | "length xs < n" "n < str_capacity s" | "length xs < n" "str_capacity s \<le> n" by linarith
  then show ?thesis
  proof cases
    case 1
    note s = set_chars_holds [OF h, of 0 n c]
    have "yields (erase_range n (length xs) (s\<lparr>storage := put (storage s) 0 (replicate n c)\<rparr>)) (replicate n c)"
      using erase_range_correct [of _ "put xs 0 (replicate n c)" n "length xs"] s 1 by (simp add: put_def)
    then show ?thesis using 1 s hl hb by (simp add: assign_fill_def limited_def)
  next
    case 2
    note s = set_chars_holds [OF h, of 0 "length xs" c]
    have x: "put xs 0 (replicate (length xs) c) @ replicate (n - length xs) c = replicate n c"
      using 2 by (simp add: put_def flip: replicate_add)
    have "correct (append_fill e (n - length xs) c (s\<lparr>storage := put (storage s) 0 (replicate (length xs) c)\<rparr>))
        (limited (replicate n c))"
      using append_fill_correct [OF e, of _ "put xs 0 (replicate (length xs) c)" "n - length xs" c] s 2 n x by simp
    then show ?thesis using 2 s hl by (simp add: assign_fill_def)
  next
    case 3
    have "yields (str_of_fill e n c) (replicate n c)" if "n < str_max_size"
    proof (cases "DEFAULT_SIZE < n + 1")
      case True
      from regrow_yields [OF e, of s "[Outside (replicate n c)]" "[replicate n c]" "n + 1"]
      show ?thesis using that True
        by (simp add: str_of_fill_def M_allocate_block_def regrow_def fill_block_def)
    next
      case False
      then have "length (static_buf e) = DEFAULT_SIZE" "n < DEFAULT_SIZE" "DEFAULT_SIZE < 2 ^ 64"
        using e by (auto simp: env_ok_def DEFAULT_SIZE_def)
      then show ?thesis using that False fill_block_holds [of "[]" "[Outside (replicate n c)]" "[replicate n c]" "static_buf e"]
        by (auto simp: str_of_fill_def M_allocate_block_def yields_def)
    qed
    moreover have "str_of_fill e n c = Inl Length_error" if "str_max_size < n"
      using that by (simp add: str_of_fill_def M_allocate_block_def)
    ultimately show ?thesis using 3 hl n by (auto simp: assign_fill_def limited_def)
  qed
qed

lemma fetch_own: "holds s xs \<Longrightarrow> src_in xs src \<Longrightarrow> k \<le> src_len src \<Longrightarrow>
    fetch (storage s) (upto_mid k src) = Inr (take k (src_chars xs src))"
  using fetch_agree [of xs "storage s" src k] holds_block [of s xs] holds_len [of s xs] by blast

lemma M_assign_correct:
  assumes e: "env_ok e" and h: "holds s xs" and src: "src_in xs src" and lim: "src_len src \<noteq> str_max_size"
  shows "correct (M_assign e src s) (limited (src_chars xs src))"
proof (cases "src_len src \<le> length xs")
  case True
  let ?n = "src_len src" and ?ys = "src_chars xs src"
  note hl = holds_len [OF h] and len = length_src_chars [OF src]
  have "move_chars (storage s) 0 (upto_mid ?n src) = Inr (put (storage s) 0 ?ys)"
    using move_chars_put [OF fetch_own [OF h src, of ?n], of 0] len hl True by simp
  moreover have "yields (erase_range ?n (length xs) (s\<lparr>storage := put (storage s) 0 ?ys\<rparr>)) ?ys"
    using erase_range_correct [OF overwrite_holds [OF h, of 0 ?ys], of ?n "length xs"] True len by (simp add: put_def)
  ultimately show ?thesis using True hl len holds_bound [OF h] by (simp add: M_assign_def limited_def)
next
  case False
  let ?L = "length xs" and ?ys = "src_chars xs src"
  note hl = holds_len [OF h] and len = length_src_chars [OF src]
  let ?s = "s\<lparr>storage := put (storage s) 0 (take ?L ?ys)\<rparr>"
  have m: "move_chars (storage s) 0 (upto_mid ?L src) = Inr (put (storage s) 0 (take ?L ?ys))"
    using move_chars_put [OF fetch_own [OF h src, of ?L], of 0] len hl False by simp
  have hs: "holds ?s (take ?L ?ys)"
    using overwrite_holds [OF h, of 0 "take ?L ?ys"] len False by (simp add: put_def)
  have x: "src_in (take ?L ?ys) (advance ?L src) \<and> take ?L ?ys @ src_chars (take ?L ?ys) (advance ?L src) = ?ys
      \<and> src_len (advance ?L src) = src_len src - ?L"
  proof (cases src)
    case (Inside f l)
    then have "f = 0" "l = ?L + 1" using False src by auto
    then show ?thesis using Inside by simp
  qed simp
  have "correct (M_append e (advance ?L src) ?s) (limited ?ys)"
    using M_append_correct [OF e hs, of "advance ?L src"] x lim len False by simp
  then show ?thesis using False hl m by (simp add: M_assign_def)
qed

section \<open>Inserting\<close>

text \<open>The block with the tail moved up by \<open>n\<close>.\<close>

definition opened :: "string \<Rightarrow> string \<Rightarrow> nat \<Rightarrow> nat \<Rightarrow> string \<Rightarrow> bool" where
  "opened b xs pos n b' \<longleftrightarrow> length b' = length b \<and>
     (\<forall>i < length b. b' ! i = (if pos + n \<le> i \<and> i \<le> length xs + n then (xs @ [null]) ! (i - n) else b ! i))"

lemma open_gap:
  assumes h: "holds s xs" and p: "0 < n" "pos + n \<le> length xs" "length xs + n < length (storage s)"
  shows "\<exists>b1 b2. ucopy (storage s) (length xs + 1) (Inside (length xs - n + 1) (length xs + 1)) = Inr b1
    \<and> move_chars b1 (pos + n) (Inside pos (pos + (length xs - pos - n) + 1)) = Inr b2
    \<and> opened (storage s) xs pos n b2"
proof -
  let ?L = "length xs" and ?b = "storage s"
  define b1 where "b1 = put ?b (?L + 1) (sub ?b (?L - n + 1) n)"
  define b2 where "b2 = put b1 (pos + n) (sub b1 pos (?L - pos - n + 1))"
  have l1: "length b1 = length ?b" using p by (simp add: b1_def)
  have "ucopy ?b (?L + 1) (Inside (?L - n + 1) (?L + 1)) = Inr b1"
    using p ucopy_put [of "?L - n + 1" "?L + 1" "?L + 1" ?b] by (simp add: b1_def del: ucopy.simps)
  moreover have "move_chars b1 (pos + n) (Inside pos (pos + (?L - pos - n) + 1)) = Inr b2"
    unfolding b2_def
  proof (rule move_chars_put)
    show "fetch b1 (Inside pos (pos + (?L - pos - n) + 1)) = Inr (sub b1 pos (?L - pos - n + 1))"
      using fetch_inside [of pos "pos + (?L - pos - n) + 1" b1] p l1 by (simp add: Suc_diff_le add.commute del: fetch.simps)
  qed (use p l1 in simp)
  moreover have "opened ?b xs pos n b2"
    unfolding opened_def
  proof (intro conjI allI impI)
    show "length b2 = length ?b" using p l1 by (simp add: b2_def)
    fix i assume "i < length ?b"
    then show "b2 ! i = (if pos + n \<le> i \<and> i \<le> ?L + n then (xs @ [null]) ! (i - n) else ?b ! i)"
      using p l1 by (auto simp: b2_def b1_def nth_put nth_sub holds_block [OF h] nth_append intro!: arg_cong [of _ _ "nth xs"])
  qed
  ultimately show ?thesis by blast
qed

lemma inserted_nth:
  assumes "pos \<le> length xs" "i \<le> length xs + length ys"
  shows "((take pos xs @ ys @ drop pos xs) @ [null]) ! i =
    (if i < pos then xs ! i else if i < pos + length ys then ys ! (i - pos) else (xs @ [null]) ! (i - length ys))"
  using assms by (auto simp: nth_append min_def)

lemma opened_stored:
  assumes h: "holds s xs" and o: "opened (storage s) xs pos (length ys) b" "pos \<le> length xs" "length xs + length ys < length (storage s)"
  shows "yields (Inr (s\<lparr>storage := put b pos ys, finish := length xs + length ys\<rparr>)) (take pos xs @ ys @ drop pos xs)"
  using o unfolding opened_def
  by (intro stored [OF h]) (auto simp: nth_put nth_append holds_block [OF h] min_def)

lemma late_gap:
  assumes h: "holds s xs" and p: "pos \<le> length xs" "length xs - pos < length ys" "length xs + length ys < length (storage s)"
  defines "k \<equiv> length xs - pos + 1"
  defines "b1 \<equiv> put (storage s) (length xs + 1) (drop k ys)"
  shows "\<exists>b2. ucopy b1 (pos + length ys) (Inside pos (length xs + 1)) = Inr b2 \<and> length b2 = length (storage s)
    \<and> (\<forall>i \<le> length xs. b2 ! i = (xs @ [null]) ! i)
    \<and> yields (Inr (s\<lparr>storage := put b2 pos (take k ys), finish := length xs + length ys\<rparr>)) (take pos xs @ ys @ drop pos xs)"
proof -
  let ?L = "length xs" and ?b = "storage s" and ?n = "length ys"
  define b2 where "b2 = put b1 (pos + ?n) (sub b1 pos k)"
  have l1: "length b1 = length ?b" using p by (simp add: b1_def k_def)
  have "pos \<le> ?L + 1" "?L + 1 \<le> pos + ?n" "pos + ?n + (?L + 1 - pos) \<le> length b1" using p l1 by auto
  from ucopy_put [OF this] have u: "ucopy b1 (pos + ?n) (Inside pos (?L + 1)) = Inr b2"
    using p by (simp add: b2_def k_def Suc_diff_le del: ucopy.simps)
  have l2: "length b2 = length ?b" using p l1 by (simp add: b2_def k_def)
  have b1: "b1 ! i = (if ?L < i \<and> i < pos + ?n then ys ! (i - pos) else ?b ! i)" if "i < length ?b" for i
  proof -
    have "?L + 1 + length (drop k ys) = pos + ?n" "k + (i - (?L + 1)) = i - pos" if "?L < i"
      using that p by (auto simp: k_def)
    then show ?thesis using that p by (auto simp: b1_def nth_put k_def)
  qed
  have b2: "b2 ! i = (if pos + ?n \<le> i \<and> i \<le> ?L + ?n then (xs @ [null]) ! (i - ?n)
      else if ?L < i \<and> i < pos + ?n then ys ! (i - pos) else ?b ! i)" if i: "i < length ?b" for i
  proof (cases "pos + ?n \<le> i \<and> i \<le> ?L + ?n")
    case True
    then have j: "i - (pos + ?n) < k" "pos + (i - (pos + ?n)) = i - ?n" "i - ?n \<le> ?L" using p by (auto simp: k_def)
    then have "b2 ! i = b1 ! (i - ?n)" using True i p l1 nth_sub [of pos k b1 "i - (pos + ?n)"]
      by (simp add: b2_def nth_put k_def)
    then show ?thesis using True j p b1 [of "i - ?n"] holds_block [OF h j(3)] by simp
  next
    case False
    then have "b2 ! i = b1 ! i" using i p l1 by (auto simp: b2_def nth_put k_def)
    then show ?thesis using False b1 [OF i] by auto
  qed
  have "b2 ! i = (xs @ [null]) ! i" if "i \<le> ?L" for i
    using that p b2 [of i] holds_block [OF h that] by auto
  moreover have "yields (Inr (s\<lparr>storage := put b2 pos (take k ys), finish := ?L + ?n\<rparr>)) (take pos xs @ ys @ drop pos xs)"
  proof (rule stored [OF h])
    fix i assume "i \<le> length (take pos xs @ ys @ drop pos xs)"
    then have i: "i \<le> ?L + ?n" using p by simp
    have k: "length (take k ys) = k" "pos + k = ?L + 1" using p by (auto simp: k_def)
    have "put b2 pos (take k ys) ! i = (if pos \<le> i \<and> i < ?L + 1 then ys ! (i - pos) else b2 ! i)"
      using i k p l2 by (subst nth_put) auto
    also have "\<dots> = (if i < pos then xs ! i else if i < pos + ?n then ys ! (i - pos) else (xs @ [null]) ! (i - ?n))"
      using i p b2 [of i] holds_block [OF h, of i] by (auto simp: nth_append)
    finally show "put b2 pos (take k ys) ! i = ((take pos xs @ ys @ drop pos xs) @ [null]) ! i"
      by (simp only: inserted_nth [OF p(1) i])
  qed (use p l2 in \<open>simp_all add: k_def\<close>)
  ultimately show ?thesis using u l2 by blast
qed

lemma insert_regrow:
  assumes "env_ok e" "holds s xs" "pos \<le> length xs" "fetch (storage s) src = Inr ys"
    and "length xs + length ys < len"
  shows "yields (regrow e len [Inside 0 pos, src, Inside pos (finish s)] s) (take pos xs @ ys @ drop pos xs)"
proof -
  have "fetch (storage s) (Inside pos (finish s)) = Inr (drop pos xs)"
    using fetch_src [OF assms(2), of "Inside pos (length xs)"] assms(3) holds_len [OF assms(2)] by (simp del: fetch.simps)
  with regrow_yields [OF assms(1), of s "[Inside 0 pos, src, Inside pos (finish s)]" "[take pos xs, ys, drop pos xs]" len]
    own_text [OF assms(2,3)] assms(3-5)
  show ?thesis by (simp del: fetch.simps)
qed

lemma insert_fill_correct:
  assumes e: "env_ok e" and h: "holds s xs" and pos: "pos \<le> length xs" and lim: "length xs + n \<noteq> str_max_size"
  shows "correct (insert_fill e pos n c s) (limited (take pos xs @ replicate n c @ drop pos xs))"
proof -
  let ?L = "length xs" and ?ys = "replicate n c"
  note hl = holds_len [OF h]
  consider "n = 0" | "0 < n" "str_max_size < ?L + n" | "0 < n" "M_rest s \<le> n" "?L + n < str_max_size"
    | "0 < n" "n < M_rest s" "n \<le> ?L - pos" | "0 < n" "n < M_rest s" "?L - pos < n"
    using lim by linarith
  then show ?thesis
  proof cases
    case 1
    then show ?thesis using h limited_room [OF h, of 0] hl
      by (simp add: insert_fill_def limited_def yields_Inr M_rest_def)
  next
    case 2
    then show ?thesis using too_long [OF h] overfull [OF h, of n] pos by (simp add: insert_fill_def limited_def)
  next
    case 3
    obtain sz where "next_size n s = Inr sz" "?L + n < sz" using next_size_fits [of s n] 3 hl by auto
    with insert_regrow [OF e h pos, of "Outside ?ys" ?ys sz] 3 pos show ?thesis
      by (simp add: insert_fill_def limited_def del: ucopy.simps)
  next
    case 4
    then have room: "?L + n < length (storage s)" and p: "pos + n \<le> ?L" using pos hl by (auto simp: M_rest_def)
    from open_gap [OF h 4(1) p room] obtain b1 b2 where
      b: "ucopy (storage s) (?L + 1) (Inside (?L - n + 1) (?L + 1)) = Inr b1"
        "move_chars b1 (pos + n) (Inside pos (pos + (?L - pos - n) + 1)) = Inr b2"
        "opened (storage s) xs pos n b2"
      by blast
    have "set_chars b2 pos n c = Inr (put b2 pos ?ys)"
      using b(3) pos room by (intro set_chars_put) (simp add: opened_def)
    with b 4 hl have "insert_fill e pos n c s = Inr (s\<lparr>storage := put b2 pos ?ys, finish := ?L + n\<rparr>)"
      by (simp add: insert_fill_def del: ucopy.simps)
    moreover have "yields (Inr (s\<lparr>storage := put b2 pos ?ys, finish := ?L + n\<rparr>)) (take pos xs @ ?ys @ drop pos xs)"
      using opened_stored [OF h, of pos ?ys b2] b(3) pos room by simp
    ultimately show ?thesis using limited_room [OF h 4(2)] pos by (simp add: limited_def)
  next
    case 5
    then have room: "?L + n < length (storage s)" using hl by (simp add: M_rest_def)
    let ?b1 = "put (storage s) (?L + 1) (drop (?L - pos + 1) ?ys)"
    from late_gap [OF h pos, of ?ys] 5 room obtain b2 where
      b: "ucopy ?b1 (pos + n) (Inside pos (?L + 1)) = Inr b2" "length b2 = length (storage s)"
        "yields (Inr (s\<lparr>storage := put b2 pos (take (?L - pos + 1) ?ys), finish := ?L + n\<rparr>)) (take pos xs @ ?ys @ drop pos xs)"
      by (auto simp del: ucopy.simps)
    have "set_chars (storage s) (?L + 1) (n - (?L - pos) - 1) c = Inr ?b1"
      using 5 pos room by (subst set_chars_put) (auto simp: diff_diff_left)
    moreover have "set_chars b2 pos (?L - pos + 1) c = Inr (put b2 pos (take (?L - pos + 1) ?ys))"
      using 5 pos room b(2) by (subst set_chars_put) (auto simp: min_def)
    moreover have "?L + (n - (?L - pos)) = pos + n" using 5 pos by simp
    ultimately have "insert_fill e pos n c s = Inr (s\<lparr>storage := put b2 pos (take (?L - pos + 1) ?ys), finish := ?L + n\<rparr>)"
      using b(1) 5 pos hl by (simp add: insert_fill_def Let_def ac_simps del: ucopy.simps take_replicate drop_replicate)
    then show ?thesis using b(3) limited_room [OF h 5(2)] pos by (simp add: limited_def)
  qed
qed

text \<open>The flag \<open>__self_ref\<close> may be off only for a range outside of the block.\<close>

definition flag_right :: "source \<Rightarrow> bool \<Rightarrow> bool" where
  "flag_right src self_ref \<longleftrightarrow> self_ref \<or> (\<exists>ys. src = Outside ys) \<or> src_len src = 0"

lemma gap_filled:
  assumes h: "holds s xs" and o: "opened (storage s) xs pos (src_len src) b" "pos \<le> length xs"
    "length xs + src_len src < length (storage s)"
    and src: "src_in xs src" "flag_right src self_ref" "0 < src_len src"
  shows "(if \<not> self_ref \<or> ends_before src pos then copy_chars b pos src
     else if starts_at_or_after src pos then copy_chars b pos (shifted (src_len src) src)
     else move_chars b pos src) = Inr (put b pos (src_chars xs src))"
proof (cases src)
  case (Outside ys)
  then show ?thesis using assms by (simp add: opened_def copy_chars_def move_chars_put)
next
  case (Inside f l)
  let ?n = "l - f" and ?ys = "src_chars xs src"
  have f: "f < l" "l \<le> length xs + 1" and self: self_ref using src Inside by (auto simp: flag_right_def)
  have len: "length b = length (storage s)" "pos + length ?ys \<le> length b"
    using o Inside length_src_chars [OF src(1)] by (auto simp: opened_def)
  have stay: "fetch b src = Inr ?ys" if "f < pos"
  proof -
    have "sub b f ?n = ?ys"
      using that f o len(1) Inside src(1) length_src_chars [OF src(1)]
      by (intro nth_equalityI) (auto simp: nth_sub opened_def holds_block [OF h] simp del: take_append drop_append)
    then show ?thesis using f len(1) Inside fetch_inside [of f l b] o(3) by (simp del: fetch.simps src_chars.simps)
  qed
  have moved: "fetch b (shifted ?n src) = Inr ?ys" if "pos \<le> f"
  proof -
    have "sub b (f + ?n) ?n = ?ys"
      using that f o len(1) Inside src(1) length_src_chars [OF src(1)]
      by (intro nth_equalityI) (auto simp: nth_sub opened_def add.commute simp del: take_append drop_append)
    then show ?thesis using f len(1) Inside fetch_inside [of "f + ?n" "l + ?n" b] o(3) by (simp del: fetch.simps src_chars.simps)
  qed
  show ?thesis
  proof (cases "f < pos")
    case True
    have "copy_chars b pos src = Inr (put b pos ?ys)" if "l < pos"
      by (rule copy_chars_put [OF stay [OF True] len(2)]) (use that Inside in simp)
    moreover have "move_chars b pos src = Inr (put b pos ?ys)" by (rule move_chars_put [OF stay [OF True] len(2)])
    ultimately show ?thesis using True Inside self by auto
  next
    case False
    then have "copy_chars b pos (shifted ?n src) = Inr (put b pos ?ys)"
      by (intro copy_chars_put [OF moved len(2)]) (use Inside in auto)
    then show ?thesis using False Inside self f by simp
  qed
qed

lemma M_insert_correct:
  assumes e: "env_ok e" and h: "holds s xs" and pos: "pos \<le> length xs" and src: "src_in xs src" "flag_right src self_ref"
    and lim: "length xs + src_len src \<noteq> str_max_size"
  shows "correct (M_insert e pos src self_ref s) (limited (take pos xs @ src_chars xs src @ drop pos xs))"
proof -
  let ?L = "length xs" and ?ys = "src_chars xs src" and ?n = "src_len src" and ?k = "length xs - pos + 1"
  note hl = holds_len [OF h] and len = length_src_chars [OF src(1)]
  consider "?n = 0" | "0 < ?n" "str_max_size < ?L + ?n" | "0 < ?n" "M_rest s \<le> ?n" "?L + ?n < str_max_size"
    | "0 < ?n" "?n < M_rest s" "?n \<le> ?L - pos" | "0 < ?n" "?n < M_rest s" "?L - pos < ?n"
    using lim by linarith
  then show ?thesis
  proof cases
    case 1
    then show ?thesis using h limited_room [OF h, of 0] hl len
      by (simp add: M_insert_def limited_def yields_Inr M_rest_def)
  next
    case 2
    then show ?thesis using too_long [OF h] overfull [OF h, of ?n] pos len by (simp add: M_insert_def limited_def Let_def)
  next
    case 3
    obtain sz where "next_size ?n s = Inr sz" "?L + ?n < sz" using next_size_fits [of s ?n] 3 hl by auto
    with insert_regrow [OF e h pos fetch_src [OF h src(1)], of sz] 3 pos len show ?thesis
      by (simp add: M_insert_def limited_def Let_def del: ucopy.simps)
  next
    case 4
    then have room: "?L + ?n < length (storage s)" and p: "pos + ?n \<le> ?L" using pos hl by (auto simp: M_rest_def)
    from open_gap [OF h 4(1) p room] obtain b1 b2 where
      b: "ucopy (storage s) (?L + 1) (Inside (?L - ?n + 1) (?L + 1)) = Inr b1"
        "move_chars b1 (pos + ?n) (Inside pos (pos + (?L - pos - ?n) + 1)) = Inr b2"
        "opened (storage s) xs pos ?n b2"
      by blast
    from gap_filled [OF h b(3) pos room src 4(1)] b 4 hl
    have "M_insert e pos src self_ref s = Inr (s\<lparr>storage := put b2 pos ?ys, finish := ?L + ?n\<rparr>)"
      by (simp add: M_insert_def Let_def del: ucopy.simps)
    moreover have "yields (Inr (s\<lparr>storage := put b2 pos ?ys, finish := ?L + ?n\<rparr>)) (take pos xs @ ?ys @ drop pos xs)"
      using opened_stored [OF h, of pos ?ys b2] b(3) pos room len by simp
    ultimately show ?thesis using limited_room [OF h 4(2)] pos len by (simp add: limited_def)
  next
    case 5
    then have room: "?L + ?n < length (storage s)" using hl by (simp add: M_rest_def)
    let ?b1 = "put (storage s) (?L + 1) (drop ?k ?ys)"
    from late_gap [OF h pos, of ?ys] 5 room len obtain b2 where
      b: "ucopy ?b1 (pos + ?n) (Inside pos (?L + 1)) = Inr b2" "length b2 = length (storage s)"
        "\<forall>i \<le> ?L. b2 ! i = (xs @ [null]) ! i"
        "yields (Inr (s\<lparr>storage := put b2 pos (take ?k ?ys), finish := ?L + ?n\<rparr>)) (take pos xs @ ?ys @ drop pos xs)"
      by (auto simp del: ucopy.simps)
    have u: "ucopy (storage s) (?L + 1) (advance ?k src) = Inr ?b1"
      using 5 room pos by (intro ucopy_src [OF h src(1)]) auto
    have f: "fetch b2 (upto_mid ?k src) = Inr (take ?k ?ys)"
      using 5 b(2,3) hl by (intro fetch_agree [OF _ _ src(1)]) auto
    have "\<not> overlap pos (upto_mid ?k src)" if "\<not> self_ref" using src(2) that 5(1) by (auto simp: flag_right_def)
    then have "(if \<not> self_ref then copy_chars b2 pos (upto_mid ?k src) else move_chars b2 pos (upto_mid ?k src))
        = Inr (put b2 pos (take ?k ?ys))"
      using copy_chars_put [OF f, of pos] move_chars_put [OF f, of pos] pos room b(2) len by auto
    moreover have "?L + (?n - (?L - pos)) = pos + ?n" using 5 pos by simp
    ultimately have "M_insert e pos src self_ref s = Inr (s\<lparr>storage := put b2 pos (take ?k ?ys), finish := ?L + ?n\<rparr>)"
      using u b(1) 5 pos hl
      by (simp add: M_insert_def Let_def ac_simps del: ucopy.simps)
    then show ?thesis using b(4) limited_room [OF h 5(2)] pos len by (simp add: limited_def)
  qed
qed

lemma M_insert_aux_correct:
  assumes e: "env_ok e" and h: "holds s xs" and p: "p \<le> length xs" and lim: "length xs + 1 \<noteq> str_max_size"
  shows "correct (M_insert_aux e p c s) (limited (take p xs @ [c] @ drop p xs))"
proof -
  let ?L = "length xs"
  note hl = holds_len [OF h]
  consider "1 < M_rest s" | "M_rest s \<le> 1" "str_max_size < ?L + 1" | "M_rest s \<le> 1" "?L + 1 < str_max_size"
    using lim by linarith
  then show ?thesis
  proof cases
    case 1
    then have room: "?L + 1 < length (storage s)" by (simp add: M_rest_def hl)
    let ?b1 = "put (storage s) (?L + 1) [null]"
    let ?b2 = "put ?b1 (p + 1) (sub ?b1 p (?L - p))"
    have m: "move_chars ?b1 (p + 1) (Inside p ?L) = Inr ?b2"
      using room p fetch_inside [of p ?L ?b1] by (intro move_chars_put) (simp_all del: fetch.simps)
    have "M_insert_aux e p c s = Inr (s\<lparr>storage := put ?b2 p [c], finish := ?L + 1\<rparr>)"
      using 1 room m p hl by (simp add: M_insert_aux_def poke_put)
    moreover have "yields (Inr (s\<lparr>storage := put ?b2 p [c], finish := ?L + 1\<rparr>)) (take p xs @ [c] @ drop p xs)"
    proof (rule stored [OF h])
      fix i assume "i \<le> length (take p xs @ [c] @ drop p xs)"
      then have i: "i \<le> ?L + length [c]" using p by simp
      then have "put ?b2 p [c] ! i = (if i < p then xs ! i else if i < p + length [c] then [c] ! (i - p) else (xs @ [null]) ! (i - length [c]))"
        using room p by (auto simp: nth_put nth_sub holds_block [OF h] nth_append)
      then show "put ?b2 p [c] ! i = ((take p xs @ [c] @ drop p xs) @ [null]) ! i"
        by (simp only: inserted_nth [OF p i])
    qed (use p room in simp_all)
    ultimately show ?thesis using limited_room [OF h 1] p by (simp add: limited_def)
  next
    case 2
    then show ?thesis using too_long [OF h, of 1] p by (simp add: M_insert_aux_def limited_def)
  next
    case 3
    obtain sz where "next_size 1 s = Inr sz" "?L + 1 < sz" using next_size_fits [of s 1] 3 hl by auto
    with insert_regrow [OF e h p, of "Outside [c]" "[c]" sz] 3 p show ?thesis
      by (simp add: M_insert_aux_def limited_def)
  qed
qed

section \<open>Replacing\<close>

lemma overwritten: "lo \<le> hi \<Longrightarrow> hi \<le> length xs \<Longrightarrow> length zs = hi - lo \<Longrightarrow>
    take hi (put xs lo zs) = take lo xs @ zs \<and> drop hi (put xs lo zs) = drop hi xs \<and> length (put xs lo zs) = length xs"
  by (simp add: put_def)

lemma replace_fill_correct:
  assumes e: "env_ok e" and h: "holds s xs" and r: "lo \<le> hi" "hi \<le> length xs"
    and lim: "length xs - (hi - lo) + n \<noteq> str_max_size"
  shows "correct (replace_fill e lo hi n c s) (limited (take lo xs @ replicate n c @ drop hi xs))"
proof (cases "n \<le> hi - lo")
  case True
  note s = set_chars_holds [OF h, of lo n c]
  let ?s = "s\<lparr>storage := put (storage s) lo (replicate n c)\<rparr>"
  have "yields (erase_range (lo + n) hi ?s) (take (lo + n) (put xs lo (replicate n c)) @ drop hi (put xs lo (replicate n c)))"
    using True r s by (intro erase_range_correct) auto
  moreover have "take (lo + n) (put xs lo (replicate n c)) @ drop hi (put xs lo (replicate n c)) = take lo xs @ replicate n c @ drop hi xs"
    using True r by (simp add: put_def)
  ultimately show ?thesis using True r s limited_le [OF h, of "take lo xs @ replicate n c @ drop hi xs"]
    by (simp add: replace_fill_def)
next
  case False
  let ?m = "hi - lo"
  note s = set_chars_holds [OF h, of lo ?m c] and o = overwritten [OF r, of "replicate ?m c"]
  have run: "replace_fill e lo hi n c s = insert_fill e hi (n - ?m) c (s\<lparr>storage := put (storage s) lo (replicate ?m c)\<rparr>)"
    using False s r by (simp add: replace_fill_def Let_def)
  have eq: "replicate ?m c @ replicate (n - ?m) c @ drop hi xs = replicate n c @ drop hi xs"
    using False by (simp flip: append_assoc replicate_add)
  have "correct (insert_fill e hi (n - ?m) c (s\<lparr>storage := put (storage s) lo (replicate ?m c)\<rparr>))
     (limited (take lo xs @ replicate ?m c @ replicate (n - ?m) c @ drop hi xs))"
    using insert_fill_correct [OF e, of _ "put xs lo (replicate ?m c)" hi "n - ?m" c] s o r lim False by simp
  then show ?thesis by (simp only: run eq)
qed

text \<open>The part of the source that is inserted later has not been touched.\<close>

lemma later_part:
  assumes "lo \<le> hi" "hi \<le> length xs" "length zs = hi - lo" "src_in xs src" "hi - lo < src_len src"
    and "\<And>f l. src = Inside f l \<Longrightarrow> hi \<le> f + (hi - lo) \<or> l \<le> lo"
  shows "src_in (put xs lo zs) (advance (hi - lo) src)
    \<and> src_chars (put xs lo zs) (advance (hi - lo) src) = drop (hi - lo) (src_chars xs src)"
proof (cases src)
  case (Inside f l)
  have len: "length (put xs lo zs) = length xs" using overwritten [OF assms(1-3)] by simp
  have "take (l - (f + (hi - lo))) (drop (f + (hi - lo)) (put xs lo zs @ [null])) = drop (hi - lo) (take (l - f) (drop f (xs @ [null])))"
    using assms Inside len
    by (intro nth_equalityI) (auto simp: nth_append nth_put algebra_simps simp del: take_append drop_append)
  then show ?thesis using assms(4,5) Inside len by simp
qed simp

lemma src_len_advance: "src_len (advance k src) = src_len src - k"
  by (cases src) auto

lemma flag_right_advance: "flag_right src b \<Longrightarrow> k < src_len src \<Longrightarrow> flag_right (advance k src) b"
  by (auto simp: flag_right_def)

lemma flag_right_True [simp]: "flag_right src True"
  by (simp add: flag_right_def)

text \<open>Overwrite first, then insert the rest behind.\<close>

lemma overwrite_insert:
  assumes e: "env_ok e" and h: "holds s xs" and r: "lo \<le> hi" "hi \<le> length xs" and src: "src_in xs src" "flag_right src b"
    and n: "hi - lo < src_len src" "length xs - (hi - lo) + src_len src \<noteq> str_max_size"
    and apart: "\<And>f l. src = Inside f l \<Longrightarrow> hi \<le> f + (hi - lo) \<or> l \<le> lo"
  shows "correct (M_insert e hi (advance (hi - lo) src) b (s\<lparr>storage := put (storage s) lo (take (hi - lo) (src_chars xs src))\<rparr>))
     (limited (take lo xs @ src_chars xs src @ drop hi xs))"
proof -
  let ?z = "take (hi - lo) (src_chars xs src)"
  have z: "length ?z = hi - lo" using length_src_chars [OF src(1)] n(1) by simp
  note o = overwritten [OF r z] and l = later_part [OF r z src(1) n(1) apart]
  have "holds (s\<lparr>storage := put (storage s) lo ?z\<rparr>) (put xs lo ?z)" using z r by (intro overwrite_holds [OF h]) simp
  from M_insert_correct [OF e this, of hi "advance (hi - lo) src" b] l o r n flag_right_advance [OF src(2) n(1)]
  have "correct (M_insert e hi (advance (hi - lo) src) b (s\<lparr>storage := put (storage s) lo ?z\<rparr>))
     (limited ((take lo xs @ ?z) @ drop (hi - lo) (src_chars xs src) @ drop hi xs))"
    by (simp add: src_len_advance)
  then show ?thesis by (simp flip: append_assoc) (simp add: append_assoc)
qed

lemma correct_bind_limited:
  assumes "correct r (limited ys)" "\<And>s. holds s ys \<Longrightarrow> \<exists>s'. f s = Inr s' \<and> holds s' zs" "length zs = length ys"
  shows "correct (bindE r f) (limited zs)"
proof (cases "str_max_size < length ys")
  case True
  then show ?thesis using assms(1,3) by (simp add: limited_def)
next
  case False
  then have "yields r ys" using assms(1) by (simp add: limited_def)
  then have "yields (bindE r f) zs" using assms(2) by (intro yields_bind) (auto simp: yields_def)
  then show ?thesis using False assms(3) by (simp add: limited_def)
qed

lemma own_chars: "f + m \<le> length x \<Longrightarrow> src_in x (Inside f (f + m)) \<and> src_chars x (Inside f (f + m)) = take m (drop f x)"
  by simp

lemma replace_shorter:
  assumes h: "holds s xs" and r: "lo \<le> hi" "hi \<le> length xs" and src: "src_in xs src" "flag_right src b" "src_len src \<le> hi - lo"
  shows "correct (M_replace e lo hi src b s) (limited (take lo xs @ src_chars xs src @ drop hi xs))"
proof -
  let ?ys = "src_chars xs src" and ?n = "src_len src"
  note hl = holds_len [OF h] and len = length_src_chars [OF src(1)]
  have "length xs < length (storage s)" using hl by simp
  then have fits: "lo + length ?ys \<le> length (storage s)" using len src(3) r by linarith
  have "\<not> overlap lo src" if "\<not> b \<or> ends_before src lo \<or> starts_at_or_after src hi"
    using that src r by (cases src) (auto simp: flag_right_def)
  then have "(if \<not> b \<or> ends_before src lo \<or> starts_at_or_after src hi then copy_chars (storage s) lo src
      else move_chars (storage s) lo src) = Inr (put (storage s) lo ?ys)"
    using copy_chars_put [OF fetch_src [OF h src(1)] fits] move_chars_put [OF fetch_src [OF h src(1)] fits] by simp
  then have run: "M_replace e lo hi src b s = erase_range (lo + ?n) hi (s\<lparr>storage := put (storage s) lo ?ys\<rparr>)"
    using src(3) by (simp add: M_replace_def Let_def)
  have "holds (s\<lparr>storage := put (storage s) lo ?ys\<rparr>) (put xs lo ?ys)"
    using len src(3) r by (intro overwrite_holds [OF h]) simp
  then have "yields (M_replace e lo hi src b s) (take (lo + ?n) (put xs lo ?ys) @ drop hi (put xs lo ?ys))"
    unfolding run using len src(3) r by (intro erase_range_correct) simp_all
  moreover have "take (lo + ?n) (put xs lo ?ys) @ drop hi (put xs lo ?ys) = take lo xs @ ?ys @ drop hi xs"
    using len src(3) r by (simp add: put_def)
  ultimately show ?thesis using limited_le [OF h, of "take lo xs @ ?ys @ drop hi xs"] len src(3) r by simp
qed

lemma M_replace_correct:
  assumes e: "env_ok e" and h: "holds s xs" and r: "lo \<le> hi" "hi \<le> length xs" and src: "src_in xs src" "flag_right src b"
    and lim: "length xs - (hi - lo) + src_len src \<noteq> str_max_size"
  shows "correct (M_replace e lo hi src b s) (limited (take lo xs @ src_chars xs src @ drop hi xs))"
proof -
  let ?ys = "src_chars xs src" and ?n = "src_len src" and ?m = "hi - lo"
  note hl = holds_len [OF h] and len = length_src_chars [OF src(1)]
  consider "?n \<le> ?m" | "?m < ?n" "\<not> b \<or> starts_at_or_after src hi \<or> ends_by src lo"
    | f l where "?m < ?n" "b" "src = Inside f l" "f < lo" "lo < l"
    | f l where "?m < ?n" "b" "src = Inside f l" "lo \<le> f" "f < hi" "lo < l"
    | ys where "?m < ?n" "b" "src = Outside ys"
    by (cases src; cases b; fastforce simp: not_less not_le)
  then show ?thesis
  proof cases
    case 1
    then show ?thesis using replace_shorter [OF h r src] by simp
  next
    case 2
    have "\<not> overlap lo (upto_mid ?m src)"
      using 2 src r by (cases src) (auto simp: flag_right_def)
    then have "copy_chars (storage s) lo (upto_mid ?m src) = Inr (put (storage s) lo (take ?m ?ys))"
      using copy_chars_put [OF fetch_own [OF h src(1), of ?m], of lo] 2 len r hl by simp
    moreover have "\<And>f l. src = Inside f l \<Longrightarrow> hi \<le> f + ?m \<or> l \<le> lo" using 2 src by (auto simp: flag_right_def)
    ultimately show ?thesis using overwrite_insert [OF e h r src 2(1) lim] 2
      by (simp add: M_replace_def Let_def)
  next
    case 3
    let ?x = "take hi xs @ drop ?m ?ys @ drop hi xs"
    have adv: "src_chars xs (advance ?m src) = drop ?m ?ys \<and> src_in xs (advance ?m src)"
      using 3 src(1) by (simp add: drop_take add.commute del: take_append drop_append)
    have "correct (M_insert e hi (advance ?m src) True s) (limited ?x)"
      using M_insert_correct [OF e h r(2), of "advance ?m src" True] adv lim r 3(1) by (simp add: src_len_advance)
    moreover have "\<exists>s'. bindE (move_chars (storage s2) lo (Inside f (f + ?m))) (\<lambda>b. Inr (s2\<lparr>storage := b\<rparr>)) = Inr s'
        \<and> holds s' (take lo xs @ ?ys @ drop hi xs)" if h2: "holds s2 ?x" for s2
    proof -
      have m: "f + ?m \<le> hi" "min ?m (hi - f) = ?m" "min ?m (l - f) = ?m" "min (length xs) hi = hi"
        using 3 r by auto
      have "take ?m (drop f ?x) = take ?m (drop f (take hi xs))" using m r by simp
      also have "\<dots> = take ?m (drop f xs)" using m by (simp add: drop_take)
      also have "\<dots> = take ?m ?ys" using m 3(3) r by simp
      finally have "take ?m (drop f ?x) = take ?m ?ys" .
      moreover have "f + ?m \<le> length ?x" using m(1) r by simp
      ultimately have "fetch (storage s2) (Inside f (f + ?m)) = Inr (take ?m ?ys)"
        using fetch_src [OF h2] own_chars by metis
      moreover have "lo + length (take ?m ?ys) \<le> length (storage s2)"
      proof -
        have "lo + length (take ?m ?ys) = hi" "hi \<le> length ?x" using len 3(1) r by simp_all
        moreover have "length ?x < length (storage s2)" using holds_len [OF h2] by blast
        ultimately show ?thesis by linarith
      qed
      ultimately have "move_chars (storage s2) lo (Inside f (f + ?m)) = Inr (put (storage s2) lo (take ?m ?ys))"
        by (rule move_chars_put)
      moreover have "put ?x lo (take ?m ?ys) = take lo xs @ ?ys @ drop hi xs"
        using len 3(1) r by (simp add: put_def)
      ultimately show ?thesis using overwrite_holds [OF h2, of lo "take ?m ?ys"] len 3(1) r by simp
    qed
    ultimately have "correct (bindE (M_insert e hi (advance ?m src) True s)
        (\<lambda>s2. bindE (move_chars (storage s2) lo (Inside f (f + ?m))) (\<lambda>b. Inr (s2\<lparr>storage := b\<rparr>))))
        (limited (take lo xs @ ?ys @ drop hi xs))"
      using len 3(1) r by (intro correct_bind_limited) auto
    then show ?thesis using 3 r by (simp add: M_replace_def Let_def)
  next
    case 4
    have "move_chars (storage s) lo (upto_mid ?m src) = Inr (put (storage s) lo (take ?m ?ys))"
      using move_chars_put [OF fetch_own [OF h src(1), of ?m], of lo] 4(1) len r hl by simp
    then show ?thesis using overwrite_insert [OF e h r src(1) flag_right_True 4(1) lim] 4
      by (simp add: M_replace_def Let_def)
  next
    case 5
    have "move_chars (storage s) lo (upto_mid ?m src) = Inr (put (storage s) lo (take ?m ?ys))"
      using move_chars_put [OF fetch_own [OF h src(1), of ?m], of lo] 5(1) len r hl by simp
    then show ?thesis using overwrite_insert [OF e h r src(1) flag_right_True 5(1) lim] 5
      by (simp add: M_replace_def Let_def)
  qed
qed

section \<open>Ranges of iterators\<close>

text \<open>Iterators into the string do not reach its null character.\<close>

fun iter_in :: "string \<Rightarrow> source \<Rightarrow> bool" where
  "iter_in xs (Outside ys) = True"
| "iter_in xs (Inside f l) = (f \<le> l \<and> l \<le> length xs)"

lemma iter_src: "iter_in xs src \<Longrightarrow> src_in xs src"
  by (cases src) auto

lemma copy_chars_inside:
  "f \<le> l \<Longrightarrow> l \<le> length b \<Longrightarrow> d + (l - f) \<le> length b \<Longrightarrow> l \<le> d \<Longrightarrow>
    copy_chars b d (Inside f l) = Inr (put b d (sub b f (l - f)))"
  by (intro copy_chars_put fetch_inside) (simp_all add: not_less)

lemma ucopy_is_copy: "f \<le> l \<Longrightarrow> l \<le> d \<Longrightarrow> d + (l - f) \<le> length b \<Longrightarrow> copy_chars b d (Inside f l) = ucopy b d (Inside f l)"
  using copy_chars_inside [of f l b d] ucopy_put [of f l d b] by simp

lemma ucopy_outside: "copy_chars b d (Outside xs) = ucopy b d (Outside xs)"
  by (simp add: copy_chars_def move_chars_def)

lemma M_appendT_correct:
  assumes e: "env_ok e" and h: "holds s xs" and src: "iter_in xs src" and lim: "length xs + src_len src \<noteq> str_max_size"
  shows "correct (M_appendT e src s) (limited (xs @ src_chars xs src))"
proof (cases "0 < src_len src \<and> src_len src < M_rest s")
  case False
  then have "M_appendT e src s = M_append e src s" by (auto simp: M_appendT_def M_append_def Let_def)
  then show ?thesis using M_append_correct [OF e h iter_src [OF src] lim] by simp
next
  case True
  let ?n = "src_len src" and ?L = "length xs" and ?ys = "src_chars xs src" and ?b = "storage s"
  note hl = holds_len [OF h] and src' = iter_src [OF src] and len = length_src_chars [OF iter_src [OF src]]
  let ?b1 = "put ?b ?L (take 1 ?ys)"
  let ?b2 = "put ?b1 (?L + 1) (drop 1 ?ys)"
  have room: "?L + ?n < length ?b" using True hl by (auto simp: M_rest_def)
  have "move_chars ?b ?L (upto_mid 1 src) = Inr ?b1"
    using move_chars_put [OF fetch_own [OF h src', of 1], of ?L] True len room by simp
  moreover have "copy_chars ?b1 (?L + 1) (advance 1 src) = Inr ?b2"
  proof (cases src)
    case (Outside ys)
    then show ?thesis using room True by (simp add: copy_chars_def move_chars_put)
  next
    case (Inside f l)
    have "sub ?b1 (f + 1) (l - (f + 1)) = drop 1 ?ys"
      using src room True Inside len
      by (intro nth_equalityI) (auto simp: nth_sub nth_put holds_block [OF h] nth_append simp del: take_append drop_append)
    moreover have "f + 1 \<le> l" "l \<le> ?L" "length ?b1 = length ?b" "?L + 1 + (l - (f + 1)) \<le> length ?b"
      using src room True Inside len by auto
    ultimately show ?thesis using copy_chars_inside [of "f + 1" l ?b1 "?L + 1"] Inside by (simp only: advance.simps)
  qed
  ultimately have "M_appendT e src s = Inr (s\<lparr>storage := put ?b2 (?L + ?n) [null], finish := ?L + ?n\<rparr>)"
    using True hl room len by (simp add: M_appendT_def Let_def poke_put)
  moreover have "yields (Inr (s\<lparr>storage := put ?b2 (?L + ?n) [null], finish := ?L + ?n\<rparr>)) (xs @ ?ys)"
  proof (rule stored [OF h])
    fix i assume "i \<le> length (xs @ ?ys)"
    then show "put ?b2 (?L + ?n) [null] ! i = ((xs @ ?ys) @ [null]) ! i"
      using room len True by (auto simp: nth_put nth_append holds_block [OF h] not_less Suc_le_eq Suc_diff_Suc)
  qed (use room len True in auto)
  moreover have "?L + ?n \<le> str_max_size" using limited_room [OF h] True by blast
  ultimately show ?thesis using len by (simp add: limited_def)
qed

lemma append_each_yields:
  "env_ok e \<Longrightarrow> holds s xs \<Longrightarrow> length xs + length cs < str_max_size \<Longrightarrow> yields (append_each e cs s) (xs @ cs)"
proof (induction cs arbitrary: s xs)
  case Nil
  then show ?case by (simp add: yields_Inr)
next
  case (Cons c cs)
  have "yields (push_back e c s) (xs @ [c])"
    using push_back_correct [OF Cons.prems(1,2), of c] Cons.prems(3) by (simp add: limited_def)
  then have "yields (bindE (push_back e c s) (append_each e cs)) ((xs @ [c]) @ cs)"
  proof (rule yields_bind)
    fix s' assume "holds s' (xs @ [c])"
    from Cons.IH [OF Cons.prems(1) this] Cons.prems(3) show "yields (append_each e cs s') ((xs @ [c]) @ cs)" by simp
  qed
  then show ?case by simp
qed

lemma insert_each_yields:
  "env_ok e \<Longrightarrow> holds s xs \<Longrightarrow> p \<le> length xs \<Longrightarrow> length xs + length cs < str_max_size \<Longrightarrow>
    yields (insert_each e p cs s) (take p xs @ cs @ drop p xs)"
proof (induction cs arbitrary: s xs p)
  case Nil
  then show ?case by (simp add: yields_Inr)
next
  case (Cons c cs)
  have "yields (insert_char e p c s) (take p xs @ [c] @ drop p xs)"
    using push_back_correct [OF Cons.prems(1,2), of c] M_insert_aux_correct [OF Cons.prems(1-3), of c] Cons.prems(3,4)
      holds_len [OF Cons.prems(2)] by (auto simp: insert_char_def limited_def)
  then have "yields (bindE (insert_char e p c s) (insert_each e (p + 1) cs))
      (take (p + 1) (take p xs @ [c] @ drop p xs) @ cs @ drop (p + 1) (take p xs @ [c] @ drop p xs))"
  proof (rule yields_bind)
    fix s' assume "holds s' (take p xs @ [c] @ drop p xs)"
    from Cons.IH [OF Cons.prems(1) this, of "p + 1"] Cons.prems(3,4)
    show "yields (insert_each e (p + 1) cs s')
        (take (p + 1) (take p xs @ [c] @ drop p xs) @ cs @ drop (p + 1) (take p xs @ [c] @ drop p xs))" by simp
  qed
  moreover have "take (p + 1) (take p xs @ [c] @ drop p xs) = take p xs @ [c]"
    "drop (p + 1) (take p xs @ [c] @ drop p xs) = drop p xs"
    using Cons.prems(3) by (simp_all add: min_absorb2)
  ultimately show ?case by simp
qed

text \<open>The loop of \<open>assign\<close> copies downwards, so a range of the string itself is read before it is overwritten.\<close>

lemma assign_loop_run:
  "k \<le> src_len src \<Longrightarrow> k \<le> n \<Longrightarrow> (k = src_len src \<or> k = n) \<Longrightarrow> cur + k \<le> length b \<Longrightarrow>
    (\<And>f l. src = Inside f l \<Longrightarrow> cur \<le> f \<and> l \<le> length b \<and> f \<le> l) \<Longrightarrow> fetch b src = Inr ys \<Longrightarrow>
    assign_loop n b cur src = Inr (put b cur (take k ys), cur + k, advance k src)"
proof (induction k arbitrary: n b cur src ys)
  case 0
  then show ?case by (cases src) (auto simp: assign_loop.simps put_def)
next
  case (Suc k)
  have len: "length ys = src_len src" using Suc.prems(5,6) by (cases src) auto
  obtain c cs where ys: "ys = c # cs" using len Suc.prems(1) by (cases ys) auto
  let ?b = "b[cur := c]"
  have one: "fetch b (upto_mid 1 src) = Inr [c]"
  proof (cases src)
    case (Outside zs)
    then show ?thesis using Suc.prems(6) ys by simp
  next
    case (Inside f l)
    have r: "cur \<le> f" "l \<le> length b" "f < l" using Suc.prems(1,5) Inside by auto
    then have "c = take (l - f) (drop f b) ! 0" using Suc.prems(6) Inside ys by simp
    also have "\<dots> = b ! f" using r by simp
    finally show ?thesis using Inside r by (simp add: take_Suc hd_drop_conv_nth)
  qed
  have put1: "put b cur [c] = ?b" using Suc.prems(4) by (intro nth_equalityI) (auto simp: nth_put nth_list_update)
  have rest: "fetch ?b (advance 1 src) = Inr cs"
  proof (cases src)
    case (Outside zs)
    then show ?thesis using Suc.prems(6) ys by simp
  next
    case (Inside f l)
    have r: "cur \<le> f" "l \<le> length b" "f < l" using Suc.prems(1,5) Inside by auto
    have "take (l - (f + 1)) (drop (f + 1) ?b) = tl (take (l - f) (drop f b))"
      using r by (simp add: tl_take tl_drop drop_Suc [symmetric] drop_update_cancel)
    also have "\<dots> = cs" using Suc.prems(6) Inside ys r by simp
    finally show ?thesis using Inside r by simp
  qed
  have "assign_loop n b cur src = assign_loop (n - 1) ?b (cur + 1) (advance 1 src)"
    using Suc.prems(1-4) move_chars_put [OF one, of cur] put1 by (subst assign_loop.simps) simp
  also have "\<dots> = Inr (put ?b (cur + 1) (take k cs), cur + 1 + k, advance k (advance 1 src))"
  proof (rule Suc.IH [OF _ _ _ _ _ rest])
    fix f l assume "advance 1 src = Inside f l"
    then show "cur + 1 \<le> f \<and> l \<le> length ?b \<and> f \<le> l" using Suc.prems(1,5) by (cases src) auto
  qed (use Suc.prems in \<open>auto simp: src_len_advance\<close>)
  also have "put ?b (cur + 1) (take k cs) = put b cur (take (Suc k) ys)"
    using Suc.prems(1,4) len ys put_put [of cur "[c]" "take k cs" b] put1 by simp
  also have "advance k (advance 1 src) = advance (Suc k) src" by (cases src) auto
  finally show ?case by simp
qed

lemma assign_range_correct:
  assumes e: "env_ok e" and h: "holds s xs" and src: "iter_in xs src" and lim: "src_len src \<noteq> str_max_size"
  shows "correct (assign_range e src s) (limited (src_chars xs src))"
proof -
  let ?L = "length xs" and ?ys = "src_chars xs src" and ?k = "min (src_len src) (length xs)"
  note hl = holds_len [OF h] and len = length_src_chars [OF iter_src [OF src]]
  let ?s = "s\<lparr>storage := put (storage s) 0 (take ?k ?ys)\<rparr>"
  have run: "assign_loop (finish s) (storage s) 0 src = Inr (put (storage s) 0 (take ?k ?ys), 0 + ?k, advance ?k src)"
    using src hl by (intro assign_loop_run) (auto simp: fetch_src [OF h iter_src [OF src]] min_def)
  have hs: "holds ?s (put xs 0 (take ?k ?ys))" by (rule overwrite_holds [OF h]) simp
  show ?thesis
  proof (cases "src_len src \<le> ?L")
    case True
    then have "yields (erase_range ?k ?L ?s) ?ys"
      using erase_range_correct [OF hs, of ?k ?L] len by (simp add: put_def)
    then show ?thesis using True run hl limited_le [OF h, of ?ys] len by (simp add: assign_range_def src_len_advance)
  next
    case False
    then obtain zs where zs: "src = Outside zs" using src by (cases src) auto
    have "put xs 0 (take ?k ?ys) = take ?L zs" using False zs by (simp add: put_def)
    then have "correct (M_appendT e (Outside (drop ?L zs)) ?s) (limited (take ?L zs @ drop ?L zs))"
      using M_appendT_correct [OF e hs, of "Outside (drop ?L zs)"] lim zs False by simp
    then show ?thesis using False zs run by (simp add: assign_range_def)
  qed
qed

lemma M_insertT_is_insert:
  assumes "holds s xs" "pos \<le> length xs"
  shows "M_insertT e pos ys s = M_insert e pos (Outside ys) False s"
proof -
  note hl = holds_len [OF assms(1)]
  let ?L = "length xs"
  consider "ys = [] \<or> M_rest s \<le> length ys" | "ys \<noteq> []" "length ys < M_rest s" "length ys \<le> ?L - pos"
    | "length ys < M_rest s" "?L - pos < length ys" by linarith
  then show ?thesis
  proof cases
    case 1
    then show ?thesis by (auto simp: M_insertT_def M_insert_def Let_def)
  next
    case 2
    then have "?L + length ys < length (storage s)" using hl by (auto simp: M_rest_def)
    then have "copy_chars (storage s) (?L + 1) (Inside (?L - length ys + 1) (?L + 1))
        = ucopy (storage s) (?L + 1) (Inside (?L - length ys + 1) (?L + 1))"
      using 2 by (intro ucopy_is_copy) auto
    then show ?thesis using 2 hl by (simp add: M_insertT_def M_insert_def Let_def del: ucopy.simps)
  next
    case 3
    then have r: "?L + length ys < length (storage s)" using hl by (auto simp: M_rest_def)
    let ?b = "put (storage s) (?L + 1) (drop (?L - pos + 1) ys)"
    have "ucopy (storage s) (?L + 1) (Outside (drop (?L - pos + 1) ys)) = Inr ?b"
      using r 3 by (simp add: poke_put)
    moreover have "copy_chars ?b (?L + (length ys - (?L - pos))) (Inside pos (?L + 1))
        = ucopy ?b (?L + (length ys - (?L - pos))) (Inside pos (?L + 1))"
      using 3 r assms(2) by (intro ucopy_is_copy) auto
    ultimately show ?thesis using 3 hl
      by (simp add: M_insertT_def M_insert_def Let_def ucopy_outside del: ucopy.simps)
  qed
qed

end
