(* ===== verification/StlStringProps.thy ===== *)
theory StlStringProps
  imports StlStringLaws
begin

text \<open>
  The strings of theory \<open>StlString\<close> are lists of characters: whatever member runs, on whatever block and
  with a source that may lie inside the block it changes, no access leaves the block, and the characters
  between start and end are those the list operation of the same name gives.
\<close>

section \<open>The members\<close>

text \<open>What each member does to a list of characters.\<close>

fun chars_of :: "string \<Rightarrow> string option \<Rightarrow> string" where
  "chars_of xs None = xs"
| "chars_of xs (Some t) = t"

definition from_to :: "string \<Rightarrow> string option \<Rightarrow> nat \<Rightarrow> nat \<Rightarrow> string" where
  "from_to xs t pos n = take n (drop pos (chars_of xs t))"

definition checked :: "bool \<Rightarrow> string \<Rightarrow> string res" where
  "checked ok ys = (if ok then limited ys else Inl Out_of_range)"

fun edited :: "edit \<Rightarrow> string \<Rightarrow> string res" where
  "edited (Reserve n) xs = (if str_max_size < n then Inl Length_error else Inr xs)"
| "edited Clear xs = Inr []"
| "edited (Resize n c) xs = limited (take n xs @ replicate (n - length xs) c)"
| "edited (Push_back c) xs = limited (xs @ [c])"
| "edited Pop_back xs = Inr (butlast xs)"
| "edited (Append t) xs = limited (xs @ chars_of xs t)"
| "edited (Append_sub t pos n) xs = checked (pos \<le> length (chars_of xs t)) (xs @ from_to xs t pos n)"
| "edited (Append_ptr src) xs = limited (xs @ src_chars xs src)"
| "edited (Append_fill n c) xs = limited (xs @ replicate n c)"
| "edited (Assign t) xs = limited (chars_of xs t)"
| "edited (Assign_op t) xs = limited (chars_of xs t)"
| "edited (Assign_sub t pos n) xs = checked (pos \<le> length (chars_of xs t)) (from_to xs t pos n)"
| "edited (Assign_ptr src) xs = limited (src_chars xs src)"
| "edited (Assign_fill n c) xs = limited (replicate n c)"
| "edited (Erase pos n) xs = checked (pos \<le> length xs) (take pos xs @ drop (pos + n) xs)"
| "edited (Erase_one p) xs = Inr (take p xs @ drop (Suc p) xs)"
| "edited (Erase_range f l) xs = Inr (take f xs @ drop l xs)"
| "edited (Insert pos t) xs = checked (pos \<le> length xs) (take pos xs @ chars_of xs t @ drop pos xs)"
| "edited (Insert_sub pos t beg n) xs =
     checked (pos \<le> length xs \<and> beg \<le> length (chars_of xs t)) (take pos xs @ from_to xs t beg n @ drop pos xs)"
| "edited (Insert_ptr pos src) xs = checked (pos \<le> length xs) (take pos xs @ src_chars xs src @ drop pos xs)"
| "edited (Insert_fill pos n c) xs = checked (pos \<le> length xs) (take pos xs @ replicate n c @ drop pos xs)"
| "edited (Insert_char p c) xs = limited (take p xs @ [c] @ drop p xs)"
| "edited (Replace pos n t) xs = checked (pos \<le> length xs) (take pos xs @ chars_of xs t @ drop (pos + n) xs)"
| "edited (Replace_sub pos n t pos2 n2) xs =
     checked (pos \<le> length xs \<and> pos2 \<le> length (chars_of xs t)) (take pos xs @ from_to xs t pos2 n2 @ drop (pos + n) xs)"
| "edited (Replace_ptr pos n src) xs = checked (pos \<le> length xs) (take pos xs @ src_chars xs src @ drop (pos + n) xs)"
| "edited (Replace_fill pos n n2 c) xs = checked (pos \<le> length xs) (take pos xs @ replicate n2 c @ drop (pos + n) xs)"
| "edited (Append_range src) xs = limited (xs @ src_chars xs src)"
| "edited (Assign_range src) xs = limited (src_chars xs src)"
| "edited (Insert_range pos src) xs = limited (take pos xs @ src_chars xs src @ drop pos xs)"
| "edited (Replace_range lo hi src) xs = limited (take lo xs @ src_chars xs src @ drop hi xs)"
| "edited (Insert_iter pos src) xs = limited (take pos xs @ src_chars xs src @ drop pos xs)"
| "edited (Replace_iter lo hi src) xs = limited (take lo xs @ src_chars xs src @ drop hi xs)"

text \<open>What the callers must see to: iterators into the string, something to take off, and a pointer to
  the terminating null character not passed as the source of an insertion.  A range that is first copied to
  a temporary string must leave a result that fits, lest the copy's \<open>bad_alloc\<close> come before the
  \<open>length_error\<close>.\<close>

fun not_terminator :: "string \<Rightarrow> source \<Rightarrow> bool" where
  "not_terminator xs (Outside ys) = True"
| "not_terminator xs (Inside f l) = (\<not> (f = length xs \<and> l = length xs + 1))"

fun legal_edit :: "edit \<Rightarrow> string \<Rightarrow> bool" where
  "legal_edit Pop_back xs = (xs \<noteq> [])"
| "legal_edit (Erase_one p) xs = (p < length xs)"
| "legal_edit (Erase_range f l) xs = (f \<le> l \<and> l \<le> length xs)"
| "legal_edit (Insert_char p c) xs = (p \<le> length xs)"
| "legal_edit (Append_ptr src) xs = src_in xs src"
| "legal_edit (Assign_ptr src) xs = src_in xs src"
| "legal_edit (Insert_ptr pos src) xs = (src_in xs src \<and> not_terminator xs src)"
| "legal_edit (Replace_ptr pos n src) xs = (src_in xs src \<and> not_terminator xs src)"
| "legal_edit (Append_range src) xs = iter_in xs src"
| "legal_edit (Assign_range src) xs = iter_in xs src"
| "legal_edit (Insert_range pos src) xs = (pos \<le> length xs \<and> iter_in xs src \<and> length xs + src_len src \<le> str_max_size)"
| "legal_edit (Replace_range lo hi src) xs =
     (lo \<le> hi \<and> hi \<le> length xs \<and> iter_in xs src \<and> length xs - (hi - lo) + src_len src \<le> str_max_size)"
| "legal_edit (Insert_iter pos src) xs = (pos \<le> length xs \<and> src_in xs src \<and> not_terminator xs src)"
| "legal_edit (Replace_iter lo hi src) xs = (lo \<le> hi \<and> hi \<le> length xs \<and> src_in xs src \<and> not_terminator xs src)"
| "legal_edit x xs = True"

text \<open>No intermediate result exactly fills the maximal size.\<close>

definition below_limit :: "edit \<Rightarrow> string \<Rightarrow> bool" where
  "below_limit x xs \<longleftrightarrow> (case edited x xs of Inl e \<Rightarrow> True | Inr ys \<Rightarrow> length ys \<noteq> str_max_size)"

lemma below_limited: "(case limited ys of Inl e \<Rightarrow> True | Inr zs \<Rightarrow> length zs \<noteq> str_max_size) \<longleftrightarrow> length ys \<noteq> str_max_size"
  by (simp add: limited_def)

lemma whole_chars:
  "holds s xs \<Longrightarrow> src_in xs (whole s t) \<and> src_chars xs (whole s t) = chars_of xs t
    \<and> src_len (whole s t) = length (chars_of xs t) \<and> flag_right (whole s t) (t = None)"
  by (cases t) (auto simp: holds_len flag_right_def)

lemma part_chars:
  "holds s xs \<Longrightarrow> pos \<le> length (chars_of xs t) \<Longrightarrow> src_in xs (part s t pos n)
    \<and> src_chars xs (part s t pos n) = from_to xs t pos n \<and> src_len (part s t pos n) = min n (length (chars_of xs t) - pos)
    \<and> flag_right (part s t pos n) (t = None)"
  by (cases t) (auto simp: holds_len flag_right_def part_def from_to_def min_def)

lemma length_from_to [simp]: "length (from_to xs t pos n) = min n (length (chars_of xs t) - pos)"
  by (simp add: from_to_def min.commute)

lemma flag_inside: "holds s xs \<Longrightarrow> src_in xs src \<Longrightarrow> not_terminator xs src \<Longrightarrow> flag_right src (M_inside s src)"
  by (cases src) (auto simp: flag_right_def holds_len)

lemma replace_with_correct:
  assumes "holds s xs" "length ys = k"
    and "pos \<le> length xs \<Longrightarrow> length xs - min n (length xs - pos) + k \<le> str_max_size \<Longrightarrow>
      correct (go (min n (length xs - pos)) s) (limited (take pos xs @ ys @ drop (pos + min n (length xs - pos)) xs))"
  shows "correct (replace_with pos n k go s) (checked (pos \<le> length xs) (take pos xs @ ys @ drop (pos + n) xs))"
proof (cases "length xs < pos")
  case True
  then show ?thesis using holds_len [OF assms(1)] by (simp add: replace_with_def checked_def)
next
  case False
  let ?m = "min n (length xs - pos)"
  have d: "drop (pos + ?m) xs = drop (pos + n) xs" by (simp add: min_def)
  have l: "length (take pos xs @ ys @ drop (pos + n) xs) = length xs - ?m + k" using False assms(2) by (simp add: min_def)
  have b: "length xs \<le> str_max_size" using holds_len [OF assms(1)] holds_bound [OF assms(1)] by linarith
  define q where "q = length xs - ?m"
  have run: "replace_with pos n k go s = (if str_max_size - q < k then Inl Length_error else go ?m s)"
    using False holds_len [OF assms(1)] by (simp add: replace_with_def Let_def q_def)
  have sp: "checked (pos \<le> length xs) (take pos xs @ ys @ drop (pos + n) xs)
      = (if str_max_size < q + k then Inl Length_error else Inr (take pos xs @ ys @ drop (pos + n) xs))"
    using False l by (simp only: checked_def limited_def q_def) simp
  show ?thesis
  proof (cases "str_max_size - q < k")
    case True
    then have "str_max_size < q + k" by linarith
    with True show ?thesis unfolding run sp by simp
  next
    case fits: False
    then have "q + k \<le> str_max_size" using b by (simp add: q_def)
    moreover from this have "correct (go ?m s) (limited (take pos xs @ ys @ drop (pos + n) xs))"
      using assms(3) False unfolding d q_def by simp
    moreover have "length (take pos xs @ ys @ drop (pos + n) xs) = q + k" using l by (simp only: q_def)
    ultimately have "correct (go ?m s) (Inr (take pos xs @ ys @ drop (pos + n) xs))" by (simp only: limited_def) simp
    then show ?thesis unfolding run sp using fits \<open>q + k \<le> str_max_size\<close> by simp
  qed
qed

lemma reserve_correct: "env_ok e \<Longrightarrow> holds s xs \<Longrightarrow>
    correct (reserve e n s) (if str_max_size < n then Inl Length_error else Inr xs)"
  using reserve_yields [of e s xs "max n (length xs) + 1"] holds_len [of s xs]
  by (auto simp: reserve_def Let_def yields_Inr)

lemma clear_correct:
  assumes "holds s xs" shows "yields (clear s) []"
proof (cases "xs = []")
  case True
  then show ?thesis using assms by (simp add: clear_def holds_len yields_Inr)
next
  case False
  have "yields (Inr (s\<lparr>storage := put (storage s) 0 [null], finish := 0\<rparr>)) []"
    using holds_len [OF assms] by (intro stored [OF assms]) (auto simp: put_def)
  then show ?thesis using False holds_len [OF assms] by (simp add: clear_def poke_put)
qed

lemma pop_back_correct:
  assumes "holds s xs" "xs \<noteq> []" shows "yields (pop_back s) (butlast xs)"
proof -
  let ?k = "length xs - 1"
  have k: "?k < length xs" using assms(2) by (cases xs) simp_all
  have "yields (Inr (s\<lparr>storage := put (storage s) ?k [null], finish := ?k\<rparr>)) (butlast xs)"
    using k holds_len [OF assms(1)]
    by (intro stored [OF assms(1)]) (auto simp: nth_put nth_append nth_butlast holds_block [OF assms(1)])
  then show ?thesis using assms(2) k holds_len [OF assms(1)] by (simp add: pop_back_def poke_put)
qed

lemma append_sub_correct:
  assumes "env_ok e" "holds s xs"
    and "pos \<le> length (chars_of xs t) \<Longrightarrow> length xs + length (from_to xs t pos n) \<noteq> str_max_size"
  shows "correct (append_sub e t pos n s) (checked (pos \<le> length (chars_of xs t)) (xs @ from_to xs t pos n))"
proof (cases "pos \<le> length (chars_of xs t)")
  case True
  have p: "src_in xs (part s t pos n)" "src_chars xs (part s t pos n) = from_to xs t pos n"
    "src_len (part s t pos n) = length (from_to xs t pos n)"
    using part_chars [OF assms(2) True, of n] by simp_all
  have "correct (M_append e (part s t pos n) s) (limited (xs @ from_to xs t pos n))"
    using M_append_correct [OF assms(1,2) p(1)] p(2,3) assms(3) True by simp
  then show ?thesis using True whole_chars [OF assms(2), of t] by (simp add: append_sub_def checked_def)
next
  case False
  then show ?thesis using whole_chars [OF assms(2), of t] by (simp add: append_sub_def checked_def)
qed

lemma assign_sub_correct:
  assumes "env_ok e" "holds s xs" "pos \<le> length (chars_of xs t) \<Longrightarrow> length (from_to xs t pos n) \<noteq> str_max_size"
  shows "correct (assign_sub e t pos n s) (checked (pos \<le> length (chars_of xs t)) (from_to xs t pos n))"
proof (cases "pos \<le> length (chars_of xs t)")
  case True
  have p: "src_in xs (part s t pos n)" "src_chars xs (part s t pos n) = from_to xs t pos n"
    "src_len (part s t pos n) = length (from_to xs t pos n)"
    using part_chars [OF assms(2) True, of n] by simp_all
  have "correct (M_assign e (part s t pos n) s) (limited (from_to xs t pos n))"
    using M_assign_correct [OF assms(1,2) p(1)] p(2,3) assms(3) True by simp
  then show ?thesis using True whole_chars [OF assms(2), of t] by (simp add: assign_sub_def checked_def)
next
  case False
  then show ?thesis using whole_chars [OF assms(2), of t] by (simp add: assign_sub_def checked_def)
qed

text \<open>The members that insert first check the position and the length.\<close>

lemma insert_guarded:
  assumes h: "holds s xs" and k: "k = length ys"
    and go: "pos \<le> length xs \<Longrightarrow> correct r (limited (take pos xs @ ys @ drop pos xs))"
  shows "correct (if finish s < pos then Inl Out_of_range else if str_max_size - finish s < k then Inl Length_error else r)
     (checked (pos \<le> length xs) (take pos xs @ ys @ drop pos xs))"
proof (cases "pos \<le> length xs")
  case False
  then show ?thesis using holds_len [OF h] by (simp add: checked_def)
next
  case True
  note hl = holds_len [OF h]
  have ch: "checked (pos \<le> length xs) (take pos xs @ ys @ drop pos xs) = limited (take pos xs @ ys @ drop pos xs)"
    using True by (simp add: checked_def)
  show ?thesis
  proof (cases "str_max_size - finish s < k")
    case long: True
    then have "str_max_size < length (take pos xs @ ys @ drop pos xs)" using hl True k by simp
    then show ?thesis using long True hl unfolding ch by (simp add: limited_def)
  next
    case False
    then show ?thesis using True hl go unfolding ch by simp
  qed
qed

lemma insert_str_correct:
  assumes e: "env_ok e" and h: "holds s xs" and lim: "pos \<le> length xs \<Longrightarrow> length xs + length (chars_of xs t) \<noteq> str_max_size"
  shows "correct (insert_str e pos t s) (checked (pos \<le> length xs) (take pos xs @ chars_of xs t @ drop pos xs))"
proof -
  have w: "src_in xs (whole s t)" "src_chars xs (whole s t) = chars_of xs t" "src_len (whole s t) = length (chars_of xs t)"
    "flag_right (whole s t) (t = None)"
    using whole_chars [OF h, of t] by simp_all
  show ?thesis unfolding insert_str_def
    by (rule insert_guarded [OF h w(3)])
       (use M_insert_correct [OF e h _ w(1,4), of pos] w(2,3) lim in simp)
qed

lemma insert_ptr_correct:
  assumes e: "env_ok e" and h: "holds s xs" and src: "src_in xs src" "not_terminator xs src"
    and lim: "pos \<le> length xs \<Longrightarrow> length xs + length (src_chars xs src) \<noteq> str_max_size"
  shows "correct (insert_ptr e pos src s) (checked (pos \<le> length xs) (take pos xs @ src_chars xs src @ drop pos xs))"
  unfolding insert_ptr_def
  by (rule insert_guarded [OF h length_src_chars [OF src(1), symmetric]])
     (use M_insert_correct [OF e h _ src(1) flag_inside [OF h src], of pos] length_src_chars [OF src(1)] lim in simp)

lemma insert_chars_correct:
  assumes e: "env_ok e" and h: "holds s xs" and lim: "pos \<le> length xs \<Longrightarrow> length xs + n \<noteq> str_max_size"
  shows "correct (insert_chars e pos n c s) (checked (pos \<le> length xs) (take pos xs @ replicate n c @ drop pos xs))"
  unfolding insert_chars_def
  by (rule insert_guarded [OF h]) (use insert_fill_correct [OF e h _ lim] in simp_all)

lemma insert_sub_correct:
  assumes e: "env_ok e" and h: "holds s xs"
    and lim: "pos \<le> length xs \<Longrightarrow> beg \<le> length (chars_of xs t) \<Longrightarrow> length xs + length (from_to xs t beg n) \<noteq> str_max_size"
  shows "correct (insert_sub e pos t beg n s)
     (checked (pos \<le> length xs \<and> beg \<le> length (chars_of xs t)) (take pos xs @ from_to xs t beg n @ drop pos xs))"
proof (cases "beg \<le> length (chars_of xs t)")
  case True
  have p: "src_in xs (part s t beg n)" "src_chars xs (part s t beg n) = from_to xs t beg n"
    "src_len (part s t beg n) = length (from_to xs t beg n)" "flag_right (part s t beg n) (t = None)"
    using part_chars [OF h True, of n] by simp_all
  have k: "min n (src_len (whole s t) - beg) = length (from_to xs t beg n)" using whole_chars [OF h, of t] by simp
  have "correct (if finish s < pos then Inl Out_of_range
      else if str_max_size - finish s < min n (src_len (whole s t) - beg) then Inl Length_error
      else M_insert e pos (part s t beg n) (t = None) s) (checked (pos \<le> length xs) (take pos xs @ from_to xs t beg n @ drop pos xs))"
    by (rule insert_guarded [OF h k])
       (use M_insert_correct [OF e h _ p(1,4), of pos] p(2,3) lim [OF _ True] in simp)
  then show ?thesis using True whole_chars [OF h, of t] by (simp add: insert_sub_def)
next
  case False
  then show ?thesis using whole_chars [OF h, of t] by (simp add: insert_sub_def checked_def)
qed

lemma insert_char_correct:
  assumes "env_ok e" "holds s xs" "p \<le> length xs" "length xs + 1 \<noteq> str_max_size"
  shows "correct (insert_char e p c s) (limited (take p xs @ [c] @ drop p xs))"
  using push_back_correct [OF assms(1,2,4), of c] M_insert_aux_correct [OF assms] holds_len [OF assms(2)]
  by (auto simp: insert_char_def)

lemma M_replace_from:
  assumes e: "env_ok e" and h: "holds s xs" and src: "src_in xs src" "flag_right src b" "src_chars xs src = ys"
    and lim: "pos \<le> length xs \<Longrightarrow> length xs - min n (length xs - pos) + length ys \<noteq> str_max_size"
  shows "correct (replace_with pos n (src_len src) (\<lambda>len. M_replace e pos (pos + len) src b) s)
     (checked (pos \<le> length xs) (take pos xs @ ys @ drop (pos + n) xs))"
proof (rule replace_with_correct [OF h])
  show "length ys = src_len src" using length_src_chars [OF src(1)] src(3) by simp
  assume pos: "pos \<le> length xs"
  show "correct (M_replace e pos (pos + min n (length xs - pos)) src b s)
     (limited (take pos xs @ ys @ drop (pos + min n (length xs - pos)) xs))"
    using M_replace_correct [OF e h, of pos "pos + min n (length xs - pos)" src b] src pos lim length_src_chars [OF src(1)]
    by simp
qed

lemma replace_str_correct:
  assumes e: "env_ok e" and h: "holds s xs"
    and lim: "pos \<le> length xs \<Longrightarrow> length xs - min n (length xs - pos) + length (chars_of xs t) \<noteq> str_max_size"
  shows "correct (replace_str e pos n t s) (checked (pos \<le> length xs) (take pos xs @ chars_of xs t @ drop (pos + n) xs))"
  unfolding replace_str_def using whole_chars [OF h, of t] lim by (intro M_replace_from [OF e h]) simp_all

lemma replace_ptr_correct:
  assumes e: "env_ok e" and h: "holds s xs" and src: "src_in xs src" "not_terminator xs src"
    and lim: "pos \<le> length xs \<Longrightarrow> length xs - min n (length xs - pos) + length (src_chars xs src) \<noteq> str_max_size"
  shows "correct (replace_ptr e pos n src s) (checked (pos \<le> length xs) (take pos xs @ src_chars xs src @ drop (pos + n) xs))"
  unfolding replace_ptr_def using flag_inside [OF h src] src lim by (intro M_replace_from [OF e h]) simp_all

lemma replace_sub_correct:
  assumes e: "env_ok e" and h: "holds s xs"
    and lim: "pos \<le> length xs \<Longrightarrow> pos2 \<le> length (chars_of xs t) \<Longrightarrow>
      length xs - min n (length xs - pos) + length (from_to xs t pos2 n2) \<noteq> str_max_size"
  shows "correct (replace_sub e pos n t pos2 n2 s)
     (checked (pos \<le> length xs \<and> pos2 \<le> length (chars_of xs t)) (take pos xs @ from_to xs t pos2 n2 @ drop (pos + n) xs))"
proof (cases "pos \<le> length xs \<and> pos2 \<le> length (chars_of xs t)")
  case True
  have p: "src_in xs (part s t pos2 n2)" "src_chars xs (part s t pos2 n2) = from_to xs t pos2 n2"
    "src_len (part s t pos2 n2) = min n2 (src_len (whole s t) - pos2)" "flag_right (part s t pos2 n2) (t = None)"
    using part_chars [OF h, of pos2 t n2] whole_chars [OF h, of t] True by simp_all
  have "replace_sub e pos n t pos2 n2 s = replace_with pos n (src_len (part s t pos2 n2))
      (\<lambda>len. M_replace e pos (pos + len) (part s t pos2 n2) (t = None)) s"
    using True whole_chars [OF h, of t] holds_len [OF h] unfolding p(3) by (simp add: replace_sub_def)
  then show ?thesis using M_replace_from [OF e h p(1,4,2), of pos n] lim True by simp
next
  case False
  then show ?thesis using whole_chars [OF h, of t] holds_len [OF h] by (auto simp: replace_sub_def checked_def)
qed

lemma replace_chars_correct:
  assumes e: "env_ok e" and h: "holds s xs"
    and lim: "pos \<le> length xs \<Longrightarrow> length xs - min n (length xs - pos) + n2 \<noteq> str_max_size"
  shows "correct (replace_chars e pos n n2 c s) (checked (pos \<le> length xs) (take pos xs @ replicate n2 c @ drop (pos + n) xs))"
  unfolding replace_chars_def
proof (rule replace_with_correct [OF h])
  assume "pos \<le> length xs"
  then show "correct (replace_fill e pos (pos + min n (length xs - pos)) n2 c s)
     (limited (take pos xs @ replicate n2 c @ drop (pos + min n (length xs - pos)) xs))"
    using replace_fill_correct [OF e h, of pos "pos + min n (length xs - pos)" n2 c] lim by simp
qed simp

text \<open>Construction of a string, from another one's block or from outside.\<close>

lemma fill_new_block:
  assumes e: "env_ok e" and p: "list_all2 (\<lambda>p c. fetch old p = Inr c) ps cs"
  shows "correct (bindE (M_allocate_block e (length (concat cs) + 1)) (\<lambda>new. fill_block old new ps)) (limited (concat cs))"
proof -
  let ?n = "length (concat cs)"
  have fill: "yields (fill_block old b ps) (concat cs)" if "?n < length b" "length b < 2 ^ 64" for b
    using fill_block_holds [OF p that] by (auto simp: yields_def)
  consider "str_max_size < ?n" | "?n \<le> str_max_size" "DEFAULT_SIZE < ?n + 1" | "?n \<le> str_max_size" "?n < DEFAULT_SIZE"
    by linarith
  then show ?thesis
  proof cases
    case 1
    then show ?thesis by (simp add: M_allocate_block_def limited_def del: length_concat)
  next
    case 2
    show ?thesis
    proof (cases "allocate e (?n + 1)")
      case None
      then show ?thesis using 2 by (simp add: M_allocate_block_def get_block_def limited_def yields_def del: length_concat)
    next
      case (Some b)
      then have "?n + 1 \<le> length b" "length b < 2 ^ 64" using e unfolding env_ok_def by blast+
      then show ?thesis using 2 Some fill [of b]
        by (simp add: M_allocate_block_def get_block_def limited_def del: length_concat)
    qed
  next
    case 3
    have "length (static_buf e) < 2 ^ 64" using e by (simp add: env_ok_def DEFAULT_SIZE_def)
    with 3 fill [of "static_buf e"] e show ?thesis
      by (simp add: M_allocate_block_def limited_def env_ok_def del: length_concat)
  qed
qed

lemma range_initialize_correct:
  "env_ok e \<Longrightarrow> fetch old src = Inr ys \<Longrightarrow> src_len src = length ys \<Longrightarrow> correct (range_initialize e old src) (limited ys)"
  using fill_new_block [of e old "[src]" "[ys]"] by (simp add: range_initialize_def)

text \<open>What \<open>below_limit\<close> says of the three shapes of results.\<close>

lemma below_plain: "below_limit x xs \<Longrightarrow> edited x xs = limited ys \<Longrightarrow> length ys \<noteq> str_max_size"
  by (simp add: below_limit_def below_limited)

lemma below_checked: "below_limit x xs \<Longrightarrow> edited x xs = checked ok ys \<Longrightarrow> ok \<longrightarrow> length ys \<noteq> str_max_size"
  by (cases ok) (simp_all add: below_limit_def checked_def below_limited)

lemma below_insert:
  assumes "below_limit x xs" "edited x xs = checked ok (take pos xs @ ys @ drop pos xs)" "ok \<Longrightarrow> pos \<le> length xs"
  shows "ok \<longrightarrow> length xs + length ys \<noteq> str_max_size"
  using below_checked [OF assms(1,2)] assms(3) by auto

lemma below_replace:
  assumes "below_limit x xs" "edited x xs = checked ok (take pos xs @ ys @ drop (pos + n) xs)" "ok \<Longrightarrow> pos \<le> length xs"
  shows "ok \<longrightarrow> length xs - min n (length xs - pos) + length ys \<noteq> str_max_size"
proof
  assume ok
  then have "length (take pos xs @ ys @ drop (pos + n) xs) = length xs - min n (length xs - pos) + length ys"
    using assms(3) by (simp add: min_def)
  then show "length xs - min n (length xs - pos) + length ys \<noteq> str_max_size"
    using below_checked [OF assms(1,2)] \<open>ok\<close> by argo
qed

text \<open>The dispatch, in three groups.\<close>

lemma run_simple:
  assumes e: "env_ok e" and h: "holds s xs"
  shows "correct (run_edit e (Reserve n) s) (edited (Reserve n) xs)"
    and "correct (run_edit e Clear s) (edited Clear xs)"
    and "below_limit (Resize n c) xs \<Longrightarrow> correct (run_edit e (Resize n c) s) (edited (Resize n c) xs)"
    and "below_limit (Push_back c) xs \<Longrightarrow> correct (run_edit e (Push_back c) s) (edited (Push_back c) xs)"
    and "xs \<noteq> [] \<Longrightarrow> correct (run_edit e Pop_back s) (edited Pop_back xs)"
    and "correct (run_edit e (Erase pos n) s) (edited (Erase pos n) xs)"
    and "p < length xs \<Longrightarrow> correct (run_edit e (Erase_one p) s) (edited (Erase_one p) xs)"
    and "f \<le> l \<Longrightarrow> l \<le> length xs \<Longrightarrow> correct (run_edit e (Erase_range f l) s) (edited (Erase_range f l) xs)"
proof -
  have "length (take n xs @ replicate (n - length xs) c) = n" by (simp add: min_def)
  then show "below_limit (Resize n c) xs \<Longrightarrow> correct (run_edit e (Resize n c) s) (edited (Resize n c) xs)"
    using resize_correct [OF e h, of n c] below_plain [OF _ edited.simps(3), of n c xs] by (simp del: length_append)
  show "correct (run_edit e (Erase pos n) s) (edited (Erase pos n) xs)"
    using erase_correct [OF h, of pos n] limited_le [OF h, of "take pos xs @ drop (pos + n) xs"]
    by (auto simp: checked_def)
  show "below_limit (Push_back c) xs \<Longrightarrow> correct (run_edit e (Push_back c) s) (edited (Push_back c) xs)"
    using push_back_correct [OF e h, of c] below_plain [OF _ edited.simps(4), of c xs] by simp
qed (use reserve_correct [OF e h] clear_correct [OF h] pop_back_correct [OF h] erase_one_correct [OF h]
     erase_range_correct [OF h] in simp_all)

lemma run_append_assign:
  assumes e: "env_ok e" and h: "holds s xs"
  shows "below_limit (Append t) xs \<Longrightarrow> correct (run_edit e (Append t) s) (edited (Append t) xs)"
    and "below_limit (Append_sub t pos n) xs \<Longrightarrow> correct (run_edit e (Append_sub t pos n) s) (edited (Append_sub t pos n) xs)"
    and "below_limit (Append_ptr src) xs \<Longrightarrow> src_in xs src \<Longrightarrow> correct (run_edit e (Append_ptr src) s) (edited (Append_ptr src) xs)"
    and "below_limit (Append_fill n c) xs \<Longrightarrow> correct (run_edit e (Append_fill n c) s) (edited (Append_fill n c) xs)"
    and "below_limit (Assign t) xs \<Longrightarrow> correct (run_edit e (Assign t) s) (edited (Assign t) xs)"
    and "below_limit (Assign_op t) xs \<Longrightarrow> correct (run_edit e (Assign_op t) s) (edited (Assign_op t) xs)"
    and "below_limit (Assign_sub t pos n) xs \<Longrightarrow> correct (run_edit e (Assign_sub t pos n) s) (edited (Assign_sub t pos n) xs)"
    and "below_limit (Assign_ptr src) xs \<Longrightarrow> src_in xs src \<Longrightarrow> correct (run_edit e (Assign_ptr src) s) (edited (Assign_ptr src) xs)"
    and "below_limit (Assign_fill n c) xs \<Longrightarrow> correct (run_edit e (Assign_fill n c) s) (edited (Assign_fill n c) xs)"
proof -
  have w: "src_in xs (whole s t)" "src_chars xs (whole s t) = chars_of xs t" "src_len (whole s t) = length (chars_of xs t)"
    using whole_chars [OF h, of t] by simp_all
  show "below_limit (Append t) xs \<Longrightarrow> correct (run_edit e (Append t) s) (edited (Append t) xs)"
    using M_append_correct [OF e h w(1)] below_plain [OF _ edited.simps(6), of t xs] w by (simp add: append_str_def)
  show "below_limit (Append_sub t pos n) xs \<Longrightarrow> correct (run_edit e (Append_sub t pos n) s) (edited (Append_sub t pos n) xs)"
    using append_sub_correct [OF e h, of pos t n] below_checked [OF _ edited.simps(7), of t pos n xs] by simp
  show "below_limit (Append_ptr src) xs \<Longrightarrow> src_in xs src \<Longrightarrow> correct (run_edit e (Append_ptr src) s) (edited (Append_ptr src) xs)"
    using M_append_correct [OF e h, of src] length_src_chars [of xs src] below_plain [OF _ edited.simps(8), of src xs] by simp
  show "below_limit (Append_fill n c) xs \<Longrightarrow> correct (run_edit e (Append_fill n c) s) (edited (Append_fill n c) xs)"
    using append_fill_correct [OF e h, of n c] below_plain [OF _ edited.simps(9), of n c xs] by simp
  show assign: "below_limit (Assign t) xs \<Longrightarrow> correct (run_edit e (Assign t) s) (edited (Assign t) xs)"
    using M_assign_correct [OF e h w(1)] below_plain [OF _ edited.simps(10), of t xs] w by (simp add: assign_str_def)
  show "below_limit (Assign_op t) xs \<Longrightarrow> correct (run_edit e (Assign_op t) s) (edited (Assign_op t) xs)"
    using assign h limited_le [OF h, of xs] by (cases t) (simp_all add: assign_op_def assign_str_def below_limit_def yields_Inr)
  show "below_limit (Assign_sub t pos n) xs \<Longrightarrow> correct (run_edit e (Assign_sub t pos n) s) (edited (Assign_sub t pos n) xs)"
    using assign_sub_correct [OF e h, of pos t n] below_checked [OF _ edited.simps(12), of t pos n xs] by simp
  show "below_limit (Assign_ptr src) xs \<Longrightarrow> src_in xs src \<Longrightarrow> correct (run_edit e (Assign_ptr src) s) (edited (Assign_ptr src) xs)"
    using M_assign_correct [OF e h, of src] length_src_chars [of xs src] below_plain [OF _ edited.simps(13), of src xs] by simp
  show "below_limit (Assign_fill n c) xs \<Longrightarrow> correct (run_edit e (Assign_fill n c) s) (edited (Assign_fill n c) xs)"
    using assign_fill_correct [OF e h, of n c] below_plain [OF _ edited.simps(14), of n c xs] by simp
qed

lemma run_insert:
  assumes e: "env_ok e" and h: "holds s xs"
  shows "below_limit (Insert pos t) xs \<Longrightarrow> correct (run_edit e (Insert pos t) s) (edited (Insert pos t) xs)"
    and "below_limit (Insert_sub pos t beg n) xs \<Longrightarrow>
      correct (run_edit e (Insert_sub pos t beg n) s) (edited (Insert_sub pos t beg n) xs)"
    and "below_limit (Insert_ptr pos src) xs \<Longrightarrow> src_in xs src \<Longrightarrow> not_terminator xs src \<Longrightarrow>
      correct (run_edit e (Insert_ptr pos src) s) (edited (Insert_ptr pos src) xs)"
    and "below_limit (Insert_fill pos n c) xs \<Longrightarrow> correct (run_edit e (Insert_fill pos n c) s) (edited (Insert_fill pos n c) xs)"
    and "below_limit (Insert_char p c) xs \<Longrightarrow> p \<le> length xs \<Longrightarrow>
      correct (run_edit e (Insert_char p c) s) (edited (Insert_char p c) xs)"
  using insert_str_correct [OF e h, of pos t] below_insert [OF _ edited.simps(18), of pos t xs]
    insert_sub_correct [OF e h, of pos beg t n] below_insert [OF _ edited.simps(19), of pos t beg n xs]
    insert_ptr_correct [OF e h, of src pos] below_insert [OF _ edited.simps(20), of pos src xs]
    insert_chars_correct [OF e h, of pos n c] below_insert [OF _ edited.simps(21), of pos n c xs]
    insert_char_correct [OF e h, of p c] below_plain [OF _ edited.simps(22), of p c xs]
  by auto

lemma run_replace:
  assumes e: "env_ok e" and h: "holds s xs"
  shows "below_limit (Replace pos n t) xs \<Longrightarrow> correct (run_edit e (Replace pos n t) s) (edited (Replace pos n t) xs)"
    and "below_limit (Replace_sub pos n t pos2 n2) xs \<Longrightarrow>
      correct (run_edit e (Replace_sub pos n t pos2 n2) s) (edited (Replace_sub pos n t pos2 n2) xs)"
    and "below_limit (Replace_ptr pos n src) xs \<Longrightarrow> src_in xs src \<Longrightarrow> not_terminator xs src \<Longrightarrow>
      correct (run_edit e (Replace_ptr pos n src) s) (edited (Replace_ptr pos n src) xs)"
    and "below_limit (Replace_fill pos n n2 c) xs \<Longrightarrow>
      correct (run_edit e (Replace_fill pos n n2 c) s) (edited (Replace_fill pos n n2 c) xs)"
  using replace_str_correct [OF e h, of pos n t] below_replace [OF _ edited.simps(23), of pos n t xs]
    replace_sub_correct [OF e h, of pos pos2 t n n2] below_replace [OF _ edited.simps(24), of pos n t pos2 n2 xs]
    replace_ptr_correct [OF e h, of src pos n] below_replace [OF _ edited.simps(25), of pos n src xs]
    replace_chars_correct [OF e h, of pos n n2 c] below_replace [OF _ edited.simps(26), of pos n n2 c xs]
  by auto

lemma after_temporary:
  assumes e: "env_ok e" and h: "holds s xs" and src: "iter_in xs src" "src_len src \<le> str_max_size"
    and f: "correct (f (src_chars xs src)) (limited ys)" and ys: "length ys \<le> str_max_size"
  shows "correct (bindE (temporary e src s) f) (limited ys)"
proof -
  have src': "src_in xs src" using src by (simp add: iter_src)
  have "correct (range_initialize e (storage s) src) (limited (src_chars xs src))"
    using fetch_src [OF h src'] length_src_chars [OF src'] by (intro range_initialize_correct [OF e]) simp_all
  then have "yields (range_initialize e (storage s) src) (src_chars xs src)"
    using src length_src_chars [OF src'] by (simp add: limited_def)
  moreover have "take (finish t) (storage t) = zs" if "holds t zs" for t zs
    using that by (intro nth_equalityI) (auto simp: holds_def)
  ultimately have "temporary e src s = Inl Bad_alloc \<or> temporary e src s = Inr (src_chars xs src)"
    by (auto simp: temporary_def yields_def)
  then show ?thesis using f ys by (auto simp: limited_def yields_def)
qed

lemma run_ranges:
  assumes e: "env_ok e" and h: "holds s xs"
  shows "below_limit (Append_range src) xs \<Longrightarrow> iter_in xs src \<Longrightarrow>
      correct (run_edit e (Append_range src) s) (edited (Append_range src) xs)"
    and "below_limit (Assign_range src) xs \<Longrightarrow> iter_in xs src \<Longrightarrow>
      correct (run_edit e (Assign_range src) s) (edited (Assign_range src) xs)"
    and "below_limit (Insert_iter pos src) xs \<Longrightarrow> pos \<le> length xs \<Longrightarrow> src_in xs src \<Longrightarrow> not_terminator xs src \<Longrightarrow>
      correct (run_edit e (Insert_iter pos src) s) (edited (Insert_iter pos src) xs)"
    and "below_limit (Replace_iter lo hi src) xs \<Longrightarrow> lo \<le> hi \<Longrightarrow> hi \<le> length xs \<Longrightarrow> src_in xs src \<Longrightarrow> not_terminator xs src \<Longrightarrow>
      correct (run_edit e (Replace_iter lo hi src) s) (edited (Replace_iter lo hi src) xs)"
proof -
  have len: "iter_in xs src \<Longrightarrow> length (src_chars xs src) = src_len src" by (rule length_src_chars [OF iter_src])
  show "below_limit (Append_range src) xs \<Longrightarrow> iter_in xs src \<Longrightarrow>
      correct (run_edit e (Append_range src) s) (edited (Append_range src) xs)"
    using M_appendT_correct [OF e h, of src] below_plain [OF _ edited.simps(27), of src xs] len by simp
  show "below_limit (Assign_range src) xs \<Longrightarrow> iter_in xs src \<Longrightarrow>
      correct (run_edit e (Assign_range src) s) (edited (Assign_range src) xs)"
    using assign_range_correct [OF e h, of src] below_plain [OF _ edited.simps(28), of src xs] len by simp
  show "below_limit (Insert_iter pos src) xs \<Longrightarrow> pos \<le> length xs \<Longrightarrow> src_in xs src \<Longrightarrow> not_terminator xs src \<Longrightarrow>
      correct (run_edit e (Insert_iter pos src) s) (edited (Insert_iter pos src) xs)"
    using M_insert_correct [OF e h _ _ flag_inside [OF h], of pos src] below_plain [OF _ edited.simps(31), of pos src xs]
      length_src_chars [of xs src] by (simp add: insert_iter_def)
  show "below_limit (Replace_iter lo hi src) xs \<Longrightarrow> lo \<le> hi \<Longrightarrow> hi \<le> length xs \<Longrightarrow> src_in xs src \<Longrightarrow> not_terminator xs src \<Longrightarrow>
      correct (run_edit e (Replace_iter lo hi src) s) (edited (Replace_iter lo hi src) xs)"
  proof -
    assume a: "below_limit (Replace_iter lo hi src) xs" "lo \<le> hi" "hi \<le> length xs" "src_in xs src" "not_terminator xs src"
    have "length (take lo xs @ src_chars xs src @ drop hi xs) = length xs - (hi - lo) + src_len src"
      using a length_src_chars [OF a(4)] by simp
    with below_plain [OF a(1) edited.simps(32)] have "length xs - (hi - lo) + src_len src \<noteq> str_max_size" by argo
    from M_replace_correct [OF e h a(2,3,4) flag_inside [OF h a(4,5)] this] show ?thesis by (simp add: replace_iter_def)
  qed
qed

lemma run_temporaries:
  assumes e: "env_ok e" and h: "holds s xs"
  shows "below_limit (Insert_range pos src) xs \<Longrightarrow> legal_edit (Insert_range pos src) xs \<Longrightarrow>
      correct (run_edit e (Insert_range pos src) s) (edited (Insert_range pos src) xs)"
    and "below_limit (Replace_range lo hi src) xs \<Longrightarrow> legal_edit (Replace_range lo hi src) xs \<Longrightarrow>
      correct (run_edit e (Replace_range lo hi src) s) (edited (Replace_range lo hi src) xs)"
proof -
  let ?ys = "src_chars xs src"
  show "correct (run_edit e (Insert_range pos src) s) (edited (Insert_range pos src) xs)"
    if a: "below_limit (Insert_range pos src) xs" "legal_edit (Insert_range pos src) xs"
  proof -
    have l: "pos \<le> length xs" "iter_in xs src" "length ?ys = src_len src" "length xs + src_len src \<le> str_max_size"
      using a(2) length_src_chars [OF iter_src] by auto
    have n: "length xs + length ?ys \<noteq> str_max_size" using below_plain [OF a(1) edited.simps(29)] l by simp
    have "correct (M_insert e pos (Outside ?ys) False s) (limited (take pos xs @ ?ys @ drop pos xs))"
      using M_insert_correct [OF e h l(1), of "Outside ?ys" False] n by (simp add: flag_right_def)
    then have "correct (M_insertT e pos ?ys s) (limited (take pos xs @ ?ys @ drop pos xs))"
      using M_insertT_is_insert [OF h l(1)] by simp
    then have "correct (bindE (temporary e src s) (\<lambda>ys. M_insertT e pos ys s)) (limited (take pos xs @ ?ys @ drop pos xs))"
      using after_temporary [OF e h l(2), where f = "\<lambda>ys. M_insertT e pos ys s" and ys = "take pos xs @ ?ys @ drop pos xs"] l
      by simp
    then show ?thesis by (simp add: insert_range_def)
  qed
  show "correct (run_edit e (Replace_range lo hi src) s) (edited (Replace_range lo hi src) xs)"
    if a: "below_limit (Replace_range lo hi src) xs" "legal_edit (Replace_range lo hi src) xs"
  proof -
    have l: "lo \<le> hi" "hi \<le> length xs" "iter_in xs src" "length ?ys = src_len src"
      "length xs - (hi - lo) + src_len src \<le> str_max_size"
      using a(2) length_src_chars [OF iter_src] by auto
    have len: "length (take lo xs @ ?ys @ drop hi xs) = length xs - (hi - lo) + length ?ys" using l by simp
    then have n: "length xs - (hi - lo) + length ?ys \<noteq> str_max_size" using below_plain [OF a(1) edited.simps(30)] by argo
    have small: "src_len src \<le> str_max_size" "length (take lo xs @ ?ys @ drop hi xs) \<le> str_max_size" using l len by linarith+
    have "correct (M_replace e lo hi (Outside ?ys) False s) (limited (take lo xs @ ?ys @ drop hi xs))"
      using M_replace_correct [OF e h l(1,2), of "Outside ?ys" False] n by (simp add: flag_right_def)
    then have "correct (bindE (temporary e src s) (\<lambda>ys. M_replace e lo hi (Outside ys) False s)) (limited (take lo xs @ ?ys @ drop hi xs))"
      using after_temporary [OF e h l(3), where f = "\<lambda>ys. M_replace e lo hi (Outside ys) False s"
        and ys = "take lo xs @ ?ys @ drop hi xs"] small
      by blast
    then show ?thesis by (simp add: replace_range_def)
  qed
qed

lemma run_edit_correct:
  assumes "env_ok e" "holds s xs" "legal_edit x xs" "below_limit x xs"
  shows "correct (run_edit e x s) (edited x xs)"
  using assms(3,4) run_simple [OF assms(1,2)] run_append_assign [OF assms(1,2)] run_insert [OF assms(1,2)] run_replace [OF assms(1,2)]
    run_ranges [OF assms(1,2)] run_temporaries [OF assms(1,2)]
  by (cases x) (simp_all del: run_edit.simps edited.simps)

section \<open>Properties of the strings\<close>

fun edited_all :: "edit list \<Rightarrow> string \<Rightarrow> string res" where
  "edited_all [] xs = Inr xs"
| "edited_all (x # es) xs = bindE (edited x xs) (edited_all es)"

fun all_legal :: "edit list \<Rightarrow> string \<Rightarrow> bool" where
  "all_legal [] xs = True"
| "all_legal (x # es) xs = (legal_edit x xs \<and> below_limit x xs \<and>
     (case edited x xs of Inl e \<Rightarrow> True | Inr ys \<Rightarrow> all_legal es ys))"

lemma run_edits_correct:
  assumes e: "env_ok e"
  shows "holds s xs \<Longrightarrow> all_legal es xs \<Longrightarrow>
    (case edited_all es xs of Inl err \<Rightarrow> run_edits e es s = Inl err \<or> run_edits e es s = Inl Bad_alloc
     | Inr ys \<Rightarrow> yields (run_edits e es s) ys)"
proof (induction es arbitrary: s xs)
  case Nil
  then show ?case by (simp add: yields_Inr)
next
  case (Cons x es)
  have c: "correct (run_edit e x s) (edited x xs)" using run_edit_correct [OF e Cons.prems(1)] Cons.prems(2) by simp
  show ?case
  proof (cases "edited x xs")
    case (Inl err)
    then show ?thesis using c by simp
  next
    case (Inr ys)
    then consider "run_edit e x s = Inl Bad_alloc" | s' where "run_edit e x s = Inr s'" "holds s' ys"
      using c by (auto simp: yields_def)
    then show ?thesis
    proof cases
      case 1
      then show ?thesis using Inr by (cases "edited_all es ys") (simp_all add: yields_def)
    next
      case 2
      then have "run_edits e (x # es) s = run_edits e es s'" "edited_all (x # es) xs = edited_all es ys" using Inr by simp_all
      moreover have "all_legal es ys" using Inr Cons.prems(2) by simp
      ultimately show ?thesis using Cons.IH [OF 2(2)] by (simp only:)
    qed
  qed
qed


text \<open>the constructors give a block that holds the characters asked for: nothing, \<open>n\<close> times a character, an
  array, a copy of a string, a part of a string (which begins behind the end only with an exception); and
  the element access of a string throws exactly behind its end, \<open>back()\<close> on an empty string included.\<close>

theorem strings_constructed:
  assumes "env_ok e" "holds s xs"
  shows "yields (str_empty e) [] \<and> correct (str_of_fill e n c) (limited (replicate n c))
    \<and> correct (str_of_ptr e ys) (limited ys) \<and> correct (str_copy e s) (limited xs)
    \<and> correct (str_sub e s pos n) (checked (pos \<le> length xs) (take n (drop pos xs)))
    \<and> str_at s i = (if i < length xs then Inr (xs ! i) else Inl Out_of_range)
    \<and> str_back s = (if xs = [] then Inl Out_of_range else Inr (last xs))"
proof (intro conjI)
  note hl = holds_len [OF assms(2)]
  have e32: "DEFAULT_SIZE < 2 ^ 64" "0 < DEFAULT_SIZE" "DEFAULT_SIZE \<le> str_max_size + 1"
    by (simp_all add: DEFAULT_SIZE_def max_size_num)
  show "yields (str_empty e) []"
  proof -
    have "length (static_buf e) = DEFAULT_SIZE" using assms(1) by (simp add: env_ok_def)
    with fill_block_holds [of "[]" "[]" "[]" "static_buf e"] e32 show ?thesis
      by (auto simp: str_empty_def M_allocate_block_def yields_def)
  qed
  show "correct (str_of_fill e n c) (limited (replicate n c))"
    using fill_new_block [OF assms(1), of "[]" "[Outside (replicate n c)]" "[replicate n c]"] by (simp add: str_of_fill_def)
  show "correct (str_of_ptr e ys) (limited ys)"
    unfolding str_of_ptr_def by (rule range_initialize_correct [OF assms(1)]) simp_all
  show "correct (str_copy e s) (limited xs)"
    unfolding str_copy_def using own_text [OF assms(2), of "length xs"] hl
    by (intro range_initialize_correct [OF assms(1)]) (simp_all del: fetch.simps)
  show "correct (str_sub e s pos n) (checked (pos \<le> length xs) (take n (drop pos xs)))"
  proof (cases "pos \<le> length xs")
    case True
    let ?m = "min n (length xs - pos)"
    have "fetch (storage s) (Inside pos (pos + ?m)) = Inr (take n (drop pos xs))"
    proof -
      have "pos + ?m \<le> length xs" "take ?m (drop pos xs) = take n (drop pos xs)" using True by (auto simp: min_def)
      with fetch_src [OF assms(2)] own_chars show ?thesis by metis
    qed
    then have "correct (range_initialize e (storage s) (Inside pos (pos + ?m))) (limited (take n (drop pos xs)))"
      by (rule range_initialize_correct [OF assms(1)]) (simp add: min.commute)
    then show ?thesis using True hl by (simp add: str_sub_def checked_def)
  next
    case False
    then show ?thesis using hl by (simp add: str_sub_def checked_def)
  qed
  have at: "str_at s i = (if i < length xs then Inr (xs ! i) else Inl Out_of_range)" for i
    using assms(2) by (simp add: str_at_def holds_def)
  then show "str_at s i = (if i < length xs then Inr (xs ! i) else Inl Out_of_range)" .
  show "str_back s = (if xs = [] then Inl Out_of_range else Inr (last xs))"
  proof (cases "xs = []")
    case True
    then show ?thesis using hl at by (simp add: str_back_def)
  next
    case False
    have "length xs < 2 ^ 64" using hl by linarith
    then have "(int (length xs) - 1) mod 2 ^ 64 = int (length xs) - 1" using False by (intro mod_pos_pos_trivial) auto
    then have "nat ((int (finish s) - 1) mod 2 ^ 64) = length xs - 1" using hl by simp
    then show ?thesis using False at [of "length xs - 1"] by (simp add: str_back_def last_conv_nth)
  qed
qed

text \<open>An environment for the witnesses.\<close>

definition std_env :: env where
  "std_env = \<lparr>allocate = (\<lambda>n. if n < 1000 then Some (replicate n CHR ''?'') else None), static_buf = replicate 32 CHR ''_''\<rparr>"

lemma std_env_ok: "env_ok std_env"
  by (auto simp: env_ok_def std_env_def DEFAULT_SIZE_def)

lemma str_of_ptr_holds:
  assumes "length xs < 32"
  shows "\<exists>s. str_of_ptr std_env xs = Inr s \<and> holds s xs \<and> length (storage s) = 32"
  using assms fill_block_holds [of "[]" "[Outside xs]" "[xs]" "static_buf std_env"]
  by (simp add: str_of_ptr_def range_initialize_def M_allocate_block_def std_env_def DEFAULT_SIZE_def max_size_num)

theorem strings_constructed_witness:
  "\<exists>s. str_of_ptr std_env ''abc'' = Inr s \<and> correct (str_sub std_env s 1 9) (limited ''bc'') \<and> str_back s = Inr CHR ''c''"
proof -
  obtain s where s: "str_of_ptr std_env ''abc'' = Inr s" "holds s ''abc''"
    using str_of_ptr_holds [of "''abc''"] by auto
  from strings_constructed [OF std_env_ok s(2), of 9 _ _ 1] s(1) show ?thesis by (simp add: checked_def)
qed

definition demo_edits :: "edit list" where
  "demo_edits = [Replace_ptr 2 3 (Inside 1 8), Insert_ptr 2 (Inside 1 4), Append None]"

lemma demo_edits_done:
  "all_legal demo_edits ''hello world''"
  "edited_all demo_edits ''hello world'' = Inr ''heeelello wo worldheeelello wo world''"
  by (simp_all add: demo_edits_def below_limit_def checked_def limited_def max_size_num)


text \<open>C32: the one source the code's test for self-reference misses: a pointer to the string's own terminating
  null character, a valid array of one character that \<open>_M_inside\<close> takes for memory outside of the string.
  Inserted in front of the end of a string with room to spare, it puts the string's last character there
  instead of the null character.\<close>

theorem own_terminator_inserted_wrong:
  assumes "holds s xs" "pos < length xs" "length xs + 1 < length (storage s)"
  shows "src_chars xs (Inside (length xs) (length xs + 1)) = [null]
    \<and> (\<exists>s'. insert_ptr e pos (Inside (length xs) (length xs + 1)) s = Inr s'
         \<and> holds s' (take pos xs @ [last xs] @ drop pos xs))"
proof -
  let ?L = "length xs"
  note hl = holds_len [OF assms(1)]
  have len: "str_max_size - ?L \<ge> 1" using holds_bound [OF assms(1)] assms(3) by linarith
  from open_gap [OF assms(1), of 1 pos] assms(2,3) obtain b1 b2 where
    b: "ucopy (storage s) (?L + 1) (Inside (?L - 1 + 1) (?L + 1)) = Inr b1"
      "move_chars b1 (pos + 1) (Inside pos (pos + (?L - pos - 1) + 1)) = Inr b2"
      "opened (storage s) xs pos 1 b2"
    by auto
  have "last xs = xs ! (?L - 1)" using assms(2) by (intro last_conv_nth) auto
  then have "b2 ! ?L = last xs" using b(3) assms(2,3) by (auto simp: opened_def nth_append)
  moreover have l2: "length b2 = length (storage s)" using b(3) by (simp add: opened_def)
  ultimately have "fetch b2 (Inside ?L (?L + 1)) = Inr [last xs]" using assms(3) by (simp add: take_Suc_conv_app_nth hd_drop_conv_nth take_Suc)
  then have "copy_chars b2 pos (Inside ?L (?L + 1)) = Inr (put b2 pos [last xs])"
    using assms(2,3) l2 by (intro copy_chars_put) simp_all
  moreover have "1 < M_rest s" "1 \<le> ?L - pos" using assms(2,3) hl by (simp_all add: M_rest_def)
  ultimately have "insert_ptr e pos (Inside ?L (?L + 1)) s = Inr (s\<lparr>storage := put b2 pos [last xs], finish := ?L + 1\<rparr>)"
    using b hl len assms(2) by (simp add: insert_ptr_def M_insert_def Let_def del: ucopy.simps)
  moreover have "holds (s\<lparr>storage := put b2 pos [last xs], finish := ?L + 1\<rparr>) (take pos xs @ [last xs] @ drop pos xs)"
    using opened_stored [OF assms(1), of pos "[last xs]" b2] b(3) assms(2,3) by (simp add: yields_def)
  ultimately show ?thesis by simp
qed

theorem own_terminator_inserted_wrong_witness:
  "\<exists>s s'. str_of_ptr std_env ''abc'' = Inr s \<and> insert_ptr std_env 1 (Inside 3 4) s = Inr s' \<and> holds s' ''acbc''"
proof -
  obtain s where s: "str_of_ptr std_env ''abc'' = Inr s" "holds s ''abc''" "length (storage s) = 32"
    using str_of_ptr_holds [of "''abc''"] by auto
  from own_terminator_inserted_wrong [OF s(2), of 1 std_env] s(1,3) show ?thesis by (simp add: numeral_eq_Suc)
qed

text \<open>a string that grows to exactly \<open>max_size()\<close> characters is given a block one character too small,
  if the allocator gives no more than it is asked for.\<close>

theorem full_string_overruns:
  assumes "holds s xs" "length xs + length ys = str_max_size" "M_rest s \<le> length ys" "ys \<noteq> []"
    and "allocate e str_max_size = Some b" "length b = str_max_size"
  shows "M_append e (Outside ys) s = Inl Bad_access"
proof -
  note hl = holds_len [OF assms(1)]
  have "next_size (length ys) s = Inr str_max_size"
  proof -
    let ?sum = "length xs + max (length ys) (length xs) + 1"
    have "str_max_size < ?sum" using assms(2) by linarith
    moreover have "?sum mod 2 ^ 64 = ?sum \<or> ?sum mod 2 ^ 64 < length xs"
    proof (cases "?sum < 2 ^ 64")
      case False
      then have "?sum mod 2 ^ 64 = ?sum - 2 ^ 64"
        using assms(2) by (simp add: max_size_num max_def le_mod_geq split: if_splits)
      moreover have "?sum - 2 ^ 64 < length xs" using False assms(2) by (simp add: max_size_num max_def split: if_splits)
      ultimately show ?thesis by simp
    qed simp
    moreover have "\<not> str_max_size - length xs < length ys" using assms(2) by linarith
    ultimately show ?thesis using hl by (auto simp: next_size_def Let_def)
  qed
  moreover have "copy_pieces (storage s) [Inside 0 (length xs), Outside ys] b 0 = Inr (put b 0 (xs @ ys), length (xs @ ys))"
    using copy_pieces_put [of "storage s" "[Inside 0 (length xs), Outside ys]" "[xs, ys]" 0 b] own_text [OF assms(1), of "length xs"]
      assms(2,6) by (simp del: fetch.simps) simp
  ultimately show ?thesis
    using assms hl by (simp add: M_append_def regrow_def get_block_def fill_block_def poke_def del: copy_pieces.simps)
qed

end
