(* ===== verification/StlSort.thy ===== *)
theory StlSort
  imports StlHeap
begin

text \<open>
  Sorting in the C++ library (\<open>stl/_algo.c\<close>): quicksort down to ranges of \<open>__stl_threshold\<close> elements with a
  limit on the depth behind which it turns to a heap sort, then one pass of insertion sort.  Several
  of its loops have no guard: they rely on an element that stops them.  An access outside of the block is
  \<open>None\<close>, and so is a loop that does not end.
\<close>

section \<open>Median and partition\<close>

definition median :: "('a \<Rightarrow> 'a \<Rightarrow> bool) \<Rightarrow> 'a \<Rightarrow> 'a \<Rightarrow> 'a \<Rightarrow> 'a" where
  "median lt a b c =
     (if lt a b then if lt b c then b else if lt a c then c else a
      else if lt a c then a else if lt b c then c else b)"

definition iter_swap :: "nat \<Rightarrow> nat \<Rightarrow> 'a list \<Rightarrow> 'a list option" where
  "iter_swap i j a = do {
     x \<leftarrow> load a i;
     y \<leftarrow> load a j;
     a \<leftarrow> store a i y;
     store a j x
   }"

text \<open>\<open>while (__comp( *__first, __pivot)) ++__first\<close> and \<open>while (__comp(__pivot, *--__last))\<close>.\<close>

function scan_up :: "('a \<Rightarrow> 'a \<Rightarrow> bool) \<Rightarrow> 'a \<Rightarrow> 'a list \<Rightarrow> nat \<Rightarrow> nat option" where
  "scan_up lt pivot a i = (case load a i of None \<Rightarrow> None
     | Some x \<Rightarrow> if lt x pivot then scan_up lt pivot a (i + 1) else Some i)"
  by auto

termination by (relation "measure (\<lambda>(lt, pivot, a, i). length a - i)") (auto simp: load_def split: if_splits)

declare scan_up.simps [simp del]

fun scan_down :: "('a \<Rightarrow> 'a \<Rightarrow> bool) \<Rightarrow> 'a \<Rightarrow> 'a list \<Rightarrow> nat \<Rightarrow> nat option" where
  "scan_down lt pivot a 0 = None"
| "scan_down lt pivot a (Suc j) = do {
     x \<leftarrow> load a j;
     if lt pivot x then scan_down lt pivot a j else Some j
   }"

lemma scan_down_less: "scan_down lt pivot a l = Some j \<Longrightarrow> j < l"
  by (induction l) (auto simp: less_Suc_eq split: bind_splits if_splits)

function unguarded_partition ::
    "('a \<Rightarrow> 'a \<Rightarrow> bool) \<Rightarrow> 'a \<Rightarrow> nat \<Rightarrow> nat \<Rightarrow> 'a list \<Rightarrow> (nat \<times> 'a list) option" where
  "unguarded_partition lt pivot first last' a =
     (case scan_up lt pivot a first of None \<Rightarrow> None
      | Some i \<Rightarrow> (case scan_down lt pivot a last' of None \<Rightarrow> None
        | Some j \<Rightarrow> if \<not> i < j then Some (i, a)
            else (case iter_swap i j a of None \<Rightarrow> None
              | Some a \<Rightarrow> unguarded_partition lt pivot (i + 1) j a)))"
  by auto

termination by (relation "measure (\<lambda>(lt, pivot, first, last', a). last')") (auto dest: scan_down_less)

declare unguarded_partition.simps [simp del]

section \<open>Insertion sort\<close>

definition threshold :: nat where "threshold = 16"

fun unguarded_linear_insert :: "('a \<Rightarrow> 'a \<Rightarrow> bool) \<Rightarrow> nat \<Rightarrow> 'a \<Rightarrow> 'a list \<Rightarrow> 'a list option" where
  "unguarded_linear_insert lt 0 val a = None"
| "unguarded_linear_insert lt (Suc next) val a = do {
     x \<leftarrow> load a next;
     if lt val x then do {
       a \<leftarrow> store a (Suc next) x;
       unguarded_linear_insert lt next val a
     } else store a (Suc next) val
   }"

text \<open>\<open>copy_backward\<close> of the \<open>n\<close> elements in front of \<open>last'\<close>.\<close>

fun copy_backward :: "nat \<Rightarrow> nat \<Rightarrow> nat \<Rightarrow> 'a list \<Rightarrow> 'a list option" where
  "copy_backward 0 last' result a = Some a"
| "copy_backward (Suc n) last' result a = do {
     x \<leftarrow> load a (last' - 1);
     a \<leftarrow> store a (result - 1) x;
     copy_backward n (last' - 1) (result - 1) a
   }"

definition linear_insert :: "('a \<Rightarrow> 'a \<Rightarrow> bool) \<Rightarrow> nat \<Rightarrow> nat \<Rightarrow> 'a \<Rightarrow> 'a list \<Rightarrow> 'a list option" where
  "linear_insert lt first last' val a = do {
     x \<leftarrow> load a first;
     if lt val x then do {
       a \<leftarrow> copy_backward (last' - first) last' (last' + 1) a;
       store a first val
     } else unguarded_linear_insert lt last' val a
   }"

text \<open>The loops over \<open>__i\<close> with the number of rounds left.\<close>

fun insertion_loop :: "('a \<Rightarrow> 'a \<Rightarrow> bool) \<Rightarrow> nat \<Rightarrow> nat \<Rightarrow> nat \<Rightarrow> 'a list \<Rightarrow> 'a list option" where
  "insertion_loop lt first 0 i a = Some a"
| "insertion_loop lt first (Suc n) i a = do {
     x \<leftarrow> load a i;
     a \<leftarrow> linear_insert lt first i x a;
     insertion_loop lt first n (i + 1) a
   }"

definition insertion_sort :: "('a \<Rightarrow> 'a \<Rightarrow> bool) \<Rightarrow> nat \<Rightarrow> nat \<Rightarrow> 'a list \<Rightarrow> 'a list option" where
  "insertion_sort lt first last' a =
     (if first = last' then Some a else insertion_loop lt first (last' - (first + 1)) (first + 1) a)"

fun unguarded_insertion_loop :: "('a \<Rightarrow> 'a \<Rightarrow> bool) \<Rightarrow> nat \<Rightarrow> nat \<Rightarrow> 'a list \<Rightarrow> 'a list option" where
  "unguarded_insertion_loop lt 0 i a = Some a"
| "unguarded_insertion_loop lt (Suc n) i a = do {
     x \<leftarrow> load a i;
     a \<leftarrow> unguarded_linear_insert lt i x a;
     unguarded_insertion_loop lt n (i + 1) a
   }"

definition unguarded_insertion_sort :: "('a \<Rightarrow> 'a \<Rightarrow> bool) \<Rightarrow> nat \<Rightarrow> nat \<Rightarrow> 'a list \<Rightarrow> 'a list option" where
  "unguarded_insertion_sort lt first last' a = unguarded_insertion_loop lt (last' - first) first a"

definition final_insertion_sort :: "('a \<Rightarrow> 'a \<Rightarrow> bool) \<Rightarrow> nat \<Rightarrow> nat \<Rightarrow> 'a list \<Rightarrow> 'a list option" where
  "final_insertion_sort lt first last' a =
     (if threshold < last' - first then do {
        a \<leftarrow> insertion_sort lt first (first + threshold) a;
        unguarded_insertion_sort lt (first + threshold) last' a
      } else insertion_sort lt first last' a)"

section \<open>Sort\<close>

text \<open>The body of the loop, and the recursive call, run with the limit lowered by one.\<close>

fun introsort_loop :: "('a \<Rightarrow> 'a \<Rightarrow> bool) \<Rightarrow> nat \<Rightarrow> nat \<Rightarrow> nat \<Rightarrow> 'a list \<Rightarrow> 'a list option" where
  "introsort_loop lt 0 first last' a =
     (if threshold < last' - first then partial_sort lt first last' last' a else Some a)"
| "introsort_loop lt (Suc depth_limit) first last' a =
     (if threshold < last' - first then do {
        x \<leftarrow> load a first;
        y \<leftarrow> load a (first + (last' - first) div 2);
        z \<leftarrow> load a (last' - 1);
        (cut, a) \<leftarrow> unguarded_partition lt (median lt x y z) first last' a;
        a \<leftarrow> introsort_loop lt depth_limit cut last' a;
        introsort_loop lt depth_limit first cut a
      } else Some a)"

text \<open>\<open>__lg\<close> does not end for 0.\<close>

partial_function (option) lg :: "nat \<Rightarrow> nat option" where
  "lg n = (if n = 1 then Some 0 else Option.bind (lg (n div 2)) (\<lambda>k. Some (k + 1)))"

definition stl_sort :: "('a \<Rightarrow> 'a \<Rightarrow> bool) \<Rightarrow> nat \<Rightarrow> nat \<Rightarrow> 'a list \<Rightarrow> 'a list option" where
  "stl_sort lt first last' a =
     (if first \<noteq> last' then do {
        k \<leftarrow> lg (last' - first);
        a \<leftarrow> introsort_loop lt (k * 2) first last' a;
        final_insertion_sort lt first last' a
      } else Some a)"

section \<open>Selection\<close>

partial_function (option) nth_element_loop ::
    "('a \<Rightarrow> 'a \<Rightarrow> bool) \<Rightarrow> nat \<Rightarrow> nat \<Rightarrow> nat \<Rightarrow> 'a list \<Rightarrow> 'a list option" where
  "nth_element_loop lt n first last' a =
     (if 3 < last' - first then
        Option.bind (load a first) (\<lambda>x.
        Option.bind (load a (first + (last' - first) div 2)) (\<lambda>y.
        Option.bind (load a (last' - 1)) (\<lambda>z.
        Option.bind (unguarded_partition lt (median lt x y z) first last' a) (\<lambda>(cut, a).
          if cut \<le> n then nth_element_loop lt n cut last' a else nth_element_loop lt n first cut a))))
      else insertion_sort lt first last' a)"

definition nth_element :: "('a \<Rightarrow> 'a \<Rightarrow> bool) \<Rightarrow> nat \<Rightarrow> nat \<Rightarrow> nat \<Rightarrow> 'a list \<Rightarrow> 'a list option" where
  "nth_element lt first n last' a = nth_element_loop lt n first last' a"

end
