(* ===== verification/StlHeapLaws.thy ===== *)
theory StlHeapLaws
  imports StlHeap
begin

text \<open>
  What the heap operations do, from the laws of the comparison alone (locale \<open>strict_weak\<close>).  \<open>perm_range\<close>
  relates a block to one in which only a range has been permuted; \<open>heap_from\<close> is the heap with a part of
  its edges missing, \<open>holey\<close> the heap with a hole in it.
\<close>

section \<open>Permuting a range of a block\<close>

definition perm_range :: "nat \<Rightarrow> nat \<Rightarrow> 'a list \<Rightarrow> 'a list \<Rightarrow> bool" where
  "perm_range lo hi a b \<longleftrightarrow> length b = length a \<and> mset b = mset a \<and> (\<forall>i < length a. i < lo \<or> hi \<le> i \<longrightarrow> b ! i = a ! i)"

lemma perm_range_refl [simp, intro]: "perm_range lo hi a a"
  by (simp add: perm_range_def)

lemma perm_range_trans [trans]: "perm_range lo hi a b \<Longrightarrow> perm_range lo hi b c \<Longrightarrow> perm_range lo hi a c"
  by (auto simp: perm_range_def)

lemma perm_range_length: "perm_range lo hi a b \<Longrightarrow> length b = length a"
  by (simp add: perm_range_def)

lemma perm_range_mset: "perm_range lo hi a b \<Longrightarrow> mset b = mset a"
  by (simp add: perm_range_def)

lemma perm_range_other: "perm_range lo hi a b \<Longrightarrow> i < length a \<Longrightarrow> i < lo \<or> hi \<le> i \<Longrightarrow> b ! i = a ! i"
  unfolding perm_range_def by blast

lemma perm_range_mono: "perm_range lo hi a b \<Longrightarrow> lo' \<le> lo \<Longrightarrow> hi \<le> hi' \<Longrightarrow> perm_range lo' hi' a b"
  by (simp add: perm_range_def)

lemma mset_swap: "i < length a \<Longrightarrow> j < length a \<Longrightarrow> mset (a[i := a ! j, j := a ! i]) = mset a"
  by (metis mset_swap)

lemma perm_range_swap:
  "i < length a \<Longrightarrow> j < length a \<Longrightarrow> lo \<le> i \<Longrightarrow> i < hi \<Longrightarrow> lo \<le> j \<Longrightarrow> j < hi \<Longrightarrow> perm_range lo hi a (a[i := a ! j, j := a ! i])"
  by (auto simp: perm_range_def mset_swap nth_list_update)

definition segment :: "nat \<Rightarrow> nat \<Rightarrow> 'a list \<Rightarrow> 'a list" where
  "segment lo hi a = take (hi - lo) (drop lo a)"

lemma length_segment: "hi \<le> length a \<Longrightarrow> length (segment lo hi a) = hi - lo"
  by (simp add: segment_def)

lemma nth_segment: "lo + i < hi \<Longrightarrow> hi \<le> length a \<Longrightarrow> segment lo hi a ! i = a ! (lo + i)"
  by (simp add: segment_def)

lemma set_segment: "hi \<le> length a \<Longrightarrow> set (segment lo hi a) = (!) a ` {lo..<hi}"
proof -
  assume h: "hi \<le> length a"
  have "set (segment lo hi a) = (\<lambda>i. a ! (lo + i)) ` {0..<hi - lo}"
    using nth_image [of "hi - lo" "drop lo a"] h by (auto simp: segment_def)
  also have "\<dots> = (!) a ` {lo..<hi}"
  proof (cases "lo \<le> hi")
    case True
    then show ?thesis using image_add_atLeastLessThan [of lo 0 "hi - lo"] by (simp add: image_image flip: image_image)
  qed simp
  finally show ?thesis .
qed

lemma split_segment: "lo \<le> hi \<Longrightarrow> hi \<le> length a \<Longrightarrow> a = take lo a @ segment lo hi a @ drop hi a"
  using append_take_drop_id [of "hi - lo" "drop lo a"] by (simp add: segment_def)

lemma perm_range_segment:
  assumes p: "perm_range lo hi a b" and h: "hi \<le> length a"
  shows "mset (segment lo hi b) = mset (segment lo hi a)"
proof (cases "lo \<le> hi")
  case True
  have l: "length b = length a" using p by (rule perm_range_length)
  have t: "take lo b = take lo a" using p h True by (intro nth_take_lemma) (auto simp: perm_range_def)
  have d: "drop hi b = drop hi a" using p by (intro nth_equalityI) (auto simp: perm_range_def)
  have "mset (take lo b @ segment lo hi b @ drop hi b) = mset (take lo a @ segment lo hi a @ drop hi a)"
    using split_segment [OF True, of a] split_segment [OF True, of b] h l perm_range_mset [OF p] by metis
  then show ?thesis using t d by simp
qed (simp add: segment_def)

lemma perm_range_all:
  assumes p: "perm_range lo hi a b" and h: "hi \<le> length a" and q: "\<And>i. lo \<le> i \<Longrightarrow> i < hi \<Longrightarrow> Q (a ! i)"
    and i: "lo \<le> i" "i < hi"
  shows "Q (b ! i)"
proof -
  have "b ! i \<in> set (segment lo hi b)" using i h perm_range_length [OF p] by (simp add: set_segment)
  then have "b ! i \<in> set (segment lo hi a)" using perm_range_segment [OF p h] by (metis set_mset_mset)
  then show ?thesis using q h by (auto simp: set_segment)
qed

text \<open>The value that is put into a hole.\<close>

lemma mset_fill_move:
  assumes "h < length a" "c < length a" "h \<noteq> c"
  shows "mset (a[h := a ! c, c := v]) = mset (a[h := v])"
proof -
  have "mset ((a[h := v])[h := (a[h := v]) ! c, c := (a[h := v]) ! h]) = mset (a[h := v])"
    using assms by (intro mset_swap) simp_all
  then show ?thesis using assms by simp
qed

lemma perm_range_fill:
  assumes "h < length a" "c < length a" "h \<noteq> c" "lo \<le> h" "h < hi" "lo \<le> c" "c < hi"
  shows "perm_range lo hi (a[h := v]) (a[h := a ! c, c := v])"
  using assms mset_fill_move [OF assms(1-3), of v] by (auto simp: perm_range_def nth_list_update)

section \<open>Strict weak orderings\<close>

locale strict_weak =
  fixes lt :: "'a \<Rightarrow> 'a \<Rightarrow> bool"
  assumes asym: "lt x y \<Longrightarrow> \<not> lt y x"
    and not_less_trans: "\<not> lt x y \<Longrightarrow> \<not> lt y z \<Longrightarrow> \<not> lt x z"
begin

abbreviation le :: "'a \<Rightarrow> 'a \<Rightarrow> bool" where "le x y \<equiv> \<not> lt y x"

lemma le_refl [simp]: "le x x"
  using asym by blast

lemma le_trans: "le x y \<Longrightarrow> le y z \<Longrightarrow> le x z"
  using not_less_trans by blast

lemma less_le: "lt x y \<Longrightarrow> le x y"
  using asym by blast

lemma le_less_trans: "le x y \<Longrightarrow> lt y z \<Longrightarrow> lt x z"
  using not_less_trans by blast

lemma less_le_trans: "lt x y \<Longrightarrow> le y z \<Longrightarrow> lt x z"
  using not_less_trans by blast

end

section \<open>Heaps\<close>

text \<open>The elements from \<open>f\<close> on.\<close>

definition elem :: "nat \<Rightarrow> 'a list \<Rightarrow> nat \<Rightarrow> 'a" where
  "elem f a i = a ! (f + i)"

lemma elem_update: "f + h < length a \<Longrightarrow> elem f (a[f + h := x]) = (elem f a)(h := x)"
  by (auto simp: elem_def)

context strict_weak begin

definition heap_from :: "nat \<Rightarrow> nat \<Rightarrow> (nat \<Rightarrow> 'a) \<Rightarrow> bool" where
  "heap_from n k g \<longleftrightarrow> (\<forall>i < n. 0 < i \<longrightarrow> k \<le> par i \<longrightarrow> le (g i) (g (par i)))"

definition holey :: "nat \<Rightarrow> nat \<Rightarrow> nat \<Rightarrow> (nat \<Rightarrow> 'a) \<Rightarrow> bool" where
  "holey n k h g \<longleftrightarrow>
     (\<forall>i < n. 0 < i \<longrightarrow> k \<le> par i \<longrightarrow> i \<noteq> h \<longrightarrow> par i \<noteq> h \<longrightarrow> le (g i) (g (par i))) \<and>
     (\<forall>i < n. 0 < i \<longrightarrow> par i = h \<longrightarrow> k < h \<longrightarrow> le (g i) (g (par h)))"

text \<open>The nodes below \<open>k\<close>.\<close>

inductive below :: "nat \<Rightarrow> nat \<Rightarrow> bool" for k where
  below_refl: "below k k"
| below_child: "below k (par c) \<Longrightarrow> 0 < c \<Longrightarrow> below k c"

lemma below_ge: "below k h \<Longrightarrow> k \<le> h"
  by (induction rule: below.induct) auto

lemma below_par: "below k h \<Longrightarrow> k < h \<Longrightarrow> below k (par h) \<and> k \<le> par h \<and> par h < h"
  by (cases rule: below.cases) (auto dest: below_ge)

lemma holey_edge: "holey n k h g \<Longrightarrow> i < n \<Longrightarrow> 0 < i \<Longrightarrow> k \<le> par i \<Longrightarrow> i \<noteq> h \<Longrightarrow> par i \<noteq> h \<Longrightarrow> le (g i) (g (par i))"
  and holey_bridge: "holey n k h g \<Longrightarrow> i < n \<Longrightarrow> 0 < i \<Longrightarrow> par i = h \<Longrightarrow> k < h \<Longrightarrow> le (g i) (g (par h))"
  unfolding holey_def by blast+

lemma par_less: "0 < i \<Longrightarrow> par i < i"
  by auto

text \<open>The hole moves to its parent, or to the largest of its children.\<close>

lemma holey_up:
  assumes g: "holey n k h g" and k: "k \<le> par h" "par h < h" "h < n" "k < par h \<Longrightarrow> k \<le> par (par h)"
  shows "holey n k (par h) (g(h := g (par h)))"
  unfolding holey_def
proof (intro conjI allI impI)
  let ?p = "par h"
  fix i assume i: "i < n" "0 < i"
  show "le ((g(h := g ?p)) i) ((g(h := g ?p)) (par i))" if "k \<le> par i" "i \<noteq> ?p" "par i \<noteq> ?p"
  proof (cases "par i = h")
    case True
    then have "i \<noteq> h" using par_less [OF i(2)] by simp
    then show ?thesis using True holey_bridge [OF g i True] k by auto
  next
    case False
    moreover have "i \<noteq> h" using that by blast
    ultimately show ?thesis using that holey_edge [OF g i] by simp
  qed
  show "le ((g(h := g ?p)) i) ((g(h := g ?p)) (par ?p))" if "par i = ?p" "k < ?p"
  proof -
    have "0 < ?p" using that by linarith
    then have p: "par ?p < ?p" "?p < n" "0 < ?p" using k par_less by (blast, linarith, blast)
    then have top: "le (g ?p) (g (par ?p))" using holey_edge [OF g, of ?p] k that by auto
    have "le (g i) (g ?p)" if "i \<noteq> h" using holey_edge [OF g i] that \<open>par i = ?p\<close> k by auto
    then have "le ((g(h := g ?p)) i) (g (par ?p))"
      using top le_trans [OF _ top] by (cases "i = h") simp_all
    moreover have "par ?p \<noteq> h" using p k by linarith
    ultimately show ?thesis by (metis fun_upd_other)
  qed
qed

lemma holey_down:
  assumes g: "holey n k h g" and c: "par c = h" "0 < c" "c < n" "k \<le> h"
    and max: "\<And>i. i < n \<Longrightarrow> 0 < i \<Longrightarrow> par i = h \<Longrightarrow> le (g i) (g c)"
  shows "holey n k c (g(h := g c))"
  unfolding holey_def
proof (intro conjI allI impI)
  fix i assume i: "i < n" "0 < i"
  have hc: "h < c" using c by auto
  show "le ((g(h := g c)) i) ((g(h := g c)) (par i))" if "k \<le> par i" "i \<noteq> c" "par i \<noteq> c"
  proof -
    consider "par i = h" | "i = h" "par i \<noteq> h" | "i \<noteq> h" "par i \<noteq> h" by blast
    then show ?thesis
    proof cases
      case 1
      then show ?thesis using max [OF i] par_less [OF i(2)] by auto
    next
      case 2
      then show ?thesis using holey_bridge [OF g c(3,2,1)] that par_less [OF i(2)] by auto
    next
      case 3
      then show ?thesis using holey_edge [OF g i] that by auto
    qed
  qed
  show "le ((g(h := g c)) i) ((g(h := g c)) (par c))" if "par i = c" "k < c"
  proof -
    have "i \<noteq> h" using that hc par_less [OF i(2)] by auto
    then show ?thesis using holey_edge [OF g i] that hc c by auto
  qed
qed

lemma holey_fill:
  assumes g: "holey n k h g" and children: "\<And>i. i < n \<Longrightarrow> 0 < i \<Longrightarrow> par i = h \<Longrightarrow> le (g i) val"
    and parent: "k < h \<Longrightarrow> le val (g (par h))"
  shows "heap_from n k (g(h := val))"
  unfolding heap_from_def
proof (intro allI impI)
  fix i assume i: "i < n" "0 < i" "k \<le> par i"
  consider "i = h" | "i \<noteq> h" "par i = h" | "i \<noteq> h" "par i \<noteq> h" by blast
  then show "le ((g(h := val)) i) ((g(h := val)) (par i))"
  proof cases
    case 1
    then show ?thesis using parent i par_less [OF i(2)] by simp
  next
    case 2
    then show ?thesis using children [OF i(1,2)] by simp
  next
    case 3
    then show ?thesis using holey_edge [OF g i] by simp
  qed
qed

lemma push_up_correct:
  assumes "below k h" "h < n" "f + n \<le> length a" "holey n k h (elem f a)"
    "\<forall>i < n. 0 < i \<longrightarrow> par i = h \<longrightarrow> le (elem f a i) val"
  shows "\<exists>b. push_up lt f h k val a = Some b \<and> perm_range f (f + n) (a[f + h := val]) b \<and> heap_from n k (elem f b)"
  using assms
proof (induction h arbitrary: a rule: less_induct)
  case (less h)
  let ?g = "elem f a"
  show ?case
  proof (cases "k < h \<and> lt (?g (par h)) val")
    case True
    then have p: "below k (par h)" "k \<le> par h" "par h < h" using less.prems(1) below_par by auto
    let ?a = "a[f + h := ?g (par h)]"
    have g: "elem f ?a = ?g(h := ?g (par h))" using less.prems by (intro elem_update) simp
    have "\<forall>i < n. 0 < i \<longrightarrow> par i = par h \<longrightarrow> le (elem f ?a i) val"
    proof (intro allI impI)
      fix i assume i: "i < n" "0 < i" "par i = par h"
      have "le (elem f ?a i) (?g (par h))"
        using less.prems(4) i p(2,3) unfolding g by (auto simp: holey_def)
      then show "le (elem f ?a i) val" using True le_less_trans less_le by blast
    qed
    moreover have "holey n k (par h) (elem f ?a)" 
      unfolding g using less.prems p below_par [OF p(1)] by (intro holey_up) auto
    ultimately obtain b where b: "push_up lt f (par h) k val ?a = Some b"
      "perm_range f (f + n) (?a[f + par h := val]) b" "heap_from n k (elem f b)"
      using less.IH [OF p(3,1), of ?a] less.prems p by auto
    moreover have "perm_range f (f + n) (a[f + h := val]) (?a[f + par h := val])"
      unfolding elem_def using p less.prems by (intro perm_range_fill) auto
    ultimately show ?thesis
      using True less.prems p by (subst push_up.simps) (auto simp: elem_def intro: perm_range_trans)
  next
    case False
    have "push_up lt f h k val a = Some (a[f + h := val])"
      using False less.prems by (subst push_up.simps) (auto simp: elem_def)
    moreover have "heap_from n k (elem f (a[f + h := val]))"
      using False less.prems holey_fill [OF less.prems(4), of val] by (subst elem_update) auto
    ultimately show ?thesis by auto
  qed
qed

lemma walk_down_correct:
  assumes "below k h" "h < n" "f + n \<le> length a" "holey n k h (elem f a)"
  shows "\<exists>b h'. walk_down lt f h (2 * h + 2) n a = Some (b, h', 2 * h' + 2) \<and> below k h' \<and> h' < n \<and> n \<le> 2 * h' + 2 \<and>
    (\<forall>v. perm_range f (f + n) (a[f + h := v]) (b[f + h' := v])) \<and> holey n k h' (elem f b)"
  using assms
proof (induction "n - h" arbitrary: h a rule: less_induct)
  case less
  let ?g = "elem f a"
  show ?case
  proof (cases "2 * h + 2 < n")
    case True
    define c where "c = (if lt (?g (2 * h + 2)) (?g (2 * h + 1)) then 2 * h + 1 else 2 * h + 2)"
    have c: "par c = h" "0 < c" "c < n" "h < c" using True by (auto simp: c_def)
    let ?a = "a[f + h := ?g c]"
    have "le (?g i) (?g c)" if "i < n" "0 < i" "par i = h" for i
    proof -
      have "i = 2 * h + 1 \<or> i = 2 * h + 2" using that by presburger
      then show ?thesis by (auto simp: c_def less_le)
    qed
    then have "holey n k c (elem f ?a)"
      using less.prems c below_ge [OF less.prems(1)] holey_down [of n k h ?g c] by (simp add: elem_update)
    moreover have "below k c" using c less.prems(1) by (auto intro: below_child)
    moreover have "n - c < n - h" "f + n \<le> length ?a" using c less.prems by simp_all
    ultimately obtain b h' where b: "walk_down lt f c (2 * c + 2) n ?a = Some (b, h', 2 * h' + 2)" "below k h'" "h' < n"
      "n \<le> 2 * h' + 2" "\<forall>v. perm_range f (f + n) (?a[f + c := v]) (b[f + h' := v])" "holey n k h' (elem f b)"
      using less.hyps [of c ?a] c(3) by blast
    have "perm_range f (f + n) (a[f + h := v]) (?a[f + c := v])" for v
      unfolding elem_def using c less.prems by (intro perm_range_fill) auto
    then have "\<forall>v. perm_range f (f + n) (a[f + h := v]) (b[f + h' := v])" using b(5) perm_range_trans by blast
    moreover have "walk_down lt f h (2 * h + 2) n a = walk_down lt f c (2 * c + 2) n ?a"
      using True less.prems by (subst walk_down.simps) (auto simp: c_def elem_def)
    ultimately show ?thesis using b by auto
  next
    case False
    then have "walk_down lt f h (2 * h + 2) n a = Some (a, h, 2 * h + 2)" by (subst walk_down.simps) simp
    then show ?thesis using False less.prems by auto
  qed
qed

lemma adjust_heap_correct:
  assumes "h < n" "f + n \<le> length a" "heap_from n (Suc h) (elem f a)"
  shows "\<exists>b. adjust_heap lt f h n val a = Some b \<and> perm_range f (f + n) (a[f + h := val]) b \<and> heap_from n h (elem f b)"
proof -
  have "holey n h h (elem f a)" using assms(3) by (auto simp: holey_def heap_from_def)
  then obtain b h' where b: "walk_down lt f h (2 * h + 2) n a = Some (b, h', 2 * h' + 2)" "below h h'" "h' < n" "n \<le> 2 * h' + 2"
    "\<forall>v. perm_range f (f + n) (a[f + h := v]) (b[f + h' := v])" "holey n h h' (elem f b)"
    using walk_down_correct [OF below_refl assms(1,2)] by blast
  have len: "f + n \<le> length b" using b(5) assms(2) by (metis length_list_update perm_range_length)
  show ?thesis
  proof (cases "2 * h' + 2 = n")
    case True
    let ?c = "2 * h' + 1" and ?b = "b[f + h' := elem f b (2 * h' + 1)]"
    have c: "par ?c = h'" "0 < ?c" "?c < n" using True by auto
    have "i = ?c" if "i < n" "0 < i" "par i = h'" for i using that True by presburger
    then have "holey n h ?c (elem f ?b)"
      using holey_down [OF b(6) c(1,2,3) below_ge [OF b(2)]] b(3) len by (simp add: elem_update)
    moreover have "below h ?c" using c b(2) by (auto intro: below_child)
    moreover have "par i \<noteq> ?c" if "i < n" for i using that True by presburger
    ultimately obtain d where d: "push_up lt f ?c h val ?b = Some d" "perm_range f (f + n) (?b[f + ?c := val]) d" "heap_from n h (elem f d)"
      using push_up_correct [of h ?c n f ?b val] c(3) len by auto
    have "perm_range f (f + n) (b[f + h' := val]) (?b[f + ?c := val])"
      unfolding elem_def using c(3) b(3) len by (intro perm_range_fill) auto
    then have "perm_range f (f + n) (a[f + h := val]) d" using b(5) d(2) perm_range_trans by blast
    moreover have "adjust_heap lt f h n val a = Some d"
      using b(1,3) d(1) len c(3) unfolding True [symmetric] by (simp add: adjust_heap_def elem_def)
    ultimately show ?thesis using d(3) by blast
  next
    case False
    have "par i \<noteq> h'" if "i < n" "0 < i" for i using that False b(4) by presburger
    then obtain d where "push_up lt f h' h val b = Some d" "perm_range f (f + n) (b[f + h' := val]) d" "heap_from n h (elem f d)"
      using push_up_correct [OF b(2,3) len b(6), of val] by auto
    moreover have "adjust_heap lt f h n val a = push_up lt f h' h val b" using b(1) False by (simp add: adjust_heap_def)
    ultimately show ?thesis using b(5) perm_range_trans by metis
  qed
qed


lemma below_zero: "below 0 h"
proof (induction h rule: less_induct)
  case (less h)
  then show ?case using par_less by (cases "h = 0") (auto intro: below_refl below_child)
qed

lemma heap_max: "heap_from n 0 g \<Longrightarrow> i < n \<Longrightarrow> le (g i) (g 0)"
proof (induction i rule: less_induct)
  case (less i)
  show ?case
  proof (cases "i = 0")
    case False
    then have "le (g i) (g (par i))" "le (g (par i)) (g 0)"
      using less par_less [of i] by (auto simp: heap_from_def)
    then show ?thesis using le_trans by blast
  qed simp
qed

lemma push_heap_correct:
  assumes "f < l" "l \<le> length a" "heap_from (l - f - 1) 0 (elem f a)"
  shows "\<exists>b. push_heap lt f l a = Some b \<and> perm_range f l a b \<and> heap_from (l - f) 0 (elem f b)"
proof -
  let ?h = "l - f - 1"
  have l: "f + ?h = l - 1" "f + (l - f) = l" "?h < l - f" "l - 1 < length a" using assms by auto
  have "le (elem f a i) (elem f a (par i))" if "i < l - f" "0 < i" "i \<noteq> ?h" for i
    using assms(3) that by (auto simp: heap_from_def)
  moreover have no_child: "par i \<noteq> ?h" if "i < l - f" "0 < i" for i using par_less [OF that(2)] that by linarith
  ultimately have "holey (l - f) 0 ?h (elem f a)" unfolding holey_def by blast
  then obtain b where "push_up lt f ?h 0 (a ! (l - 1)) a = Some b"
    "perm_range f (f + (l - f)) (a[f + ?h := a ! (l - 1)]) b" "heap_from (l - f) 0 (elem f b)"
    using push_up_correct [OF below_zero, of ?h "l - f" f a "a ! (l - 1)"] l assms no_child by auto
  then show ?thesis unfolding l using l by (simp add: push_heap_def)
qed

lemma make_heap_loop_correct:
  assumes "p < n" "f + n \<le> length a" "heap_from n (Suc p) (elem f a)"
  shows "\<exists>b. make_heap_loop lt f n p a = Some b \<and> perm_range f (f + n) a b \<and> heap_from n 0 (elem f b)"
  using assms
proof (induction p arbitrary: a)
  case 0
  then show ?case using adjust_heap_correct [OF 0, of "a ! (f + 0)"] by auto
next
  case (Suc p)
  obtain b where b: "adjust_heap lt f (Suc p) n (a ! (f + Suc p)) a = Some b"
    "perm_range f (f + n) a b" "heap_from n (Suc p) (elem f b)"
    using adjust_heap_correct [OF Suc.prems, of "a ! (f + Suc p)"] by auto
  obtain c where "make_heap_loop lt f n p b = Some c" "perm_range f (f + n) b c" "heap_from n 0 (elem f c)"
    using Suc.IH [of b] Suc.prems b perm_range_length [OF b(2)] by auto
  then show ?case using b Suc.prems perm_range_trans [OF b(2)] by auto
qed

lemma make_heap_correct:
  assumes "f \<le> l" "l \<le> length a"
  shows "\<exists>b. make_heap lt f l a = Some b \<and> perm_range f l a b \<and> heap_from (l - f) 0 (elem f b)"
proof (cases "l - f < 2")
  case True
  then show ?thesis by (auto simp: make_heap_def heap_from_def)
next
  case False
  let ?n = "l - f"
  have "heap_from ?n (Suc ((?n - 2) div 2)) (elem f a)" unfolding heap_from_def using False by auto
  moreover have "(?n - 2) div 2 < ?n" "f + ?n \<le> length a" "f + ?n = l" using False assms by auto
  ultimately obtain b where "make_heap_loop lt f ?n ((?n - 2) div 2) a = Some b" "perm_range f l a b" "heap_from ?n 0 (elem f b)"
    using make_heap_loop_correct [of "(?n - 2) div 2" ?n f a] by metis
  then show ?thesis using False assms by (simp add: make_heap_def)
qed

lemma pop_heap_to_correct:
  assumes "f < m" "m \<le> i" "i < length a" "heap_from (m - f) 0 (elem f a)"
  shows "\<exists>b. pop_heap_to lt f m i (a ! i) a = Some b \<and> perm_range f m (a[i := a ! f, f := a ! i]) b \<and> heap_from (m - f) 0 (elem f b)"
proof -
  let ?a = "a[i := a ! f]"
  have "elem f ?a j = elem f a j" if "j < m - f" for j using that assms by (auto simp: elem_def)
  then have "heap_from (m - f) (Suc 0) (elem f ?a)" using assms(4) by (auto simp: heap_from_def)
  then obtain b where "adjust_heap lt f 0 (m - f) (a ! i) ?a = Some b" "perm_range f (f + (m - f)) (?a[f + 0 := a ! i]) b"
    "heap_from (m - f) 0 (elem f b)"
    using adjust_heap_correct [of 0 "m - f" f ?a "a ! i"] assms by auto
  then show ?thesis using assms by (simp add: pop_heap_to_def)
qed

end

section \<open>Sorted ranges\<close>

definition sorted_range :: "('a \<Rightarrow> 'a \<Rightarrow> bool) \<Rightarrow> nat \<Rightarrow> nat \<Rightarrow> 'a list \<Rightarrow> bool" where
  "sorted_range lt lo hi a \<longleftrightarrow> (\<forall>i j. lo \<le> i \<longrightarrow> i < j \<longrightarrow> j < hi \<longrightarrow> \<not> lt (a ! j) (a ! i))"

lemma sorted_range_single: "hi \<le> Suc lo \<Longrightarrow> sorted_range lt lo hi a"
  by (auto simp: sorted_range_def)

context strict_weak begin

lemma pop_heap_correct:
  assumes "f + 1 < l" "l \<le> length a" "heap_from (l - f) 0 (elem f a)"
  shows "\<exists>b. pop_heap lt f l a = Some b \<and> perm_range f l a b \<and> heap_from (l - 1 - f) 0 (elem f b) \<and> b ! (l - 1) = a ! f
    \<and> (\<forall>i. f \<le> i \<longrightarrow> i < l - 1 \<longrightarrow> le (b ! i) (a ! f))"
proof -
  let ?s = "a[l - 1 := a ! f, f := a ! (l - 1)]"
  have max: "le (a ! i) (a ! f)" if "f \<le> i" "i < l" for i
    using heap_max [OF assms(3), of "i - f"] that by (auto simp: elem_def)
  have "heap_from (l - 1 - f) 0 (elem f a)" using assms(3) by (auto simp: heap_from_def)
  moreover have "f < l - 1" "l - 1 < length a" using assms by auto
  ultimately obtain b where b: "pop_heap_to lt f (l - 1) (l - 1) (a ! (l - 1)) a = Some b" "perm_range f (l - 1) ?s b"
    "heap_from (l - 1 - f) 0 (elem f b)"
    using pop_heap_to_correct [of f "l - 1" "l - 1" a] by blast
  have len: "length b = length a" using b(2) by (simp add: perm_range_def)
  have "perm_range f l a ?s"
    using perm_range_swap [of "l - 1" a f f l] assms by auto
  then have "perm_range f l a b" using perm_range_mono [OF b(2), of f l] perm_range_trans by auto
  moreover have "b ! (l - 1) = a ! f" using perm_range_other [OF b(2), of "l - 1"] assms by auto
  moreover have "le (b ! i) (a ! f)" if "f \<le> i" "i < l - 1" for i
    by (rule perm_range_all [OF b(2) _ _ that, where Q = "\<lambda>x. le x (a ! f)"]) (use max assms in \<open>auto simp: nth_list_update\<close>)
  ultimately show ?thesis using b assms by (simp add: pop_heap_def)
qed

lemma pop_heap_single: "f < length a \<Longrightarrow> pop_heap lt f (Suc f) a = Some a"
  by (simp add: pop_heap_def pop_heap_to_def adjust_heap_def walk_down.simps push_up.simps)

lemma pop_heap_greatest:
  assumes "f < l" "l \<le> length a" "heap_from (l - f) 0 (elem f a)"
  shows "\<exists>b. pop_heap lt f l a = Some b \<and> perm_range f l a b \<and> heap_from (l - 1 - f) 0 (elem f b)
    \<and> (\<forall>i. f \<le> i \<longrightarrow> i < l \<longrightarrow> le (b ! i) (b ! (l - 1)))"
proof (cases "l = Suc f")
  case True
  have "\<forall>i. f \<le> i \<longrightarrow> i < l \<longrightarrow> le (a ! i) (a ! (l - 1))" using True by (auto simp: less_Suc_eq_le dest: order.antisym)
  then show ?thesis using True assms pop_heap_single [of f a] by (auto simp: heap_from_def)
next
  case False
  then obtain b where b: "pop_heap lt f l a = Some b" "perm_range f l a b" "heap_from (l - 1 - f) 0 (elem f b)" "b ! (l - 1) = a ! f"
    "\<forall>i. f \<le> i \<longrightarrow> i < l - 1 \<longrightarrow> le (b ! i) (a ! f)"
    using pop_heap_correct [of f l a] assms by auto
  have "le (b ! i) (b ! (l - 1))" if "f \<le> i" "i < l" for i
    using b(4,5) that by (cases "i = l - 1") auto
  then show ?thesis using b by blast
qed

lemma sort_heap_correct:
  assumes "l \<le> length a" "heap_from (l - f) 0 (elem f a)"
  shows "\<exists>b. sort_heap lt f l a = Some b \<and> perm_range f l a b \<and> sorted_range lt f l b"
  using assms
proof (induction l arbitrary: a)
  case 0
  then show ?case by (subst sort_heap.simps) (simp add: sorted_range_single)
next
  case (Suc l)
  show ?case
  proof (cases "f < l")
    case True
    then obtain b where b: "pop_heap lt f (Suc l) a = Some b" "perm_range f (Suc l) a b" "heap_from (l - f) 0 (elem f b)"
      "b ! l = a ! f" "\<forall>i. f \<le> i \<longrightarrow> i < l \<longrightarrow> le (b ! i) (a ! f)"
      using pop_heap_correct [of f "Suc l" a] Suc.prems by auto
    have len: "length b = length a" using b(2) by (rule perm_range_length)
    obtain c where c: "sort_heap lt f l b = Some c" "perm_range f l b c" "sorted_range lt f l c"
      using Suc.IH [OF _ b(3)] Suc.prems len by auto
    have "c ! l = a ! f" using perm_range_other [OF c(2), of l] b(4) Suc.prems len by simp
    moreover have "le (c ! i) (a ! f)" if "f \<le> i" "i < l" for i
      by (rule perm_range_all [OF c(2) _ _ that, where Q = "\<lambda>x. le x (a ! f)"]) (use b(5) Suc.prems len in auto)
    ultimately have "sorted_range lt f (Suc l) c" using c(3) by (auto simp: sorted_range_def less_Suc_eq)
    moreover have "perm_range f (Suc l) a c" using b(2) perm_range_mono [OF c(2), of f "Suc l"] perm_range_trans by auto
    moreover have "sort_heap lt f (Suc l) a = Some c" 
    proof -
      have "1 < Suc l - f" using True by simp
      then show ?thesis using b(1) c(1) by (subst sort_heap.simps) simp
    qed
    ultimately show ?thesis by blast
  next
    case False
    then have "\<not> 1 < Suc l - f" by simp
    then have "sort_heap lt f (Suc l) a = Some a" by (subst sort_heap.simps) simp
    then show ?thesis using False by (auto simp: sorted_range_single)
  qed
qed

lemma is_heap_loop_correct:
  assumes "f + n \<le> length a" "0 < i"
  shows "is_heap_loop lt f (par i) i n a = Some (\<forall>j < n. i \<le> j \<longrightarrow> le (elem f a j) (elem f a (par j)))"
  using assms(2)
proof (induction "n - i" arbitrary: i)
  case 0
  then show ?case by (subst is_heap_loop.simps) auto
next
  case (Suc k)
  then have i: "i < n" "k = n - Suc i" by simp_all
  have next_parent: "(if even i then par i + 1 else par i) = par (Suc i)" using Suc.prems by presburger
  have pi: "par i < i" using par_less [OF Suc.prems] .
  have "is_heap_loop lt f (par i) i n a =
    (if lt (elem f a (par i)) (elem f a i) then Some False else is_heap_loop lt f (par (Suc i)) (Suc i) n a)"
    using i pi assms(1) unfolding next_parent [symmetric] by (subst is_heap_loop.simps) (simp add: elem_def)
  also have "\<dots> = Some (\<forall>j < n. i \<le> j \<longrightarrow> le (elem f a j) (elem f a (par j)))"
  proof -
    have "(\<forall>j < n. i \<le> j \<longrightarrow> P j) \<longleftrightarrow> P i \<and> (\<forall>j < n. Suc i \<le> j \<longrightarrow> P j)" for P
      using i by (metis Suc_le_eq le_eq_less_or_eq)
    from this [of "\<lambda>j. le (elem f a j) (elem f a (par j))"] show ?thesis using Suc.hyps(1) [OF i(2)] by simp
  qed
  finally show ?case .
qed

lemma is_heap_correct:
  assumes "l \<le> length a" "f \<le> l"
  shows "is_heap lt f l a = Some (heap_from (l - f) 0 (elem f a))"
proof -
  have "is_heap lt f l a = Some (\<forall>j < l - f. 1 \<le> j \<longrightarrow> le (elem f a j) (elem f a (par j)))"
    using is_heap_loop_correct [of f "l - f" a 1] assms by (simp add: is_heap_def)
  also have "(\<forall>j < l - f. 1 \<le> j \<longrightarrow> le (elem f a j) (elem f a (par j))) \<longleftrightarrow> heap_from (l - f) 0 (elem f a)"
    by (auto simp: heap_from_def Suc_le_eq)
  finally show ?thesis .
qed

section \<open>Partial sorting\<close>

text \<open>After \<open>i\<close> elements the heap holds the smallest of them.\<close>

definition smallest_heap :: "nat \<Rightarrow> nat \<Rightarrow> nat \<Rightarrow> 'a list \<Rightarrow> bool" where
  "smallest_heap f m i a \<longleftrightarrow> heap_from (m - f) 0 (elem f a) \<and> (\<forall>j k. f \<le> j \<longrightarrow> j < m \<longrightarrow> m \<le> k \<longrightarrow> k < i \<longrightarrow> le (a ! j) (a ! k))"

lemma heap_first: "heap_from (m - f) 0 (elem f a) \<Longrightarrow> f \<le> j \<Longrightarrow> j < m \<Longrightarrow> le (a ! j) (a ! f)"
  using heap_max [of "m - f" "elem f a" "j - f"] by (simp add: elem_def)

lemma smallest_heap_step:
  assumes a: "smallest_heap f m i a" and m: "f \<le> m" "m \<le> i" "i < length a"
  shows "\<exists>b. (if lt (a ! i) (a ! f) then pop_heap_to lt f m i (a ! i) a else Some a) = Some b
    \<and> perm_range f (Suc i) a b \<and> smallest_heap f m (Suc i) b"
proof -
  have h: "heap_from (m - f) 0 (elem f a)" and s: "le (a ! j) (a ! k)" if "f \<le> j" "j < m" "m \<le> k" "k < i" for j k
    using a that unfolding smallest_heap_def by blast+
  have first: "le (a ! j) (a ! f)" if "f \<le> j" "j < m" for j using a heap_first that unfolding smallest_heap_def by blast
  let ?s = "a[i := a ! f, f := a ! i]"
  have swap: "perm_range f (Suc i) a ?s" using perm_range_swap [of i a f f "Suc i"] m by auto
  consider "le (a ! f) (a ! i)" | "lt (a ! i) (a ! f)" "f = m" | "lt (a ! i) (a ! f)" "f < m" using m by fastforce
  then show ?thesis
  proof cases
    case 1
    then have "le (a ! j) (a ! i)" if "f \<le> j" "j < m" for j using first [OF that] le_trans by blast
    then show ?thesis using a 1 unfolding smallest_heap_def by (auto simp: less_Suc_eq)
  next
    case 2
    then have "pop_heap_to lt f m i (a ! i) a = Some ?s"
      using m by (simp add: pop_heap_to_def adjust_heap_def walk_down.simps push_up.simps)
    moreover have "smallest_heap f m (Suc i) ?s" using 2 by (auto simp: smallest_heap_def heap_from_def)
    ultimately show ?thesis using 2 swap by simp
  next
    case 3
    obtain b where b: "pop_heap_to lt f m i (a ! i) a = Some b" "perm_range f m ?s b" "heap_from (m - f) 0 (elem f b)"
      using pop_heap_to_correct [OF 3(2) m(2,3)] a unfolding smallest_heap_def by blast
    have "le (b ! j) (b ! k)" if j: "f \<le> j" "j < m" and k: "m \<le> k" "k < Suc i" for j k
    proof -
      have bk: "b ! k = (if k = i then a ! f else a ! k)"
        using perm_range_other [OF b(2), of k] m k 3(2) by (auto simp: nth_list_update)
      have "le (?s ! j') (b ! k)" if j': "f \<le> j'" "j' < m" for j'
      proof (cases "k = i")
        case True
        then show ?thesis using first [OF j'] bk 3 less_le [OF 3(1)] m j' by (auto simp: nth_list_update)
      next
        case False
        then have "k < i" using k by simp
        then have "le (a ! j') (a ! k)" "le (a ! i) (a ! k)"
          using s [OF _ _ k(1)] j' 3 le_trans less_le by (blast, meson order.refl)
        then show ?thesis using False bk 3 m j' by (auto simp: nth_list_update)
      qed
      then show ?thesis using m by (intro perm_range_all [OF b(2) _ _ j, where Q = "\<lambda>x. le x (b ! k)"]) auto
    qed
    moreover have "perm_range f (Suc i) a b" using swap perm_range_mono [OF b(2), of f "Suc i"] m by (auto intro: perm_range_trans)
    ultimately show ?thesis using 3 b unfolding smallest_heap_def by auto
  qed
qed

lemma partial_loop_correct:
  assumes "smallest_heap f m i a" "f \<le> m" "m \<le> i" "i \<le> l" "l \<le> length a"
  shows "\<exists>b. partial_loop lt f m i l a = Some b \<and> perm_range f l a b \<and> smallest_heap f m l b"
  using assms
proof (induction "l - i" arbitrary: i a)
  case 0
  then show ?case by (subst partial_loop.simps) auto
next
  case (Suc k)
  then have i: "i < l" "k = l - Suc i" "i < length a" "f < length a" by simp_all
  obtain b where b: "(if lt (a ! i) (a ! f) then pop_heap_to lt f m i (a ! i) a else Some a) = Some b"
    "perm_range f (Suc i) a b" "smallest_heap f m (Suc i) b"
    using smallest_heap_step [OF Suc.prems(1-3) i(3)] by blast
  have "l \<le> length b" using perm_range_length [OF b(2)] Suc.prems by simp
  then obtain c where c: "partial_loop lt f m (Suc i) l b = Some c" "perm_range f l b c" "smallest_heap f m l c"
    using Suc.hyps(1) [OF i(2) b(3)] Suc.prems i by auto
  have "partial_loop lt f m i l a = Some c"
    using i b(1) c(1) by (subst partial_loop.simps) simp
  moreover have "perm_range f l a c" using perm_range_mono [OF b(2), of f l] c(2) i perm_range_trans by auto
  ultimately show ?case using c(3) by blast
qed

lemma partial_sort_correct:
  assumes "f \<le> m" "m \<le> l" "l \<le> length a"
  shows "\<exists>b. partial_sort lt f m l a = Some b \<and> perm_range f l a b \<and> sorted_range lt f m b
    \<and> (\<forall>j k. f \<le> j \<longrightarrow> j < m \<longrightarrow> m \<le> k \<longrightarrow> k < l \<longrightarrow> le (b ! j) (b ! k))"
proof -
  obtain b where b: "make_heap lt f m a = Some b" "perm_range f m a b" "heap_from (m - f) 0 (elem f b)"
    using make_heap_correct [of f m a] assms by auto
  then have "smallest_heap f m m b" by (simp add: smallest_heap_def)
  then obtain c where c: "partial_loop lt f m m l b = Some c" "perm_range f l b c" "smallest_heap f m l c"
    using partial_loop_correct [of f m m b l] assms perm_range_length [OF b(2)] by auto
  have len: "l \<le> length c" using assms perm_range_length [OF b(2)] perm_range_length [OF c(2)] by simp
  then obtain d where d: "sort_heap lt f m c = Some d" "perm_range f m c d" "sorted_range lt f m d"
    using sort_heap_correct [of m c f] c(3) assms by (auto simp: smallest_heap_def)
  have "le (d ! j) (d ! k)" if "f \<le> j" "j < m" "m \<le> k" "k < l" for j k
  proof -
    have "d ! k = c ! k" using perm_range_other [OF d(2), of k] that len by simp
    moreover have "le (d ! j) (c ! k)"
      by (rule perm_range_all [OF d(2) _ _ that(1,2), where Q = "\<lambda>x. le x (c ! k)"])
        (use c(3) that len in \<open>auto simp: smallest_heap_def\<close>)
    ultimately show ?thesis by simp
  qed
  moreover have "partial_sort lt f m l a = Some d" using b c d by (simp add: partial_sort_def)
  moreover have "perm_range f l a d"
    using perm_range_mono [OF b(2), of f l] c(2) perm_range_mono [OF d(2), of f l] assms by (auto intro: perm_range_trans)
  ultimately show ?thesis using d(3) by blast
qed

end

text \<open>Copying: \<open>outside\<close> says that nothing but the range has changed.\<close>

definition outside :: "nat \<Rightarrow> nat \<Rightarrow> 'a list \<Rightarrow> 'a list \<Rightarrow> bool" where
  "outside lo hi a b \<longleftrightarrow> length b = length a \<and> (\<forall>i < length a. i < lo \<or> hi \<le> i \<longrightarrow> b ! i = a ! i)"

lemma outside_trans: "outside lo hi a b \<Longrightarrow> outside lo hi b c \<Longrightarrow> outside lo hi a c"
  by (auto simp: outside_def)

lemma perm_range_outside: "perm_range lo hi a b \<Longrightarrow> outside lo hi a b"
  by (auto simp: perm_range_def outside_def)

lemma segment_Suc: "lo < hi \<Longrightarrow> hi \<le> length a \<Longrightarrow> segment lo hi a = a ! lo # segment (Suc lo) hi a"
  by (simp add: segment_def Cons_nth_drop_Suc [symmetric] Suc_diff_Suc take_Cons')

lemma segment_update_below: "i < lo \<Longrightarrow> segment lo hi (a[i := x]) = segment lo hi a"
  by (simp add: segment_def)

lemma mset_segment_update: "lo < hi \<Longrightarrow> hi \<le> length a \<Longrightarrow>
    add_mset (a ! lo) (mset (segment lo hi (a[lo := x]))) = add_mset x (mset (segment lo hi a))"
  by (simp add: segment_Suc [of lo hi "a[lo := x]"] segment_Suc [of lo hi a] segment_update_below)

lemma copy_some_correct:
  assumes "r \<le> l" "l \<le> length a"
  shows "\<exists>b. copy_some xs r l a = Some (drop (l - r) xs, r + min (length xs) (l - r), b)
    \<and> outside r l a b \<and> segment r (r + min (length xs) (l - r)) b = take (l - r) xs"
  using assms
proof (induction xs arbitrary: r a)
  case Nil
  then show ?case by (auto simp: outside_def segment_def)
next
  case (Cons x xs)
  show ?case
  proof (cases "r = l")
    case True
    then show ?thesis by (auto simp: outside_def segment_def)
  next
    case False
    then have r: "Suc r \<le> l" "l \<le> length (a[r := x])" "r < length a" using Cons.prems by auto
    let ?n = "min (length xs) (l - Suc r)"
    obtain b where b: "copy_some xs (Suc r) l (a[r := x]) = Some (drop (l - Suc r) xs, Suc r + ?n, b)"
      "outside (Suc r) l (a[r := x]) b" "segment (Suc r) (Suc r + ?n) b = take (l - Suc r) xs"
      using Cons.IH [OF r(1,2)] by blast
    have len: "length b = length a" and br: "b ! r = x" using b(2) r by (auto simp: outside_def)
    have n: "min (length (x # xs)) (l - r) = Suc ?n" "l - r = Suc (l - Suc r)" using r by auto
    have "segment r (r + Suc ?n) b = take (l - r) (x # xs)"
      using segment_Suc [of r "r + Suc ?n" b] b(3) len r br n(2) by simp
    moreover have "outside r l a b" using b(2) r by (auto simp: outside_def nth_list_update)
    ultimately show ?thesis using b(1) False r n by simp
  qed
qed

context strict_weak begin

lemma replace_larger_correct:
  assumes "heap_from (m - f) 0 (elem f a)" "f < m" "m \<le> length a" "\<forall>d \<in># D. \<forall>j. f \<le> j \<longrightarrow> j < m \<longrightarrow> le (a ! j) d"
  shows "\<exists>b D'. replace_larger lt xs f m a = Some b \<and> heap_from (m - f) 0 (elem f b) \<and> outside f m a b
    \<and> mset (segment f m b) + D' = mset (segment f m a) + D + mset xs \<and> (\<forall>d \<in># D'. \<forall>j. f \<le> j \<longrightarrow> j < m \<longrightarrow> le (b ! j) d)"
  using assms
proof (induction xs arbitrary: a D)
  case Nil
  then show ?case by (auto simp: outside_def)
next
  case (Cons x xs)
  have first: "le (a ! j) (a ! f)" if "f \<le> j" "j < m" for j using heap_first [OF Cons.prems(1) that] .
  show ?case
  proof (cases "lt x (a ! f)")
    case True
    have "heap_from (m - f) (Suc 0) (elem f a)" using Cons.prems(1) by (auto simp: heap_from_def)
    then obtain b where b: "adjust_heap lt f 0 (m - f) x a = Some b" "perm_range f m (a[f := x]) b" "heap_from (m - f) 0 (elem f b)"
      using adjust_heap_correct [of 0 "m - f" f a x] Cons.prems by auto
    have len: "length b = length a" using perm_range_length [OF b(2)] by simp
    have "le (b ! j) d" if d: "d \<in># add_mset (a ! f) D" and j: "f \<le> j" "j < m" for d j
    proof (rule perm_range_all [OF b(2) _ _ j, where Q = "\<lambda>y. le y d"])
      show "m \<le> length (a[f := x])" using Cons.prems by simp
      fix i assume i: "f \<le> i" "i < m"
      have "le (a ! f) d" using d Cons.prems by auto
      then have "le (a ! i) d" "le x d" using first [OF i] less_le [OF True] le_trans by blast+
      then show "le (a[f := x] ! i) d" using i Cons.prems by (auto simp: nth_list_update)
    qed
    then obtain c D' where c: "replace_larger lt xs f m b = Some c" "heap_from (m - f) 0 (elem f c)" "outside f m b c"
      "mset (segment f m c) + D' = mset (segment f m b) + add_mset (a ! f) D + mset xs"
      "\<forall>d \<in># D'. \<forall>j. f \<le> j \<longrightarrow> j < m \<longrightarrow> le (c ! j) d"
      using Cons.IH [OF b(3) Cons.prems(2)] Cons.prems(3) len by metis
    have "mset (segment f m b) = mset (segment f m (a[f := x]))" using perm_range_segment [OF b(2)] Cons.prems by simp
    then have "add_mset (a ! f) (mset (segment f m b)) = add_mset x (mset (segment f m a))"
      using mset_segment_update [OF Cons.prems(2,3)] by simp
    then have "mset (segment f m c) + D' = mset (segment f m a) + D + mset (x # xs)" using c(4) by simp
    moreover have "outside f m a c"
      using perm_range_outside [OF b(2)] c(3) Cons.prems by (auto simp: outside_def)
    moreover have "replace_larger lt (x # xs) f m a = Some c" using True b(1) c(1) Cons.prems by simp
    ultimately show ?thesis using c(2,5) by blast
  next
    case False
    then have "\<forall>d \<in># add_mset x D. \<forall>j. f \<le> j \<longrightarrow> j < m \<longrightarrow> le (a ! j) d"
      using Cons.prems(4) first le_trans by (metis insert_iff set_mset_add_mset_insert)
    from Cons.IH [OF Cons.prems(1-3) this] show ?thesis using False Cons.prems by auto
  qed
qed

lemma partial_sort_copy_correct:
  assumes "f \<le> l" "l \<le> length a"
  shows "\<exists>b D. partial_sort_copy lt xs f l a = Some (b, f + min (length xs) (l - f)) \<and> outside f l a b
    \<and> sorted_range lt f (f + min (length xs) (l - f)) b
    \<and> mset (segment f (f + min (length xs) (l - f)) b) + D = mset xs
    \<and> (\<forall>d \<in># D. \<forall>x \<in> set (segment f (f + min (length xs) (l - f)) b). le x d)"
proof (cases "f = l")
  case True
  then show ?thesis by (auto simp: partial_sort_copy_def outside_def sorted_range_single segment_def)
next
  case False
  let ?m = "f + min (length xs) (l - f)"
  obtain b where b: "copy_some xs f l a = Some (drop (l - f) xs, ?m, b)" "outside f l a b" "segment f ?m b = take (l - f) xs"
    using copy_some_correct [OF assms] by blast
  have m: "f \<le> ?m" "?m \<le> l" "?m \<le> length b" using assms b(2) by (auto simp: outside_def)
  obtain c where c: "make_heap lt f ?m b = Some c" "perm_range f ?m b c" "heap_from (?m - f) 0 (elem f c)"
    using make_heap_correct [OF m(1,3)] by blast
  have lc: "length c = length b" using c(2) by (rule perm_range_length)
  obtain d D where d: "replace_larger lt (drop (l - f) xs) f ?m c = Some d" "heap_from (?m - f) 0 (elem f d)" "outside f ?m c d"
    "mset (segment f ?m d) + D = mset (segment f ?m c) + mset (drop (l - f) xs)"
    "\<forall>e \<in># D. \<forall>j. f \<le> j \<longrightarrow> j < ?m \<longrightarrow> le (d ! j) e"
  proof (cases "xs = []")
    case True
    then show ?thesis using that [of c "{#}"] c(3) by (auto simp: outside_def)
  next
    case ne: False
    then have "f < ?m" using False assms by simp
    from replace_larger_correct [OF c(3) this, of "{#}" "drop (l - f) xs"] show ?thesis using that m lc by auto
  qed
  have ld: "length d = length b" using d(3) lc by (simp add: outside_def)
  obtain g where g: "sort_heap lt f ?m d = Some g" "perm_range f ?m d g" "sorted_range lt f ?m g"
    using sort_heap_correct [OF _ d(2)] m ld by metis
  have "mset (segment f ?m g) + D = mset xs"
  proof -
    have "mset (segment f ?m g) + D = mset (segment f ?m d) + D" using perm_range_segment [OF g(2)] m ld by simp
    also have "\<dots> = mset (segment f ?m b) + mset (drop (l - f) xs)" using d(4) perm_range_segment [OF c(2) m(3)] by simp
    also have "\<dots> = mset xs" unfolding b(3) by (metis append_take_drop_id mset_append)
    finally show ?thesis .
  qed
  moreover have "le x e" if "e \<in># D" "x \<in> set (segment f ?m g)" for e x
  proof -
    have "set (segment f ?m g) = set (segment f ?m d)" using perm_range_segment [OF g(2)] m ld by (metis set_mset_mset)
    then show ?thesis using that d(5) m ld by (auto simp: set_segment)
  qed
  moreover have "outside f l a g"
  proof -
    have "outside f ?m b g" using perm_range_outside [OF c(2)] d(3) perm_range_outside [OF g(2)] outside_trans by blast
    then show ?thesis using b(2) m by (auto simp: outside_def)
  qed
  moreover have "partial_sort_copy lt xs f l a = Some (g, ?m)"
    using False b(1) c(1) d(1) g(1) by (simp add: partial_sort_copy_def)
  ultimately show ?thesis using g(3) by blast
qed

end

end
