(* ===== verification/StlSortLaws.thy ===== *)
theory StlSortLaws
  imports StlSort StlHeapLaws
begin

text \<open>
  What the sorting routines do, from the laws of the comparison: each loop without a guard meets an element
  that stops it, so every access stays inside the range, and the range ends up sorted.
\<close>

context strict_weak begin

lemma median_cases: "median lt a b c = a \<or> median lt a b c = b \<or> median lt a b c = c"
  by (simp add: median_def)

lemma median_middle: "\<not> (lt (median lt a b c) b \<and> lt (median lt a b c) c)"
  unfolding median_def using less_le less_le_trans by (smt (verit, best))

section \<open>Partition\<close>

lemma scan_up_stops:
  assumes "le pivot (a ! k)" "i \<le> k" "k < length a"
  shows "\<exists>i'. scan_up lt pivot a i = Some i' \<and> i \<le> i' \<and> i' \<le> k \<and> le pivot (a ! i') \<and> (\<forall>j. i \<le> j \<longrightarrow> j < i' \<longrightarrow> lt (a ! j) pivot)"
  using assms
proof (induction "k - i" arbitrary: i)
  case 0
  then have "i = k" by simp
  then show ?case using 0 by (subst scan_up.simps) auto
next
  case (Suc d)
  show ?case
  proof (cases "lt (a ! i) pivot")
    case True
    then have "i < k" using Suc by (metis le_eq_less_or_eq)
    then obtain i' where "scan_up lt pivot a (Suc i) = Some i'" "Suc i \<le> i'" "i' \<le> k" "le pivot (a ! i')"
      "\<forall>j. Suc i \<le> j \<longrightarrow> j < i' \<longrightarrow> lt (a ! j) pivot"
      using Suc.hyps(1) [of "Suc i"] Suc.hyps(2) Suc.prems by (metis Suc_diff_Suc Suc_inject Suc_leI)
    moreover from this have "\<forall>j. i \<le> j \<longrightarrow> j < i' \<longrightarrow> lt (a ! j) pivot" using True by (metis Suc_leI le_eq_less_or_eq)
    moreover have "scan_up lt pivot a i = scan_up lt pivot a (Suc i)" using True Suc.prems by (subst scan_up.simps) simp
    ultimately show ?thesis by auto
  next
    case False
    then have "scan_up lt pivot a i = Some i" using Suc.prems by (subst scan_up.simps) simp
    then show ?thesis using False Suc.prems by auto
  qed
qed

lemma scan_down_stops:
  assumes "le (a ! k) pivot" "k < l" "l \<le> length a"
  shows "\<exists>j. scan_down lt pivot a l = Some j \<and> k \<le> j \<and> j < l \<and> le (a ! j) pivot \<and> (\<forall>i. j < i \<longrightarrow> i < l \<longrightarrow> lt pivot (a ! i))"
  using assms
proof (induction l)
  case (Suc l)
  show ?case
  proof (cases "lt pivot (a ! l)")
    case True
    then have "k < l" using Suc.prems by (metis less_antisym)
    then show ?thesis using Suc.IH Suc.prems True by (auto simp: less_Suc_eq)
  next
    case False
    then show ?thesis using Suc.prems by auto
  qed
qed simp

lemma unguarded_partition_correct:
  assumes "lo \<le> f" "f \<le> l" "l \<le> hi" "hi \<le> length a"
    and "\<forall>i. lo \<le> i \<longrightarrow> i < f \<longrightarrow> le (a ! i) pivot" "\<forall>i. l \<le> i \<longrightarrow> i < hi \<longrightarrow> le pivot (a ! i)"
    and "\<exists>k. f \<le> k \<and> k < hi \<and> le pivot (a ! k)" "\<exists>k. lo \<le> k \<and> k < l \<and> le (a ! k) pivot"
  shows "\<exists>cut b. unguarded_partition lt pivot f l a = Some (cut, b) \<and> perm_range lo hi a b \<and> f \<le> cut \<and> cut < hi
    \<and> (\<forall>i. lo \<le> i \<longrightarrow> i < cut \<longrightarrow> le (b ! i) pivot) \<and> (\<forall>i. cut \<le> i \<longrightarrow> i < hi \<longrightarrow> le pivot (b ! i))
    \<and> (cut = f \<longrightarrow> (\<forall>i. f < i \<longrightarrow> i < l \<longrightarrow> lt pivot (a ! i)))"
  using assms
proof (induction l arbitrary: f a rule: less_induct)
  case (less l)
  obtain k where k: "f \<le> k" "k < hi" "le pivot (a ! k)" using less.prems(7) by blast
  then have "k < length a" using less.prems(4) by simp
  then obtain i where i: "scan_up lt pivot a f = Some i" "f \<le> i" "i < hi" "le pivot (a ! i)" "\<forall>j. f \<le> j \<longrightarrow> j < i \<longrightarrow> lt (a ! j) pivot"
    using scan_up_stops [OF k(3,1)] k(2) by auto
  obtain k' where k': "lo \<le> k'" "k' < l" "le (a ! k') pivot" using less.prems(8) by blast
  have "l \<le> length a" using less.prems(3,4) by simp
  then obtain j where j: "scan_down lt pivot a l = Some j" "lo \<le> j" "j < l" "le (a ! j) pivot" "\<forall>i. j < i \<longrightarrow> i < l \<longrightarrow> lt pivot (a ! i)"
    using scan_down_stops [OF k'(3,2)] k'(1) by auto
  show ?case
  proof (cases "i < j")
    case False
    have "unguarded_partition lt pivot f l a = Some (i, a)" using False i(1) j(1) by (subst unguarded_partition.simps) simp
    moreover have "le (a ! k) pivot" if "lo \<le> k" "k < i" for k
      using that less.prems(5) i(5) less_le by (cases "k < f") auto
    moreover have "le pivot (a ! k)" if "i \<le> k" "k < hi" for k
    proof -
      consider "l \<le> k" | "k = i" | "i < k" "k < l" using \<open>i \<le> k\<close> by linarith
      then show ?thesis using that less.prems(6) i(4) j(5) less_le False by cases auto
    qed
    moreover have "lt pivot (a ! k)" if "i = f" "f < k" "k < l" for k using that j(5) False by auto
    ultimately show ?thesis using i by auto
  next
    case True
    let ?a = "a[i := a ! j, j := a ! i]"
    have b: "i < length a" "j < length a" using True j(3) less.prems(3,4) by auto
    then have sw: "iter_swap i j a = Some ?a" by (simp add: iter_swap_def)
    have p: "perm_range lo hi a ?a" using perm_range_swap [OF b, of lo hi] True i j less.prems by auto
    have at: "?a ! i = a ! j" "?a ! j = a ! i" "\<And>k. k \<noteq> i \<Longrightarrow> k \<noteq> j \<Longrightarrow> ?a ! k = a ! k" using True b by auto
    have below: "\<forall>k. lo \<le> k \<longrightarrow> k < i + 1 \<longrightarrow> le (?a ! k) pivot"
    proof (intro allI impI)
      fix k assume k: "lo \<le> k" "k < i + 1"
      consider "k = i" | "k < f" "k < i" | "f \<le> k" "k < i" using k by linarith
      then show "le (?a ! k) pivot" using True at j(4) less.prems(5) k i(5) less_le by cases auto
    qed
    have above: "\<forall>k. j \<le> k \<longrightarrow> k < hi \<longrightarrow> le pivot (?a ! k)"
    proof (intro allI impI)
      fix k assume k: "j \<le> k" "k < hi"
      consider "k = j" | "j < k" "k < l" | "j < k" "l \<le> k" using k by linarith
      then show "le pivot (?a ! k)" using True at i(4) j(5) less.prems(6) k less_le by cases auto
    qed
    have "\<exists>k. i + 1 \<le> k \<and> k < hi \<and> le pivot (?a ! k)" "\<exists>k. lo \<le> k \<and> k < j \<and> le (?a ! k) pivot"
      using True at(2) i(4) j(3) less.prems(3) above below i(2) less.prems(1) by (intro exI [of _ j] exI [of _ i], force)+
    then obtain cut b where c: "unguarded_partition lt pivot (i + 1) j ?a = Some (cut, b)" "perm_range lo hi ?a b" "i + 1 \<le> cut" "cut < hi"
      "\<forall>i. lo \<le> i \<longrightarrow> i < cut \<longrightarrow> le (b ! i) pivot" "\<forall>i. cut \<le> i \<longrightarrow> i < hi \<longrightarrow> le pivot (b ! i)"
      using less.IH [OF j(3) _ _ _ _ below above] True i(2) j(3) less.prems(1-4) by auto
    have "unguarded_partition lt pivot f l a = Some (cut, b)"
      using True i(1) j(1) sw c(1) by (subst unguarded_partition.simps) simp
    moreover have "f \<le> cut" "cut \<noteq> f" using c(3) i(2) by auto
    ultimately show ?thesis using c perm_range_trans [OF p c(2)] by blast
  qed
qed

section \<open>Insertion\<close>

text \<open>The hole at \<open>h\<close> moves down; the elements above it are greater than the value.\<close>

lemma unguarded_linear_insert_hole:
  assumes "sorted_range lt lo h a" "sorted_range lt (Suc h) (Suc i) a" "h \<le> i" "i < length a"
    and "\<forall>x y. lo \<le> x \<longrightarrow> x < h \<longrightarrow> h < y \<longrightarrow> y \<le> i \<longrightarrow> le (a ! x) (a ! y)"
    and "\<forall>y. h < y \<longrightarrow> y \<le> i \<longrightarrow> lt val (a ! y)" and "\<exists>k. lo \<le> k \<and> k < h \<and> le (a ! k) val"
  shows "\<exists>b. unguarded_linear_insert lt h val a = Some b \<and> perm_range lo (Suc i) (a[h := val]) b \<and> sorted_range lt lo (Suc i) b"
  using assms
proof (induction h arbitrary: a)
  case 0
  then show ?case by auto
next
  case (Suc h)
  have h: "h < length a" "Suc h < length a" "lo \<le> h" using Suc.prems(3,4,7) by auto
  have sorted: "le (a ! x) (a ! y)" if "lo \<le> x" "x \<le> y" "y \<le> h" for x y
    using Suc.prems(1) that by (cases "x = y") (auto simp: sorted_range_def)
  have greater: "lt val (a ! y)" if "Suc h < y" "y \<le> i" for y using Suc.prems(6) that by blast
  show ?case
  proof (cases "lt val (a ! h)")
    case True
    let ?a = "a[Suc h := a ! h]"
    have at: "?a ! Suc h = a ! h" "\<And>k. k \<noteq> Suc h \<Longrightarrow> ?a ! k = a ! k" using h by auto
    have cross: "le (a ! x) (?a ! y)" if "lo \<le> x" "x \<le> h" "h < y" "y \<le> i" for x y
      using that at sorted Suc.prems(5) by (cases "y = Suc h") auto
    have "sorted_range lt lo h ?a" using sorted at by (auto simp: sorted_range_def)
    moreover have "sorted_range lt (Suc h) (Suc i) ?a"
      unfolding sorted_range_def
    proof (intro allI impI)
      fix x y assume xy: "Suc h \<le> x" "x < y" "y < Suc i"
      then show "le (?a ! x) (?a ! y)"
        using cross [of h y] at Suc.prems(2) h by (cases "x = Suc h") (auto simp: sorted_range_def)
    qed
    moreover have "\<forall>x y. lo \<le> x \<longrightarrow> x < h \<longrightarrow> h < y \<longrightarrow> y \<le> i \<longrightarrow> le (?a ! x) (?a ! y)" using cross at by auto
    moreover have "\<forall>y. h < y \<longrightarrow> y \<le> i \<longrightarrow> lt val (?a ! y)"
    proof (intro allI impI)
      fix y assume "h < y" "y \<le> i"
      then show "lt val (?a ! y)" using True at greater by (cases "y = Suc h") auto
    qed
    moreover have "\<exists>k. lo \<le> k \<and> k < h \<and> le (?a ! k) val"
      using Suc.prems(7) True at by (metis less_Suc_eq less_irrefl)
    ultimately obtain b where b: "unguarded_linear_insert lt h val ?a = Some b" "perm_range lo (Suc i) (?a[h := val]) b"
      "sorted_range lt lo (Suc i) b"
      using Suc.IH [of ?a] Suc.prems(3,4) by auto
    have "perm_range lo (Suc i) (a[Suc h := val]) (?a[h := val])"
      using h Suc.prems(3) by (intro perm_range_fill) auto
    then show ?thesis using b True h perm_range_trans by auto
  next
    case False
    let ?b = "a[Suc h := val]"
    have "sorted_range lt lo (Suc i) ?b"
      unfolding sorted_range_def
    proof (intro allI impI)
      fix x y assume xy: "lo \<le> x" "x < y" "y < Suc i"
      consider "y \<le> h" | "y = Suc h" | "x = Suc h" | "x \<le> h" "Suc h < y" | "Suc h < x" using xy by linarith
      then show "le (?b ! x) (?b ! y)"
      proof cases
        case 2
        then have "le (a ! x) (a ! h)" using sorted xy by auto
        then show ?thesis using 2 False h xy le_trans by auto
      next
        case 3
        then show ?thesis using greater [of y] xy less_le h by auto
      next
        case 4
        then show ?thesis using Suc.prems(5) xy h by auto
      next
        case 5
        then show ?thesis using Suc.prems(2) xy by (auto simp: sorted_range_def)
      qed (use sorted xy in auto)
    qed
    then show ?thesis using False h by auto
  qed
qed

lemma unguarded_linear_insert_correct:
  assumes "sorted_range lt lo i a" "i < length a" "\<exists>k. lo \<le> k \<and> k < i \<and> le (a ! k) (a ! i)"
  shows "\<exists>b. unguarded_linear_insert lt i (a ! i) a = Some b \<and> perm_range lo (Suc i) a b \<and> sorted_range lt lo (Suc i) b"
  using unguarded_linear_insert_hole [OF assms(1) _ order.refl assms(2) _ _ assms(3)] sorted_range_single [of "Suc i" "Suc i" lt a]
  by auto

lemma copy_backward_correct:
  assumes "n \<le> l" "l < length a"
  shows "\<exists>b. copy_backward n l (Suc l) a = Some b \<and> perm_range (l - n) (Suc l) (a[l := v]) (b[l - n := v])
    \<and> (\<forall>k. l - n \<le> k \<longrightarrow> k < l \<longrightarrow> b ! Suc k = a ! k)"
  using assms
proof (induction n arbitrary: l a)
  case 0
  then show ?case by auto
next
  case (Suc n)
  obtain m where m: "l = Suc m" using Suc.prems by (cases l) auto
  let ?a = "a[l := a ! m]"
  obtain b where b: "copy_backward n m (Suc m) ?a = Some b" "perm_range (m - n) (Suc m) (?a[m := v]) (b[m - n := v])"
    "\<forall>k. m - n \<le> k \<longrightarrow> k < m \<longrightarrow> b ! Suc k = ?a ! k"
    using Suc.IH [of m ?a] Suc.prems m by auto
  have "perm_range (m - n) (Suc l) (a[l := v]) (?a[m := v])" using Suc.prems m by (intro perm_range_fill) auto
  then have p: "perm_range (l - Suc n) (Suc l) (a[l := v]) (b[l - Suc n := v])"
    using perm_range_mono [OF b(2), of "m - n" "Suc l"] m perm_range_trans by auto
  have len: "length b = length a" using perm_range_length [OF p] by simp
  have "b ! Suc k = a ! k" if k: "l - Suc n \<le> k" "k < l" for k
  proof (cases "k = m")
    case True
    have "b[m - n := v] ! Suc m = ?a[m := v] ! Suc m" using perm_range_other [OF b(2), of "Suc m"] Suc.prems m by simp
    moreover have "m - n \<noteq> Suc m" by simp
    ultimately show ?thesis using True m Suc.prems by simp
  next
    case False
    then show ?thesis using b(3) k m by auto
  qed
  moreover have "copy_backward (Suc n) l (Suc l) a = Some b" using b(1) Suc.prems m by simp
  ultimately show ?case using p by blast
qed

lemma linear_insert_correct:
  assumes "sorted_range lt lo i a" "lo < i" "i < length a"
  shows "\<exists>b. linear_insert lt lo i (a ! i) a = Some b \<and> perm_range lo (Suc i) a b \<and> sorted_range lt lo (Suc i) b"
proof (cases "lt (a ! i) (a ! lo)")
  case True
  let ?v = "a ! i"
  obtain b where b: "copy_backward (i - lo) i (Suc i) a = Some b" "perm_range lo (Suc i) (a[i := ?v]) (b[lo := ?v])"
    "\<forall>k. lo \<le> k \<longrightarrow> k < i \<longrightarrow> b ! Suc k = a ! k"
    using copy_backward_correct [of "i - lo" i a ?v] assms by auto
  have len: "length b = length a" using perm_range_length [OF b(2)] by simp
  have least: "lt ?v (a ! k)" if "lo \<le> k" "k < i" for k
  proof -
    have "le (a ! lo) (a ! k)" using assms(1) that by (cases "k = lo") (auto simp: sorted_range_def)
    then show ?thesis using True less_le_trans by blast
  qed
  have shifted: "(b[lo := ?v]) ! k = a ! (k - 1)" if "lo < k" "k \<le> i" for k
  proof -
    obtain m where "k = Suc m" using \<open>lo < k\<close> by (cases k) auto
    then show ?thesis using b(3) that by auto
  qed
  have "sorted_range lt lo (Suc i) (b[lo := ?v])"
    unfolding sorted_range_def
  proof (intro allI impI)
    fix x y assume xy: "lo \<le> x" "x < y" "y < Suc i"
    have y: "(b[lo := ?v]) ! y = a ! (y - 1)" using shifted xy by simp
    show "le ((b[lo := ?v]) ! x) ((b[lo := ?v]) ! y)"
    proof (cases "x = lo")
      case x: True
      have "le ?v (a ! (y - 1))" using least [of "y - 1"] xy less_le by simp
      then show ?thesis using x y len assms by simp
    next
      case False
      then have "(b[lo := ?v]) ! x = a ! (x - 1)" using shifted xy by simp
      then show ?thesis unfolding y using assms(1) xy False by (simp add: sorted_range_def)
    qed
  qed
  moreover have "linear_insert lt lo i ?v a = Some (b[lo := ?v])" using True b(1) assms len by (simp add: linear_insert_def)
  ultimately show ?thesis using b(2) by simp
next
  case False
  then show ?thesis using unguarded_linear_insert_correct [OF assms(1,3)] assms by (auto simp: linear_insert_def)
qed

lemma insertion_loop_correct:
  assumes "sorted_range lt lo i a" "lo < i" "i + n \<le> length a"
  shows "\<exists>b. insertion_loop lt lo n i a = Some b \<and> perm_range lo (i + n) a b \<and> sorted_range lt lo (i + n) b"
  using assms
proof (induction n arbitrary: i a)
  case 0
  then show ?case by auto
next
  case (Suc n)
  obtain b where b: "linear_insert lt lo i (a ! i) a = Some b" "perm_range lo (Suc i) a b" "sorted_range lt lo (Suc i) b"
    using linear_insert_correct [OF Suc.prems(1,2)] Suc.prems(3) by auto
  obtain c where c: "insertion_loop lt lo n (Suc i) b = Some c" "perm_range lo (Suc i + n) b c" "sorted_range lt lo (Suc i + n) c"
    using Suc.IH [OF b(3)] Suc.prems perm_range_length [OF b(2)] by auto
  have "perm_range lo (i + Suc n) a c" using perm_range_mono [OF b(2), of lo "i + Suc n"] c(2) by (auto intro: perm_range_trans)
  then show ?case using b(1) c Suc.prems by auto
qed

lemma insertion_sort_correct:
  assumes "lo \<le> hi" "hi \<le> length a"
  shows "\<exists>b. insertion_sort lt lo hi a = Some b \<and> perm_range lo hi a b \<and> sorted_range lt lo hi b"
proof (cases "lo = hi")
  case True
  then show ?thesis by (auto simp: insertion_sort_def sorted_range_single)
next
  case False
  then show ?thesis using insertion_loop_correct [of lo "Suc lo" a "hi - Suc lo"] assms sorted_range_single [of "Suc lo" lo lt a]
    by (auto simp: insertion_sort_def)
qed

section \<open>Nearly sorted\<close>

definition near :: "nat \<Rightarrow> nat \<Rightarrow> 'a list \<Rightarrow> bool" where
  "near lo hi a \<longleftrightarrow> (\<forall>i j. lo \<le> i \<longrightarrow> i + threshold \<le> j \<longrightarrow> j < hi \<longrightarrow> le (a ! i) (a ! j))"

lemma unguarded_insertion_loop_correct:
  assumes "near lo hi a" "i + n = hi" "lo + threshold \<le> i" "hi \<le> length a" "perm_range lo i a b" "sorted_range lt lo i b"
  shows "\<exists>c. unguarded_insertion_loop lt n i b = Some c \<and> perm_range lo hi a c \<and> sorted_range lt lo hi c"
  using assms(2-)
proof (induction n arbitrary: i b)
  case 0
  then show ?case by auto
next
  case (Suc n)
  have len: "length b = length a" using Suc.prems(4) by (rule perm_range_length)
  have i: "i < length b" using Suc.prems len by simp
  have "\<exists>k. lo \<le> k \<and> k < i \<and> le (b ! k) (b ! i)"
  proof -
    have "a ! (i - threshold) \<in> set (segment lo i a)" using Suc.prems by (auto simp: set_segment threshold_def)
    then have "a ! (i - threshold) \<in> set (segment lo i b)"
      using perm_range_segment [OF Suc.prems(4)] i len by (metis less_imp_le_nat set_mset_mset)
    then obtain k where "lo \<le> k" "k < i" "b ! k = a ! (i - threshold)" using i by (auto simp: set_segment)
    moreover have "le (a ! (i - threshold)) (a ! i)" using assms(1) Suc.prems by (auto simp: near_def)
    moreover have "b ! i = a ! i" using perm_range_other [OF Suc.prems(4), of i] i len by simp
    ultimately show ?thesis by auto
  qed
  then obtain c where c: "unguarded_linear_insert lt i (b ! i) b = Some c" "perm_range lo (Suc i) b c" "sorted_range lt lo (Suc i) c"
    using unguarded_linear_insert_correct [OF Suc.prems(5) i] by blast
  have "perm_range lo (Suc i) a c" using perm_range_mono [OF Suc.prems(4), of lo "Suc i"] c(2) by (auto intro: perm_range_trans)
  then obtain d where "unguarded_insertion_loop lt n (Suc i) c = Some d" "perm_range lo hi a d" "sorted_range lt lo hi d"
    using Suc.IH [of "Suc i" c] Suc.prems(1-3) c(3) by auto
  then show ?case using c(1) i by auto
qed

lemma final_insertion_sort_correct:
  assumes "near lo hi a" "lo \<le> hi" "hi \<le> length a"
  shows "\<exists>b. final_insertion_sort lt lo hi a = Some b \<and> perm_range lo hi a b \<and> sorted_range lt lo hi b"
proof (cases "threshold < hi - lo")
  case True
  then have "lo \<le> lo + threshold" "lo + threshold \<le> length a" using assms by linarith+
  then obtain b where b: "insertion_sort lt lo (lo + threshold) a = Some b" "perm_range lo (lo + threshold) a b"
    "sorted_range lt lo (lo + threshold) b"
    using insertion_sort_correct [of lo "lo + threshold" a] by blast
  have "lo + threshold + (hi - (lo + threshold)) = hi" using True by simp
  from unguarded_insertion_loop_correct [OF assms(1) this order.refl assms(3) b(2,3)]
  show ?thesis using True b(1) by (auto simp: final_insertion_sort_def unguarded_insertion_sort_def)
next
  case False
  then show ?thesis using insertion_sort_correct assms by (auto simp: final_insertion_sort_def)
qed

section \<open>Sorting\<close>

text \<open>The partition at the median of three leaves something on both sides.\<close>

lemma median_partition:
  assumes "3 < hi - lo" "hi \<le> length a"
  defines "pivot \<equiv> median lt (a ! lo) (a ! (lo + (hi - lo) div 2)) (a ! (hi - 1))"
  shows "\<exists>cut b. unguarded_partition lt pivot lo hi a = Some (cut, b) \<and> perm_range lo hi a b \<and> lo < cut \<and> cut < hi
    \<and> (\<forall>i. lo \<le> i \<longrightarrow> i < cut \<longrightarrow> le (b ! i) pivot) \<and> (\<forall>i. cut \<le> i \<longrightarrow> i < hi \<longrightarrow> le pivot (b ! i))"
proof -
  let ?m = "lo + (hi - lo) div 2"
  have m: "lo < ?m" "?m < hi" "lo < hi - 1" "hi - 1 < hi" using assms(1) by auto
  obtain k where k: "lo \<le> k" "k < hi" "pivot = a ! k"
  proof -
    have "pivot = a ! lo \<or> pivot = a ! ?m \<or> pivot = a ! (hi - 1)" unfolding pivot_def by (rule median_cases)
    then show ?thesis using that [of lo] that [of ?m] that [of "hi - 1"] m by auto
  qed
  have "\<exists>k. lo \<le> k \<and> k < hi \<and> le pivot (a ! k)" "\<exists>k. lo \<le> k \<and> k < hi \<and> le (a ! k) pivot"
    using k by auto
  then obtain cut b where b: "unguarded_partition lt pivot lo hi a = Some (cut, b)" "perm_range lo hi a b" "lo \<le> cut" "cut < hi"
    "\<forall>i. lo \<le> i \<longrightarrow> i < cut \<longrightarrow> le (b ! i) pivot" "\<forall>i. cut \<le> i \<longrightarrow> i < hi \<longrightarrow> le pivot (b ! i)"
    "cut = lo \<longrightarrow> (\<forall>i. lo < i \<longrightarrow> i < hi \<longrightarrow> lt pivot (a ! i))"
    using unguarded_partition_correct [of lo lo hi hi a pivot] assms(2) m by auto
  have "cut \<noteq> lo" using b(7) m median_middle [of "a ! lo" "a ! ?m" "a ! (hi - 1)"] unfolding pivot_def by blast
  then show ?thesis using b by auto
qed

lemma introsort_loop_correct:
  assumes "lo \<le> hi" "hi \<le> length a"
  shows "\<exists>b. introsort_loop lt d lo hi a = Some b \<and> perm_range lo hi a b \<and> near lo hi b"
  using assms
proof (induction d arbitrary: lo hi a)
  case 0
  show ?case
  proof (cases "threshold < hi - lo")
    case True
    obtain b where "partial_sort lt lo hi hi a = Some b" "perm_range lo hi a b" "sorted_range lt lo hi b"
      using partial_sort_correct [of lo hi hi a] 0 by auto
    moreover from this have "near lo hi b" by (auto simp: near_def sorted_range_def threshold_def)
    ultimately show ?thesis using True by simp
  qed (auto simp: near_def)
next
  case (Suc d)
  show ?case
  proof (cases "threshold < hi - lo")
    case True
    then have three: "3 < hi - lo" by (simp add: threshold_def)
    let ?p = "median lt (a ! lo) (a ! (lo + (hi - lo) div 2)) (a ! (hi - 1))"
    obtain cut b where b: "unguarded_partition lt ?p lo hi a = Some (cut, b)" "perm_range lo hi a b" "lo < cut" "cut < hi"
      "\<forall>i. lo \<le> i \<longrightarrow> i < cut \<longrightarrow> le (b ! i) ?p" "\<forall>i. cut \<le> i \<longrightarrow> i < hi \<longrightarrow> le ?p (b ! i)"
      using median_partition [OF three Suc.prems(2)] by blast
    have lb: "length b = length a" using b(2) by (rule perm_range_length)
    obtain c where c: "introsort_loop lt d cut hi b = Some c" "perm_range cut hi b c" "near cut hi c"
      using Suc.IH [of cut hi b] b lb Suc.prems by auto
    have lc: "length c = length a" using c(2) lb by (simp add: perm_range_length)
    obtain e where e: "introsort_loop lt d lo cut c = Some e" "perm_range lo cut c e" "near lo cut e"
      using Suc.IH [of lo cut c] b lc Suc.prems by auto
    have above: "e ! i = c ! i" if "cut \<le> i" "i < hi" for i
      using perm_range_other [OF e(2), of i] that lc Suc.prems by simp
    have below: "c ! i = b ! i" if "i < cut" for i
      using perm_range_other [OF c(2), of i] that b(4) lb Suc.prems by simp
    have le_pivot: "le (e ! i) ?p" if "lo \<le> i" "i < cut" for i
      by (rule perm_range_all [OF e(2) _ _ that, where Q = "\<lambda>x. le x ?p"]) (use b(4,5) below lc Suc.prems in auto)
    have ge_pivot: "le ?p (c ! i)" if "cut \<le> i" "i < hi" for i
      by (rule perm_range_all [OF c(2) _ _ that, where Q = "le ?p"]) (use b(6) lb Suc.prems in auto)
    have "near lo hi e"
      unfolding near_def
    proof (intro allI impI)
      fix i j assume ij: "lo \<le> i" "i + threshold \<le> j" "j < hi"
      consider "j < cut" | "i < cut" "cut \<le> j" | "cut \<le> i" by linarith
      then show "le (e ! i) (e ! j)"
      proof cases
        case 1
        then show ?thesis using e(3) ij by (auto simp: near_def)
      next
        case 2
        then have "le (e ! i) ?p" "le ?p (e ! j)" using le_pivot ge_pivot above ij by auto
        then show ?thesis by (rule le_trans)
      next
        case 3
        then show ?thesis using c(3) ij above by (auto simp: near_def)
      qed
    qed
    moreover have "perm_range lo hi a e"
      using b(2) perm_range_mono [OF c(2), of lo hi] perm_range_mono [OF e(2), of lo hi] b(3,4) by (auto intro: perm_range_trans)
    moreover have "introsort_loop lt (Suc d) lo hi a = Some e"
      using True three b(1) c(1) e(1) Suc.prems by simp
    ultimately show ?thesis by blast
  qed (auto simp: near_def)
qed

lemma lg_returns: "0 < n \<Longrightarrow> \<exists>k. lg n = Some k"
proof (induction n rule: less_induct)
  case (less n)
  show ?case
  proof (cases "n = 1")
    case True
    then show ?thesis by (simp add: lg.simps)
  next
    case False
    then obtain k where "lg (n div 2) = Some k" using less.IH [of "n div 2"] less.prems by auto
    then show ?thesis using False by (simp add: lg.simps [of n])
  qed
qed

lemma stl_sort_correct:
  assumes "lo \<le> hi" "hi \<le> length a"
  shows "\<exists>b. stl_sort lt lo hi a = Some b \<and> perm_range lo hi a b \<and> sorted_range lt lo hi b"
proof (cases "lo = hi")
  case True
  then show ?thesis by (auto simp: stl_sort_def sorted_range_single)
next
  case False
  then obtain k where k: "lg (hi - lo) = Some k" using lg_returns [of "hi - lo"] assms by auto
  obtain b where b: "introsort_loop lt (k * 2) lo hi a = Some b" "perm_range lo hi a b" "near lo hi b"
    using introsort_loop_correct [OF assms] by blast
  obtain c where "final_insertion_sort lt lo hi b = Some c" "perm_range lo hi b c" "sorted_range lt lo hi c"
    using final_insertion_sort_correct [OF b(3) assms(1)] assms perm_range_length [OF b(2)] by auto
  then show ?thesis using False k b by (auto simp: stl_sort_def intro: perm_range_trans)
qed

section \<open>Selection\<close>

text \<open>What is left of the range lies between what is in front of it and what is behind it.\<close>

lemma squeezed_perm:
  assumes p: "perm_range f l a b" and r: "lo \<le> f" "l \<le> hi" "hi \<le> length a" "f \<le> l"
    and front: "\<forall>i j. lo \<le> i \<longrightarrow> i < f \<longrightarrow> f \<le> j \<longrightarrow> j < hi \<longrightarrow> le (a ! i) (a ! j)"
    and behind: "\<forall>i j. lo \<le> i \<longrightarrow> i < l \<longrightarrow> l \<le> j \<longrightarrow> j < hi \<longrightarrow> le (a ! i) (a ! j)"
  shows "lo \<le> i \<Longrightarrow> i < f \<Longrightarrow> f \<le> j \<Longrightarrow> j < hi \<Longrightarrow> le (b ! i) (b ! j)"
    and "lo \<le> i \<Longrightarrow> i < l \<Longrightarrow> l \<le> j \<Longrightarrow> j < hi \<Longrightarrow> le (b ! i) (b ! j)"
proof -
  have len: "l \<le> length a" using r by simp
  have same: "b ! k = a ! k" if "k < f \<or> l \<le> k" "k < hi" for k using perm_range_other [OF p, of k] that r by auto
  show "le (b ! i) (b ! j)" if ij: "lo \<le> i" "i < f" "f \<le> j" "j < hi"
  proof (cases "j < l")
    case True
    have "le (a ! i) (b ! j)"
      by (rule perm_range_all [OF p len _ ij(3) True, where Q = "le (a ! i)"]) (use front ij r in auto)
    then show ?thesis using same [of i] ij by simp
  next
    case False
    then show ?thesis using same [of i] same [of j] front ij by simp
  qed
  show "le (b ! i) (b ! j)" if ij: "lo \<le> i" "i < l" "l \<le> j" "j < hi"
  proof (cases "f \<le> i")
    case True
    have "le (b ! i) (a ! j)"
      by (rule perm_range_all [OF p len _ True ij(2), where Q = "\<lambda>x. le x (a ! j)"]) (use behind ij r in auto)
    then show ?thesis using same [of j] ij by simp
  next
    case False
    then show ?thesis using same [of i] same [of j] behind ij by simp
  qed
qed

lemma nth_element_loop_correct:
  assumes "lo \<le> f" "f \<le> n" "n < l" "l \<le> hi" "hi \<le> length a"
    and "\<forall>i j. lo \<le> i \<longrightarrow> i < f \<longrightarrow> f \<le> j \<longrightarrow> j < hi \<longrightarrow> le (a ! i) (a ! j)"
    and "\<forall>i j. lo \<le> i \<longrightarrow> i < l \<longrightarrow> l \<le> j \<longrightarrow> j < hi \<longrightarrow> le (a ! i) (a ! j)"
  shows "\<exists>b. nth_element_loop lt n f l a = Some b \<and> perm_range lo hi a b
    \<and> (\<forall>i. lo \<le> i \<longrightarrow> i < n \<longrightarrow> le (b ! i) (b ! n)) \<and> (\<forall>j. n < j \<longrightarrow> j < hi \<longrightarrow> le (b ! n) (b ! j))"
  using assms
proof (induction "l - f" arbitrary: f l a rule: less_induct)
  case less
  note around = less.prems(6,7)
  show ?case
  proof (cases "3 < l - f")
    case True
    let ?p = "median lt (a ! f) (a ! (f + (l - f) div 2)) (a ! (l - 1))"
    have "l \<le> length a" using less.prems by simp
    then obtain cut b where b: "unguarded_partition lt ?p f l a = Some (cut, b)" "perm_range f l a b" "f < cut" "cut < l"
      "\<forall>i. f \<le> i \<longrightarrow> i < cut \<longrightarrow> le (b ! i) ?p" "\<forall>i. cut \<le> i \<longrightarrow> i < l \<longrightarrow> le ?p (b ! i)"
      using median_partition [OF True] by blast
    have len: "length b = length a" using b(2) by (rule perm_range_length)
    note around_b = squeezed_perm [OF b(2) less.prems(1,4,5) _ around]
    have cut: "le (b ! i) (b ! j)" if "lo \<le> i" "i < cut" "cut \<le> j" "j < hi" for i j
    proof (cases "f \<le> i \<and> j < l")
      case True
      then have "le (b ! i) ?p" "le ?p (b ! j)" using b(5,6) that by auto
      then show ?thesis by (rule le_trans)
    next
      case False
      then show ?thesis using around_b that b(3,4) by auto
    qed
    have step: "nth_element_loop lt n f l a = (if cut \<le> n then nth_element_loop lt n cut l b else nth_element_loop lt n f cut b)"
      using True b(1) less.prems by (subst nth_element_loop.simps) simp
    have shorter: "l - cut < l - f" "cut - f < l - f" using b(3,4) by auto
    show ?thesis
    proof (cases "cut \<le> n")
      case True
      then obtain c where "nth_element_loop lt n cut l b = Some c" "perm_range lo hi b c"
        "\<forall>i. lo \<le> i \<longrightarrow> i < n \<longrightarrow> le (c ! i) (c ! n)" "\<forall>j. n < j \<longrightarrow> j < hi \<longrightarrow> le (c ! n) (c ! j)"
        using less.hyps [of l cut b, OF shorter(1)] b(3,4) less.prems(1-5) len cut around_b(2) by auto
      then show ?thesis using step True perm_range_mono [OF b(2) less.prems(1,4)] perm_range_trans by auto
    next
      case False
      then obtain c where "nth_element_loop lt n f cut b = Some c" "perm_range lo hi b c"
        "\<forall>i. lo \<le> i \<longrightarrow> i < n \<longrightarrow> le (c ! i) (c ! n)" "\<forall>j. n < j \<longrightarrow> j < hi \<longrightarrow> le (c ! n) (c ! j)"
        using less.hyps [of cut f b, OF shorter(2)] b(3,4) less.prems(1-5) len cut around_b(1) by auto
      then show ?thesis using step False perm_range_mono [OF b(2) less.prems(1,4)] perm_range_trans by auto
    qed
  next
    case False
    obtain b where b: "insertion_sort lt f l a = Some b" "perm_range f l a b" "sorted_range lt f l b"
      using insertion_sort_correct [of f l a] less.prems by auto
    note around_b = squeezed_perm [OF b(2) less.prems(1,4,5) _ around]
    have "le (b ! i) (b ! n)" if "lo \<le> i" "i < n" for i
      using around_b(1) [of i n] b(3) that less.prems(1-4) by (cases "i < f") (auto simp: sorted_range_def)
    moreover have "le (b ! n) (b ! j)" if "n < j" "j < hi" for j
      using around_b(2) [of n j] b(3) that less.prems(1-4) by (cases "l \<le> j") (auto simp: sorted_range_def)
    moreover have "nth_element_loop lt n f l a = Some b" using False b(1) by (subst nth_element_loop.simps) simp
    ultimately show ?thesis using perm_range_mono [OF b(2) less.prems(1,4)] by blast
  qed
qed

lemma nth_element_correct:
  assumes "lo \<le> n" "n < hi" "hi \<le> length a"
  shows "\<exists>b. nth_element lt lo n hi a = Some b \<and> perm_range lo hi a b
    \<and> (\<forall>i. lo \<le> i \<longrightarrow> i < n \<longrightarrow> le (b ! i) (b ! n)) \<and> (\<forall>j. n < j \<longrightarrow> j < hi \<longrightarrow> le (b ! n) (b ! j))"
  unfolding nth_element_def using assms by (intro nth_element_loop_correct) auto

end

end
