(* ===== verification/StlSortProps.thy ===== *)
theory StlSortProps
  imports StlSortLaws StlSearch
begin

text \<open>
  The properties of heaps and sorting.  \<open>strict_weak\<close> is interpreted on the comparison of strings the
  library itself defines (\<open>stl/_string.h\<close>), which is that of \<open>lexicographical_compare\<close> over the bytes; what the
  theorems say of any strict weak ordering then holds of ranges of strings.
\<close>

section \<open>Comparing strings is a strict weak ordering\<close>

context strict_weak begin

lemma lexicographical_asym: "lexicographical_compare lt xs ys \<Longrightarrow> \<not> lexicographical_compare lt ys xs"
proof (induction xs arbitrary: ys)
  case (Cons x xs)
  then show ?case by (cases ys) (auto split: if_splits dest: asym)
qed (auto split: if_splits)

lemma lexicographical_not_less_trans:
  "\<not> lexicographical_compare lt xs ys \<Longrightarrow> \<not> lexicographical_compare lt ys zs \<Longrightarrow> \<not> lexicographical_compare lt xs zs"
proof (induction xs arbitrary: ys zs)
  case Nil
  then show ?case by (cases ys; cases zs) auto
next
  case (Cons x xs)
  show ?case
  proof (cases zs)
    case Nil
    then show ?thesis by simp
  next
    case (Cons z zs')
    with Cons.prems obtain y ys' where ys: "ys = y # ys'" by (cases ys) auto
    have "\<not> lt x y" "\<not> lt y z" using Cons.prems unfolding ys Cons by (auto split: if_splits)
    then have xz: "\<not> lt x z" by (rule not_less_trans)
    show ?thesis
    proof (cases "lt z x")
      case False
      then have "\<not> lt y x" "\<not> lt z y" using \<open>\<not> lt x y\<close> \<open>\<not> lt y z\<close> less_le_trans le_less_trans by blast+
      then show ?thesis using Cons.prems Cons.IH [of ys' zs'] xz False \<open>\<not> lt x y\<close> \<open>\<not> lt y z\<close> unfolding ys Cons by auto
    qed (use xz Cons in simp)
  qed
qed

lemma lexicographical_strict_weak: "strict_weak (lexicographical_compare lt)"
  by unfold_locales (blast dest: lexicographical_asym, blast dest: lexicographical_not_less_trans)

end

text \<open>\<open>char_traits<char>::compare\<close>, which is \<open>memcmp\<close>, and the comparison of strings by it.\<close>

definition byte_less :: "char \<Rightarrow> char \<Rightarrow> bool" where
  "byte_less c d \<longleftrightarrow> (of_char c :: nat) < of_char d"

fun compare_bytes :: "string \<Rightarrow> string \<Rightarrow> nat \<Rightarrow> int" where
  "compare_bytes xs ys 0 = 0"
| "compare_bytes xs ys (Suc n) =
     (if byte_less (hd xs) (hd ys) then -1 else if byte_less (hd ys) (hd xs) then 1 else compare_bytes (tl xs) (tl ys) n)"

definition M_compare :: "string \<Rightarrow> string \<Rightarrow> int" where
  "M_compare xs ys =
     (let n1 = length xs; n2 = length ys; cmp = compare_bytes xs ys (min n1 n2)
      in if cmp \<noteq> 0 then cmp else if n1 < n2 then -1 else if n2 < n1 then 1 else 0)"

definition string_less :: "string \<Rightarrow> string \<Rightarrow> bool" where
  "string_less xs ys \<longleftrightarrow> M_compare xs ys < 0"

interpretation bytes: strict_weak byte_less
  by unfold_locales (auto simp: byte_less_def)

lemma M_compare_less: "M_compare xs ys < 0 \<longleftrightarrow> lexicographical_compare byte_less xs ys"
proof (induction xs arbitrary: ys)
  case Nil
  then show ?case by (cases ys) (simp_all add: M_compare_def)
next
  case (Cons x xs)
  show ?case
  proof (cases ys)
    case Nil
    then show ?thesis by (simp add: M_compare_def)
  next
    case (Cons y ys')
    have "M_compare (x # xs) (y # ys') = (if byte_less x y then -1 else if byte_less y x then 1 else M_compare xs ys')"
      by (simp add: M_compare_def Let_def)
    then show ?thesis using Cons.IH [of ys'] Cons by simp
  qed
qed

lemma string_less_lexicographical: "string_less = lexicographical_compare byte_less"
  by (intro ext) (simp add: string_less_def M_compare_less)

interpretation strings: strict_weak string_less
  unfolding string_less_lexicographical by (rule bytes.lexicographical_strict_weak)

section \<open>Sorting\<close>

text \<open>C37: whatever the strict weak ordering, \<open>sort\<close> returns, has read and written nothing outside of its range,
  although its inner loops run without a guard, and has permuted the range into an order in which no
  element is less than one in front of it.\<close>

theorem sort_sorts:
  assumes "strict_weak lt" "first \<le> last'" "last' \<le> length a"
  shows "\<exists>b. stl_sort lt first last' a = Some b \<and> perm_range first last' a b \<and> sorted_range lt first last' b"
  by (rule strict_weak.stl_sort_correct [OF assms])

theorem sort_sorts_witness:
  "\<exists>b. stl_sort string_less 1 4 [''zz'', ''pin'', ''ip'', ''pinbin'', ''aa''] = Some b
     \<and> perm_range 1 4 [''zz'', ''pin'', ''ip'', ''pinbin'', ''aa''] b \<and> sorted_range string_less 1 4 b"
  by (rule sort_sorts [OF strings.strict_weak_axioms]) simp_all

text \<open>An ordering that is not strict does not stop the first loop of the partition.\<close>

lemma scan_up_runs_out: "scan_up (\<le>) x (replicate n (x :: nat)) i = None"
proof (induction "n - i" arbitrary: i)
  case 0
  then show ?case by (subst scan_up.simps) (simp add: load_def)
next
  case (Suc k)
  then show ?case by (subst scan_up.simps) simp
qed

theorem reflexive_comparison_runs_out:
  assumes "16 < n"
  shows "stl_sort (\<le>) 0 n (replicate n (x :: nat)) = None"
proof -
  have nz: "n \<noteq> 0" "n \<noteq> 1" "n div 2 < n" using assms by auto
  obtain k where "lg (n div 2) = Some k" using bytes.lg_returns [of "n div 2"] assms by auto
  then have k: "lg n = Some (k + 1)" using nz by (subst lg.simps) simp
  have "introsort_loop (\<le>) ((k + 1) * 2) 0 n (replicate n x) = None"
    using assms nz scan_up_runs_out [of x n 0] by (simp add: threshold_def median_def unguarded_partition.simps)
  then show ?thesis using k nz by (simp add: stl_sort_def)
qed

text \<open>\<open>partial_sort\<close> leaves the smallest elements, in order, in front of \<open>middle\<close>, and \<open>partial_sort_copy\<close>
  puts as many of the smallest elements as there is room for into the target range, in order; what it drops is not
  less than anything it keeps.  Both stay inside their ranges.\<close>

theorem partial_sort_selects:
  assumes "strict_weak lt" "first \<le> middle" "middle \<le> last'" "last' \<le> length a"
  shows "(\<exists>b. partial_sort lt first middle last' a = Some b \<and> perm_range first last' a b \<and> sorted_range lt first middle b
      \<and> (\<forall>j k. first \<le> j \<longrightarrow> j < middle \<longrightarrow> middle \<le> k \<longrightarrow> k < last' \<longrightarrow> \<not> lt (b ! k) (b ! j)))
    \<and> (\<exists>b D kept. partial_sort_copy lt xs first last' a = Some (b, kept) \<and> kept = first + min (length xs) (last' - first)
      \<and> outside first last' a b \<and> sorted_range lt first kept b \<and> mset (segment first kept b) + D = mset xs
      \<and> (\<forall>d \<in># D. \<forall>x \<in> set (segment first kept b). \<not> lt d x))"
  using strict_weak.partial_sort_correct [OF assms] strict_weak.partial_sort_copy_correct [OF assms(1), of first last' a xs] assms(2-4)
  by fastforce

theorem partial_sort_selects_witness:
  "(\<exists>b. partial_sort string_less 0 1 3 [''zz'', ''pin'', ''ip''] = Some b \<and> perm_range 0 3 [''zz'', ''pin'', ''ip''] b
      \<and> sorted_range string_less 0 1 b \<and> (\<forall>j k. 0 \<le> j \<longrightarrow> j < 1 \<longrightarrow> 1 \<le> k \<longrightarrow> k < 3 \<longrightarrow> \<not> string_less (b ! k) (b ! j)))
    \<and> (\<exists>b D kept. partial_sort_copy string_less [''b'', ''a'', ''d'', ''c''] 0 3 [''zz'', ''pin'', ''ip''] = Some (b, kept)
      \<and> kept = 0 + min (length [''b'', ''a'', ''d'', ''c'']) (3 - 0) \<and> outside 0 3 [''zz'', ''pin'', ''ip''] b
      \<and> sorted_range string_less 0 kept b \<and> mset (segment 0 kept b) + D = mset [''b'', ''a'', ''d'', ''c'']
      \<and> (\<forall>d \<in># D. \<forall>x \<in> set (segment 0 kept b). \<not> string_less d x))"
  by (rule partial_sort_selects [OF strings.strict_weak_axioms]) simp_all

text \<open>C38: the heap operations, judged by the library's own \<open>is_heap\<close>: \<open>make_heap\<close> permutes a range into a heap,
  \<open>push_heap\<close> takes in the element behind a heap, \<open>pop_heap\<close> moves a greatest element behind what is still a heap,
  and \<open>sort_heap\<close> sorts one.\<close>

theorem heap_operations:
  assumes "strict_weak lt" "first < last'" "last' \<le> length a" "last' \<le> length h" "last' \<le> length h'"
    and "is_heap lt first last' h = Some True" "is_heap lt first (last' - 1) h' = Some True"
  shows "(\<exists>b. make_heap lt first last' a = Some b \<and> perm_range first last' a b \<and> is_heap lt first last' b = Some True)
    \<and> (\<exists>b. push_heap lt first last' h' = Some b \<and> perm_range first last' h' b \<and> is_heap lt first last' b = Some True)
    \<and> (\<exists>b. pop_heap lt first last' h = Some b \<and> perm_range first last' h b \<and> is_heap lt first (last' - 1) b = Some True
        \<and> (\<forall>i. first \<le> i \<longrightarrow> i < last' \<longrightarrow> \<not> lt (b ! (last' - 1)) (b ! i)))
    \<and> (\<exists>b. sort_heap lt first last' h = Some b \<and> perm_range first last' h b \<and> sorted_range lt first last' b)"
proof (intro conjI)
  note w = assms(1)
  have len: "length c = length b" if "perm_range first last' b c" for b c using that by (rule perm_range_length)
  have heap: "is_heap lt first l b = Some True \<longleftrightarrow> strict_weak.heap_from lt (l - first) 0 (elem first b)"
    if "first \<le> l" "l \<le> length b" for l b
    using strict_weak.is_heap_correct [OF w that(2,1)] by simp
  have h: "strict_weak.heap_from lt (last' - first) 0 (elem first h)" using assms heap [of last' h] by simp
  have h': "strict_weak.heap_from lt (last' - first - 1) 0 (elem first h')"
    using assms heap [of "last' - 1" h'] by (simp add: diff_commute)
  show "\<exists>b. make_heap lt first last' a = Some b \<and> perm_range first last' a b \<and> is_heap lt first last' b = Some True"
    using strict_weak.make_heap_correct [OF w, of first last' a] assms heap len by (metis less_imp_le_nat)
  show "\<exists>b. push_heap lt first last' h' = Some b \<and> perm_range first last' h' b \<and> is_heap lt first last' b = Some True"
    using strict_weak.push_heap_correct [OF w assms(2,5) h'] assms heap len by (metis less_imp_le_nat)
  show "\<exists>b. sort_heap lt first last' h = Some b \<and> perm_range first last' h b \<and> sorted_range lt first last' b"
    using strict_weak.sort_heap_correct [OF w assms(4) h] .
  obtain b where b: "pop_heap lt first last' h = Some b" "perm_range first last' h b" "strict_weak.heap_from lt (last' - 1 - first) 0 (elem first b)"
    "\<forall>i. first \<le> i \<longrightarrow> i < last' \<longrightarrow> \<not> lt (b ! (last' - 1)) (b ! i)"
    using strict_weak.pop_heap_greatest [OF w assms(2,4) h] by blast
  moreover have "is_heap lt first (last' - 1) b = Some True" using heap [of "last' - 1" b] b(3) assms len [OF b(2)] by simp
  ultimately show "\<exists>b. pop_heap lt first last' h = Some b \<and> perm_range first last' h b \<and> is_heap lt first (last' - 1) b = Some True
      \<and> (\<forall>i. first \<le> i \<longrightarrow> i < last' \<longrightarrow> \<not> lt (b ! (last' - 1)) (b ! i))" by blast
qed

theorem heap_operations_witness:
  "(\<exists>b. make_heap string_less 0 2 [''ip'', ''pin''] = Some b \<and> perm_range 0 2 [''ip'', ''pin''] b \<and> is_heap string_less 0 2 b = Some True)
    \<and> (\<exists>b. push_heap string_less 0 2 [''ip'', ''pin''] = Some b \<and> perm_range 0 2 [''ip'', ''pin''] b \<and> is_heap string_less 0 2 b = Some True)
    \<and> (\<exists>b. pop_heap string_less 0 2 [''pin'', ''ip''] = Some b \<and> perm_range 0 2 [''pin'', ''ip''] b
        \<and> is_heap string_less 0 (2 - 1) b = Some True \<and> (\<forall>i. 0 \<le> i \<longrightarrow> i < 2 \<longrightarrow> \<not> string_less (b ! (2 - 1)) (b ! i)))
    \<and> (\<exists>b. sort_heap string_less 0 2 [''pin'', ''ip''] = Some b \<and> perm_range 0 2 [''pin'', ''ip''] b \<and> sorted_range string_less 0 2 b)"
proof (rule heap_operations [OF strings.strict_weak_axioms])
  show "is_heap string_less 0 2 [''pin'', ''ip''] = Some True"
    by (simp add: is_heap_def is_heap_loop.simps string_less_lexicographical byte_less_def)
  show "is_heap string_less 0 (2 - 1) [''ip'', ''pin''] = Some True" by (simp add: is_heap_def is_heap_loop.simps)
qed simp_all

text \<open>\<open>nth_element\<close> ends, stays inside its range, and leaves the element a sort would put at the position asked
  for there, with nothing greater in front of it and nothing less behind it.\<close>

theorem nth_element_selects:
  assumes "strict_weak lt" "first \<le> n" "n < last'" "last' \<le> length a"
  shows "\<exists>b. nth_element lt first n last' a = Some b \<and> perm_range first last' a b
    \<and> (\<forall>i. first \<le> i \<longrightarrow> i < n \<longrightarrow> \<not> lt (b ! n) (b ! i)) \<and> (\<forall>j. n < j \<longrightarrow> j < last' \<longrightarrow> \<not> lt (b ! j) (b ! n))"
  by (rule strict_weak.nth_element_correct [OF assms])

theorem nth_element_selects_witness:
  "\<exists>b. nth_element string_less 0 2 5 [''zz'', ''pin'', ''ip'', ''pinbin'', ''aa''] = Some b
    \<and> perm_range 0 5 [''zz'', ''pin'', ''ip'', ''pinbin'', ''aa''] b
    \<and> (\<forall>i. 0 \<le> i \<longrightarrow> i < 2 \<longrightarrow> \<not> string_less (b ! 2) (b ! i)) \<and> (\<forall>j. 2 < j \<longrightarrow> j < 5 \<longrightarrow> \<not> string_less (b ! j) (b ! 2))"
  by (rule nth_element_selects [OF strings.strict_weak_axioms]) simp_all

end
