(* ===== verification/StlMerge.thy ===== *)
theory StlMerge
  imports StlSearch
begin

text \<open>
  Algorithms of the C++ library (\<open>stl/_algo.c\<close>) over sorted ranges.  The ranges of the set operations are
  read by input iterators and the result goes to an output iterator: all are lists.  The binary searches work
  on positions, as in \<open>StlSearch\<close>.
\<close>

section \<open>Sorted ranges\<close>

fun merge :: "('a \<Rightarrow> 'a \<Rightarrow> bool) \<Rightarrow> 'a list \<Rightarrow> 'a list \<Rightarrow> 'a list" where
  "merge lt (x # xs) (y # ys) = (if lt y x then y # merge lt (x # xs) ys else x # merge lt xs (y # ys))"
| "merge lt xs ys = xs @ ys"

fun set_includes :: "('a \<Rightarrow> 'a \<Rightarrow> bool) \<Rightarrow> 'a list \<Rightarrow> 'a list \<Rightarrow> bool" where
  "set_includes lt (x # xs) (y # ys) =
     (if lt y x then False else if lt x y then set_includes lt xs (y # ys) else set_includes lt xs ys)"
| "set_includes lt xs ys = (ys = [])"

fun set_union :: "('a \<Rightarrow> 'a \<Rightarrow> bool) \<Rightarrow> 'a list \<Rightarrow> 'a list \<Rightarrow> 'a list" where
  "set_union lt (x # xs) (y # ys) =
     (if lt x y then x # set_union lt xs (y # ys)
      else if lt y x then y # set_union lt (x # xs) ys
      else x # set_union lt xs ys)"
| "set_union lt xs ys = xs @ ys"

fun set_intersection :: "('a \<Rightarrow> 'a \<Rightarrow> bool) \<Rightarrow> 'a list \<Rightarrow> 'a list \<Rightarrow> 'a list" where
  "set_intersection lt (x # xs) (y # ys) =
     (if lt x y then set_intersection lt xs (y # ys)
      else if lt y x then set_intersection lt (x # xs) ys
      else x # set_intersection lt xs ys)"
| "set_intersection lt xs ys = []"

fun set_difference :: "('a \<Rightarrow> 'a \<Rightarrow> bool) \<Rightarrow> 'a list \<Rightarrow> 'a list \<Rightarrow> 'a list" where
  "set_difference lt (x # xs) (y # ys) =
     (if lt x y then x # set_difference lt xs (y # ys)
      else if lt y x then set_difference lt (x # xs) ys
      else set_difference lt xs ys)"
| "set_difference lt xs ys = xs"

fun set_symmetric_difference :: "('a \<Rightarrow> 'a \<Rightarrow> bool) \<Rightarrow> 'a list \<Rightarrow> 'a list \<Rightarrow> 'a list" where
  "set_symmetric_difference lt (x # xs) (y # ys) =
     (if lt x y then x # set_symmetric_difference lt xs (y # ys)
      else if lt y x then y # set_symmetric_difference lt (x # xs) ys
      else set_symmetric_difference lt xs ys)"
| "set_symmetric_difference lt xs ys = xs @ ys"

section \<open>Binary search\<close>

function upper_bound_loop :: "('b \<Rightarrow> 'a \<Rightarrow> bool) \<Rightarrow> 'a list \<Rightarrow> 'b \<Rightarrow> nat \<Rightarrow> nat \<Rightarrow> nat" where
  "upper_bound_loop cmp2 xs val first len =
     (if len > 0 then
        let half = len div 2; middle = first + half in
        if cmp2 val (xs ! middle) then upper_bound_loop cmp2 xs val first half
        else upper_bound_loop cmp2 xs val (middle + 1) (len - half - 1)
      else first)"
  by auto

termination by (relation "measure (\<lambda>(cmp2, xs, val, first, len). len)") auto

declare upper_bound_loop.simps [simp del]

definition upper_bound :: "('b \<Rightarrow> 'a \<Rightarrow> bool) \<Rightarrow> 'a list \<Rightarrow> 'b \<Rightarrow> nat" where
  "upper_bound cmp2 xs val = upper_bound_loop cmp2 xs val 0 (length xs)"

function equal_range_loop :: "('a \<Rightarrow> 'b \<Rightarrow> bool) \<Rightarrow> ('b \<Rightarrow> 'a \<Rightarrow> bool) \<Rightarrow> 'a list \<Rightarrow> 'b \<Rightarrow> nat \<Rightarrow> nat \<Rightarrow> nat \<times> nat" where
  "equal_range_loop cmp1 cmp2 xs val first len =
     (if len > 0 then
        let half = len div 2; middle = first + half in
        if cmp1 (xs ! middle) val then equal_range_loop cmp1 cmp2 xs val (middle + 1) (len - half - 1)
        else if cmp2 val (xs ! middle) then equal_range_loop cmp1 cmp2 xs val first half
        else
          let left = lower_bound_loop cmp1 xs val first (middle - first) in
          if cmp1 (xs ! left) val then (left, left)
          else
            let last' = first + len;
                right = upper_bound_loop cmp2 xs val (middle + 1) (last' - (middle + 1))
            in (left, right)
      else (first, first))"
  by auto

termination by (relation "measure (\<lambda>(cmp1, cmp2, xs, val, first, len). len)") auto

declare equal_range_loop.simps [simp del]

definition equal_range :: "('a \<Rightarrow> 'b \<Rightarrow> bool) \<Rightarrow> ('b \<Rightarrow> 'a \<Rightarrow> bool) \<Rightarrow> 'a list \<Rightarrow> 'b \<Rightarrow> nat \<times> nat" where
  "equal_range cmp1 cmp2 xs val = equal_range_loop cmp1 cmp2 xs val 0 (length xs)"

definition binary_search :: "('a \<Rightarrow> 'b \<Rightarrow> bool) \<Rightarrow> ('b \<Rightarrow> 'a \<Rightarrow> bool) \<Rightarrow> 'a list \<Rightarrow> 'b \<Rightarrow> bool" where
  "binary_search cmp1 cmp2 xs val =
     (let i = lower_bound cmp1 xs val in i \<noteq> length xs \<and> \<not> cmp2 val (xs ! i))"

end
