(* ===== verification/StlMergeProps.thy ===== *)
theory StlMergeProps
  imports StlMerge StlSearchProps StlSortProps
begin

text \<open>
  What the algorithms over sorted ranges deliver, by the laws of a strict weak ordering.  Elements that
  neither precede nor follow each other are equivalent, not equal, so that the operations are described by the
  part of their result that is equivalent to an element \<open>z\<close>, for every \<open>z\<close>: how many elements it has, from
  which of the ranges they come, and in which order.
\<close>

definition ordered :: "('a \<Rightarrow> 'a \<Rightarrow> bool) \<Rightarrow> 'a list \<Rightarrow> bool" where
  "ordered lt xs = sorted_wrt (\<lambda>x y. \<not> lt y x) xs"

definition class_of :: "('a \<Rightarrow> 'a \<Rightarrow> bool) \<Rightarrow> 'a \<Rightarrow> 'a list \<Rightarrow> 'a list" where
  "class_of lt z xs = filter (\<lambda>x. \<not> lt z x \<and> \<not> lt x z) xs"

lemma ordered_simps [simp]:
  "ordered lt []"
  "ordered lt (x # xs) \<longleftrightarrow> (\<forall>y \<in> set xs. \<not> lt y x) \<and> ordered lt xs"
  by (simp_all add: ordered_def)

lemma class_of_simps [simp]:
  "class_of lt z [] = []"
  "class_of lt z (x # xs) = (if \<not> lt z x \<and> \<not> lt x z then x # class_of lt z xs else class_of lt z xs)"
  by (simp_all add: class_of_def)

lemma ordered_append:
  "ordered lt (xs @ ys) \<longleftrightarrow> ordered lt xs \<and> ordered lt ys \<and> (\<forall>x \<in> set xs. \<forall>y \<in> set ys. \<not> lt y x)"
  by (simp add: ordered_def sorted_wrt_append)

section \<open>The elements come from the two ranges\<close>

lemma set_union_subset: "set (set_union lt xs ys) \<subseteq> set xs \<union> set ys"
  by (induction lt xs ys rule: set_union.induct) auto

lemma set_intersection_subset: "set (set_intersection lt xs ys) \<subseteq> set xs"
  by (induction lt xs ys rule: set_intersection.induct) auto

lemma set_difference_subset: "set (set_difference lt xs ys) \<subseteq> set xs"
  by (induction lt xs ys rule: set_difference.induct) auto

lemma set_symmetric_difference_subset: "set (set_symmetric_difference lt xs ys) \<subseteq> set xs \<union> set ys"
  by (induction lt xs ys rule: set_symmetric_difference.induct) auto

lemma mset_merge: "mset (merge lt xs ys) = mset xs + mset ys"
  by (induction lt xs ys rule: merge.induct) auto

lemma set_merge [simp]: "set (merge lt xs ys) = set xs \<union> set ys"
  by (metis mset_merge set_mset_mset set_mset_union)

text \<open>All the loops take an element from one of the ranges or from both.\<close>

lemma two_ranges_induct [case_names Nil1 Nil2 Cons]:
  assumes "\<And>ys. P [] ys" and "\<And>x xs. P (x # xs) []"
    and "\<And>x xs y ys. P xs (y # ys) \<Longrightarrow> P (x # xs) ys \<Longrightarrow> P xs ys \<Longrightarrow> P (x # xs) (y # ys)"
  shows "P xs ys"
proof (induction xs arbitrary: ys)
  case (Cons x xs)
  then show ?case by (induction ys) (use assms in auto)
qed (rule assms(1))

context strict_weak begin

lemma le_head: "ordered lt (y # ys) \<Longrightarrow> w \<in> set (y # ys) \<Longrightarrow> \<not> lt w y"
  by auto

lemma before_all: "lt x y \<Longrightarrow> ordered lt (y # ys) \<Longrightarrow> w \<in> set (y # ys) \<Longrightarrow> \<not> lt w x"
  by (rule less_le [OF less_le_trans [OF _ le_head]])

lemma before_class:
  assumes "lt x y" "ordered lt (y # ys)" "\<not> lt z x \<and> \<not> lt x z"
  shows "class_of lt z (y # ys) = []"
proof -
  have "lt z w" if "w \<in> set (y # ys)" for w
    using le_less_trans [OF _ less_le_trans [OF assms(1) le_head [OF assms(2) that]]] assms(3) by blast
  then show ?thesis unfolding class_of_def filter_empty_conv by blast
qed

lemma same_class: "\<not> lt x y \<Longrightarrow> \<not> lt y x \<Longrightarrow> (\<not> lt z x \<and> \<not> lt x z) \<longleftrightarrow> (\<not> lt z y \<and> \<not> lt y z)"
  by (meson not_less_trans)

lemma equal_all: "\<not> lt y x \<Longrightarrow> ordered lt (y # ys) \<Longrightarrow> w \<in> set ys \<Longrightarrow> \<not> lt w x"
  using not_less_trans [of w y x] by auto

section \<open>Merging\<close>

lemma merge_ordered: "ordered lt xs \<Longrightarrow> ordered lt ys \<Longrightarrow> ordered lt (merge lt xs ys)"
proof (induction xs ys rule: two_ranges_induct)
  case (Cons x xs y ys)
  show ?case
  proof (cases "lt y x")
    case True
    have "\<not> lt w y" if "w \<in> set (x # xs)" for w by (rule before_all [OF True Cons.prems(1) that])
    with True Cons show ?thesis by auto
  next
    case False
    with Cons show ?thesis using equal_all [OF False Cons.prems(2)] by auto
  qed
qed simp_all

lemma merge_class: "ordered lt xs \<Longrightarrow> ordered lt ys \<Longrightarrow> class_of lt z (merge lt xs ys) = class_of lt z xs @ class_of lt z ys"
proof (induction xs ys rule: two_ranges_induct)
  case (Cons x xs y ys)
  show ?case
  proof (cases "lt y x")
    case True
    show ?thesis
    proof (cases "\<not> lt z y \<and> \<not> lt y z")
      case c: True
      with True Cons before_class [OF True Cons.prems(1) c] show ?thesis by (simp del: class_of_simps(2) add: class_of_simps(2) [of lt z y])
    qed (use True Cons in auto)
  qed (use Cons in auto)
qed simp_all

section \<open>Set operations\<close>

text \<open>Of \<open>m\<close> elements of the first range and \<open>n\<close> of the second that are equivalent to \<open>z\<close>: the union has the larger
  number, the intersection the smaller one, the differences what is left.\<close>

lemma set_operations_class:
  "ordered lt xs \<Longrightarrow> ordered lt ys \<Longrightarrow>
     class_of lt z (set_union lt xs ys) = class_of lt z xs @ drop (length (class_of lt z xs)) (class_of lt z ys)
   \<and> class_of lt z (set_intersection lt xs ys) = take (length (class_of lt z ys)) (class_of lt z xs)
   \<and> class_of lt z (set_difference lt xs ys) = drop (length (class_of lt z ys)) (class_of lt z xs)
   \<and> class_of lt z (set_symmetric_difference lt xs ys) =
       drop (length (class_of lt z ys)) (class_of lt z xs) @ drop (length (class_of lt z xs)) (class_of lt z ys)"
proof (induction xs ys rule: two_ranges_induct)
  case (Cons x xs y ys)
  consider "lt x y" | "lt y x" "\<not> lt x y" | "\<not> lt x y" "\<not> lt y x" by blast
  then show ?case
  proof cases
    case 1
    show ?thesis
    proof (cases "\<not> lt z x \<and> \<not> lt x z")
      case c: True
      with 1 Cons before_class [OF 1 Cons.prems(2) c] show ?thesis by (simp del: class_of_simps(2) add: class_of_simps(2) [of lt z x])
    qed (use 1 Cons in auto)
  next
    case 2
    show ?thesis
    proof (cases "\<not> lt z y \<and> \<not> lt y z")
      case c: True
      with 2 Cons before_class [OF 2(1) Cons.prems(1) c] show ?thesis by (simp del: class_of_simps(2) add: class_of_simps(2) [of lt z y])
    qed (use 2 Cons in auto)
  next
    case 3
    with Cons same_class [OF 3] show ?thesis by auto
  qed
qed simp_all

lemma set_operations_all:
  assumes "\<forall>w \<in> set xs. P w" "\<forall>w \<in> set ys. P w"
  shows "\<forall>w \<in> set (set_union lt xs ys). P w" "\<forall>w \<in> set (set_intersection lt xs ys). P w"
    "\<forall>w \<in> set (set_difference lt xs ys). P w" "\<forall>w \<in> set (set_symmetric_difference lt xs ys). P w"
  using assms set_union_subset [of lt xs ys] set_intersection_subset [of lt xs ys]
    set_difference_subset [of lt xs ys] set_symmetric_difference_subset [of lt xs ys] by blast+

lemma set_operations_ordered:
  "ordered lt xs \<Longrightarrow> ordered lt ys \<Longrightarrow> ordered lt (set_union lt xs ys) \<and> ordered lt (set_intersection lt xs ys)
     \<and> ordered lt (set_difference lt xs ys) \<and> ordered lt (set_symmetric_difference lt xs ys)"
proof (induction xs ys rule: two_ranges_induct)
  case (Cons x xs y ys)
  have x: "\<forall>w \<in> set xs. \<not> lt w x" and y: "\<forall>w \<in> set ys. \<not> lt w y" using Cons.prems by auto
  consider "lt x y" | "lt y x" "\<not> lt x y" | "\<not> lt x y" "\<not> lt y x" by blast
  then show ?case
  proof cases
    case 1
    have a: "\<forall>w \<in> set (y # ys). \<not> lt w x" by (rule ballI, rule before_all [OF 1 Cons.prems(2)])
    show ?thesis using 1 asym [OF 1] Cons x a set_operations_all [OF x a] by simp
  next
    case 2
    have a: "\<forall>w \<in> set (x # xs). \<not> lt w y" by (rule ballI, rule before_all [OF 2(1) Cons.prems(1)])
    show ?thesis using 2 Cons y a set_operations_all [OF a y] by simp
  next
    case 3
    have a: "\<forall>w \<in> set ys. \<not> lt w x" by (rule ballI, rule equal_all [OF 3(2) Cons.prems(2)])
    show ?thesis using 3 Cons x a set_operations_all [OF x a] by simp
  qed
qed simp_all

lemma set_includes_class:
  "ordered lt xs \<Longrightarrow> ordered lt ys \<Longrightarrow>
   set_includes lt xs ys \<longleftrightarrow> (\<forall>z. length (class_of lt z ys) \<le> length (class_of lt z xs))"
proof (induction xs ys rule: two_ranges_induct)
  case (Nil1 ys)
  show ?case by (cases ys) (auto intro!: exI [of _ "hd ys"])
next
  case (Cons x xs y ys)
  consider "lt x y" | "lt y x" | "\<not> lt x y" "\<not> lt y x" by blast
  then show ?case
  proof cases
    case 1
    have "length (class_of lt z (y # ys)) \<le> length (class_of lt z (x # xs))
        \<longleftrightarrow> length (class_of lt z (y # ys)) \<le> length (class_of lt z xs)" for z
      using before_class [OF 1 Cons.prems(2), of z] class_of_simps(2) [of lt z x xs] by (cases "\<not> lt z x \<and> \<not> lt x z") (simp_all del: class_of_simps(2))
    with 1 Cons asym show ?thesis by simp
  next
    case 2
    have "\<not> length (class_of lt y (y # ys)) \<le> length (class_of lt y (x # xs))" using before_class [OF 2 Cons.prems(1), of y] by simp
    with 2 show ?thesis by (auto simp del: class_of_simps)
  next
    case 3
    have "length (class_of lt z (y # ys)) \<le> length (class_of lt z (x # xs)) \<longleftrightarrow> length (class_of lt z ys) \<le> length (class_of lt z xs)" for z
      using same_class [OF 3, of z] by simp
    with 3 Cons show ?thesis by (simp del: class_of_simps)
  qed
qed simp_all

end

section \<open>Binary search\<close>

text \<open>\<open>upper_bound\<close> is \<open>lower_bound\<close> with another comparison.\<close>

lemma upper_bound_loop_lower: "upper_bound_loop cmp2 xs v first len = lower_bound_loop (\<lambda>x v. \<not> cmp2 v x) xs v first len"
proof (induction cmp2 xs v first len rule: upper_bound_loop.induct)
  case (1 cmp2 xs v first len)
  then show ?case by (subst upper_bound_loop.simps, subst lower_bound_loop.simps) (auto simp: Let_def)
qed

lemma upper_bound_loop_eq:
  assumes "first \<le> k" "k \<le> first + len"
    and "\<forall>i < k. \<not> cmp2 v (xs ! i)" and "\<forall>i. k \<le> i \<and> i < first + len \<longrightarrow> cmp2 v (xs ! i)"
  shows "upper_bound_loop cmp2 xs v first len = k"
  unfolding upper_bound_loop_lower by (rule lower_bound_loop_eq) (use assms in auto)

lemma equal_range_loop_eq:
  assumes "first \<le> l" "l \<le> u" "u \<le> first + len"
    and "\<forall>i < l. cmp1 (xs ! i) v" and "\<forall>i. l \<le> i \<and> i < first + len \<longrightarrow> \<not> cmp1 (xs ! i) v"
    and "\<forall>i < u. \<not> cmp2 v (xs ! i)" and "\<forall>i. u \<le> i \<and> i < first + len \<longrightarrow> cmp2 v (xs ! i)"
  shows "equal_range_loop cmp1 cmp2 xs v first len = (l, u)"
  using assms
proof (induction cmp1 cmp2 xs v first len rule: equal_range_loop.induct)
  case (1 cmp1 cmp2 xs v first len)
  show ?case
  proof (cases "len = 0")
    case True
    with "1.prems" show ?thesis by (simp add: equal_range_loop.simps)
  next
    case False
    let ?m = "first + len div 2"
    have m: "?m < first + len" using False by simp
    consider "cmp1 (xs ! ?m) v" | "\<not> cmp1 (xs ! ?m) v" "cmp2 v (xs ! ?m)" | "\<not> cmp1 (xs ! ?m) v" "\<not> cmp2 v (xs ! ?m)" by blast
    then show ?thesis
    proof cases
      case c: 1
      with "1.prems"(5) m have "?m < l" by (metis not_less)
      then have "equal_range_loop cmp1 cmp2 xs v (?m + 1) (len - len div 2 - 1) = (l, u)"
        using "1.IH"(1) [OF _ refl refl c] False "1.prems" by auto
      with c False show ?thesis by (subst equal_range_loop.simps) (simp add: Let_def)
    next
      case c: 2
      with "1.prems"(6) have "u \<le> ?m" by (metis not_less)
      then have "equal_range_loop cmp1 cmp2 xs v first (len div 2) = (l, u)"
        using "1.IH"(2) [OF _ refl refl c] False "1.prems" m by auto
      with c False show ?thesis by (subst equal_range_loop.simps) (simp add: Let_def)
    next
      case c: 3
      have l: "l \<le> ?m" using c(1) "1.prems"(4) by (metis not_less)
      have u: "?m < u" using c(2) "1.prems"(7) m by (metis not_less)
      have "lower_bound_loop cmp1 xs v first (?m - first) = l"
        by (rule lower_bound_loop_eq) (use "1.prems" l m in auto)
      moreover have "upper_bound_loop cmp2 xs v (?m + 1) (first + len - (?m + 1)) = u"
        by (rule upper_bound_loop_eq) (use "1.prems" u m in auto)
      moreover have "\<not> cmp1 (xs ! l) v" using "1.prems"(5) l m by auto
      ultimately show ?thesis using c False by (subst equal_range_loop.simps) (simp add: Let_def)
    qed
  qed
qed

context strict_weak begin

text \<open>In a sorted range the elements less than \<open>v\<close>, those equivalent to it and those greater follow each other.\<close>

lemma three_parts:
  assumes o: "ordered lt xs"
  obtains l u where "l \<le> u" "u \<le> length xs" "\<forall>i < l. lt (xs ! i) v" "\<forall>i. l \<le> i \<and> i < length xs \<longrightarrow> \<not> lt (xs ! i) v"
    "\<forall>i < u. \<not> lt v (xs ! i)" "\<forall>i. u \<le> i \<and> i < length xs \<longrightarrow> lt v (xs ! i)"
proof -
  define l where "l = find_if_input (\<lambda>x. \<not> lt x v) xs"
  define u where "u = find_if_input (\<lambda>x. lt v x) xs"
  have mono: "\<not> lt (xs ! j) (xs ! i)" if "i \<le> j" "j < length xs" for i j
    using o that sorted_wrt_nth_less [of _ xs i j] by (cases "i = j") (auto simp: ordered_def)
  have ln: "l \<le> length xs" and un: "u \<le> length xs" by (simp_all add: l_def u_def find_if_input_le)
  have l1: "lt (xs ! i) v" if "i < l" for i using find_if_input_before [of i "\<lambda>x. \<not> lt x v" xs] that by (simp add: l_def)
  have u1: "\<not> lt v (xs ! i)" if "i < u" for i using find_if_input_before [of i "\<lambda>x. lt v x" xs] that by (simp add: u_def)
  have l2: "\<not> lt (xs ! i) v" if "l \<le> i" "i < length xs" for i
    using find_if_input_at [of "\<lambda>x. \<not> lt x v" xs] that le_trans [OF _ mono [OF that], of v] by (simp add: l_def)
  have u2: "lt v (xs ! i)" if "u \<le> i" "i < length xs" for i
    using find_if_input_at [of "\<lambda>x. lt v x" xs] that less_le_trans [OF _ mono [OF that], of v] by (simp add: u_def)
  have "l \<le> u"
  proof (rule ccontr)
    assume "\<not> l \<le> u"
    then show False using l1 [of u] u2 [of u] ln asym [of "xs ! u" v] by simp
  qed
  with that ln un l1 l2 u1 u2 show ?thesis by blast
qed

lemma binary_searches:
  assumes o: "ordered lt xs"
  shows "equal_range lt lt xs v = (lower_bound lt xs v, upper_bound lt xs v)"
    and "lower_bound lt xs v \<le> upper_bound lt xs v" "upper_bound lt xs v \<le> length xs"
    and "xs = filter (\<lambda>x. lt x v) xs @ class_of lt v xs @ filter (\<lambda>x. lt v x) xs"
    and "lower_bound lt xs v = length (filter (\<lambda>x. lt x v) xs)"
    and "upper_bound lt xs v = lower_bound lt xs v + length (class_of lt v xs)"
    and "binary_search lt lt xs v \<longleftrightarrow> class_of lt v xs \<noteq> []"
proof -
  obtain l u where p: "l \<le> u" "u \<le> length xs" "\<forall>i < l. lt (xs ! i) v" "\<forall>i. l \<le> i \<and> i < length xs \<longrightarrow> \<not> lt (xs ! i) v"
    "\<forall>i < u. \<not> lt v (xs ! i)" "\<forall>i. u \<le> i \<and> i < length xs \<longrightarrow> lt v (xs ! i)" by (rule three_parts [OF o])
  have l: "lower_bound lt xs v = l" unfolding lower_bound_def by (rule lower_bound_loop_eq) (use p in auto)
  have u: "upper_bound lt xs v = u" unfolding upper_bound_def by (rule upper_bound_loop_eq) (use p in auto)
  have e: "equal_range lt lt xs v = (l, u)" unfolding equal_range_def by (rule equal_range_loop_eq) (use p in auto)
  show "equal_range lt lt xs v = (lower_bound lt xs v, upper_bound lt xs v)" by (simp add: l u e)
  show "lower_bound lt xs v \<le> upper_bound lt xs v" "upper_bound lt xs v \<le> length xs" using p by (simp_all add: l u)
  define as where "as = take l xs"
  define bs where "bs = take (u - l) (drop l xs)"
  define cs where "cs = drop u xs"
  have xs: "xs = as @ bs @ cs"
    using append_take_drop_id [of "u - l" "drop l xs"] p(1) by (simp add: as_def bs_def cs_def)
  have a: "lt x v" "\<not> lt v x" if "x \<in> set as" for x
    using that p(3) p(5) p(1,2) by (auto simp: as_def in_set_conv_nth)
  have b: "\<not> lt x v" "\<not> lt v x" if "x \<in> set bs" for x
    using that p(4) p(5) p(2) by (auto simp: bs_def in_set_conv_nth)
  have c: "lt v x" "\<not> lt x v" if "x \<in> set cs" for x
    using that p(4) p(6) p(1) by (auto simp: cs_def in_set_conv_nth)
  have fa: "filter (\<lambda>x. lt x v) xs = as" using a b c by (simp add: xs filter_empty_conv filter_id_conv)
  have fb: "class_of lt v xs = bs" using a b c by (simp add: xs class_of_def filter_empty_conv filter_id_conv)
  have fc: "filter (\<lambda>x. lt v x) xs = cs" using a b c by (simp add: xs filter_empty_conv filter_id_conv)
  show "xs = filter (\<lambda>x. lt x v) xs @ class_of lt v xs @ filter (\<lambda>x. lt v x) xs" using xs unfolding fa fb fc .
  show "lower_bound lt xs v = length (filter (\<lambda>x. lt x v) xs)" using p by (simp add: l fa as_def)
  show "upper_bound lt xs v = lower_bound lt xs v + length (class_of lt v xs)" using p by (simp add: l u fb bs_def)
  show "binary_search lt lt xs v \<longleftrightarrow> class_of lt v xs \<noteq> []"
  proof (cases "l = u")
    case True
    then have "bs = []" by (simp add: bs_def)
    moreover have "u = length xs \<or> lt v (xs ! u)" using p(2,6) by (cases "u = length xs") auto
    ultimately show ?thesis using True by (simp add: binary_search_def l fb)
  next
    case False
    then have "bs \<noteq> []" using p(1,2) by (simp add: bs_def)
    then show ?thesis using p(1,2,5) False by (simp add: binary_search_def l fb)
  qed
qed

end

section \<open>The properties\<close>

text \<open>C39: the operations on sorted ranges, with repeated and with equivalent elements, deliver sorted
  ranges.  Where \<open>m\<close> elements of the first range and \<open>n\<close> of the second are equivalent to \<open>z\<close>, the union has those
  \<open>m\<close> and behind them the \<open>n - m\<close> last of the second; the intersection has the first \<open>n\<close> of the \<open>m\<close>, the
  difference the others; the symmetric difference has what is left over in either range.  \<open>includes\<close> says
  whether the second range never has more of them than the first.\<close>

theorem set_operations_by_class:
  assumes "strict_weak lt" "ordered lt xs" "ordered lt ys"
  shows "ordered lt (set_union lt xs ys) \<and> ordered lt (set_intersection lt xs ys)
    \<and> ordered lt (set_difference lt xs ys) \<and> ordered lt (set_symmetric_difference lt xs ys)
    \<and> (\<forall>z. class_of lt z (set_union lt xs ys) = class_of lt z xs @ drop (length (class_of lt z xs)) (class_of lt z ys)
        \<and> class_of lt z (set_intersection lt xs ys) = take (length (class_of lt z ys)) (class_of lt z xs)
        \<and> class_of lt z (set_difference lt xs ys) = drop (length (class_of lt z ys)) (class_of lt z xs)
        \<and> class_of lt z (set_symmetric_difference lt xs ys) = drop (length (class_of lt z ys)) (class_of lt z xs) @ drop (length (class_of lt z xs)) (class_of lt z ys))
    \<and> (set_includes lt xs ys \<longleftrightarrow> (\<forall>z. length (class_of lt z ys) \<le> length (class_of lt z xs)))"
  using strict_weak.set_operations_ordered [OF assms(1-3)] strict_weak.set_operations_class [OF assms(1-3)]
    strict_weak.set_includes_class [OF assms(1-3)] by simp

theorem set_operations_by_class_witness:
  "class_of string_less ''ip'' (set_symmetric_difference string_less [''call'', ''ip'', ''ip'', ''ret''] [''ip'', ''jmp'']) = [''ip'']"
proof -
  have o: "ordered string_less [''call'', ''ip'', ''ip'', ''ret'']" "ordered string_less [''ip'', ''jmp'']" by code_simp+
  have "class_of string_less ''ip'' [''call'', ''ip'', ''ip'', ''ret''] = [''ip'', ''ip'']"
    "class_of string_less ''ip'' [''ip'', ''jmp''] = [''ip'']" by code_simp+
  then show ?thesis using set_operations_by_class [OF strings.strict_weak_axioms o] by simp
qed

text \<open>\<open>merge\<close> of two sorted ranges has the elements of both, is sorted, and is stable: among equivalent
  elements those of the first range come first, and within each range their order is kept.\<close>

theorem merge_stable:
  assumes "strict_weak lt" "ordered lt xs" "ordered lt ys"
  shows "ordered lt (merge lt xs ys) \<and> mset (merge lt xs ys) = mset xs + mset ys
    \<and> (\<forall>z. class_of lt z (merge lt xs ys) = class_of lt z xs @ class_of lt z ys)"
  using strict_weak.merge_ordered [OF assms] strict_weak.merge_class [OF assms] by (simp add: mset_merge)

theorem merge_stable_witness:
  "ordered string_less (merge string_less [''call'', ''ret''] [''ip'', ''jmp''])"
proof -
  have o: "ordered string_less [''call'', ''ret'']" "ordered string_less [''ip'', ''jmp'']" by code_simp+
  show ?thesis using merge_stable [OF strings.strict_weak_axioms o] by blast
qed

text \<open>on a sorted range \<open>equal_range\<close>, with its shortcut, is the pair of \<open>lower_bound\<close> and \<open>upper_bound\<close>;
  the range is what is less than the value, what is equivalent to it and what is greater, and these are the
  two positions between the parts.  \<open>binary_search\<close> tells whether the middle part is there.\<close>

theorem binary_searches_agree:
  assumes "strict_weak lt" "ordered lt xs"
  shows "equal_range lt lt xs v = (lower_bound lt xs v, upper_bound lt xs v)
    \<and> xs = filter (\<lambda>x. lt x v) xs @ class_of lt v xs @ filter (\<lambda>x. lt v x) xs
    \<and> lower_bound lt xs v = length (filter (\<lambda>x. lt x v) xs)
    \<and> upper_bound lt xs v = lower_bound lt xs v + length (class_of lt v xs)
    \<and> (binary_search lt lt xs v \<longleftrightarrow> class_of lt v xs \<noteq> [])"
  using strict_weak.binary_searches [OF assms, of v] by blast

theorem binary_searches_agree_witness:
  "equal_range string_less string_less [''call'', ''ip'', ''ip'', ''ret''] ''ip'' = (1, 3)"
proof -
  have o: "ordered string_less [''call'', ''ip'', ''ip'', ''ret'']" by code_simp
  have "filter (\<lambda>x. string_less x ''ip'') [''call'', ''ip'', ''ip'', ''ret''] = [''call'']"
    "class_of string_less ''ip'' [''call'', ''ip'', ''ip'', ''ret''] = [''ip'', ''ip'']" by code_simp+
  then show ?thesis using binary_searches_agree [OF strings.strict_weak_axioms o, of "''ip''"] by simp
qed

end
