(* ===== verification/StlNumbers.thy ===== *)
theory StlNumbers
  imports StlStreams "HOL-Library.Monad_Syntax"
begin

unbundle bit_operations_syntax

text \<open>
  Numbers in text: the extraction and insertion of integers by the streams of the C++ library
  (\<open>stl/_num_get.c\<close>, \<open>stl/_num_put.c\<close>, and the operators of \<open>_istream.c\<close> and \<open>_ostream.c\<close> that call them).
  An integer of \<open>w\<close> bits is a \<open>w\<close>-bit word, signed or not as the type of the code is; \<open>long\<close> has 64 bits.  A range of
  input iterators is the list of the characters left in it, and what is written through an output iterator
  a list of characters.  \<open>None\<close> is an access outside of an array of the code.

  What is compiled into the library and not among the sources is a parameter: the table of the digits' values, the
  characters of signs and prefixes, the hexadecimal digits, and the two routines for groups of digits; so
  is what the locale's facets answer.
\<close>

section \<open>Parameters and flags\<close>

record num_env =
  digit_val_table :: "nat \<Rightarrow> nat"
  narrow_atoms :: string
  hex_char_table_lo :: string
  hex_char_table_hi :: string
  valid_grouping :: "8 word list \<Rightarrow> string \<Rightarrow> bool"
  insert_grouping :: "string \<Rightarrow> string \<Rightarrow> char \<Rightarrow> nat \<Rightarrow> string"
  thousands_sep :: char
  decimal_point :: char
  grouping :: string
  truename :: string
  falsename :: string

datatype fmtflag = Oct | Dec | Hex | Left_adjust | Right_adjust | Internal_adjust | Showbase | Showpos | Uppercase | Boolalpha

type_synonym fmtflags = "fmtflag set"

definition basefield :: fmtflags where
  "basefield = {Oct, Dec, Hex}"

definition adjustfield :: fmtflags where
  "adjustfield = {Left_adjust, Right_adjust, Internal_adjust}"

section \<open>Reading integers\<close>

definition get_digit_from_table :: "num_env \<Rightarrow> char \<Rightarrow> nat" where
  "get_digit_from_table env c = (let index = of_char c :: nat in if index > 127 then 255 else digit_val_table env index)"

text \<open>The sign, and the prefix that fixes the base: the base, whether a zero was read that is valid by
  itself, and what is left.\<close>

definition get_sign :: "num_env \<Rightarrow> string \<Rightarrow> bool \<times> string" where
  "get_sign env xs = (case xs of [] \<Rightarrow> (False, [])
     | c # cs \<Rightarrow> if c = narrow_atoms env ! 1 then (True, cs) else if c = narrow_atoms env ! 0 then (False, cs) else (False, xs))"

definition is_x :: "num_env \<Rightarrow> char \<Rightarrow> bool" where
  "is_x env c = (c = narrow_atoms env ! 3 \<or> c = narrow_atoms env ! 4)"

definition get_base :: "num_env \<Rightarrow> fmtflags \<Rightarrow> string \<Rightarrow> nat \<times> nat \<times> string" where
  "get_base env flags xs =
     (let field = flags \<inter> basefield; zero = (xs \<noteq> [] \<and> hd xs = narrow_atoms env ! 2); cs = tl xs in
      if field = {Oct} then (8, 0, xs)
      else if field = {Dec} then (10, 0, xs)
      else if field = {Hex} then
        (if zero then (if cs \<noteq> [] \<and> is_x env (hd cs) then (16, 0, tl cs) else (16, 1, cs)) else (16, 0, xs))
      else
        (if zero then (if cs \<noteq> [] \<and> is_x env (hd cs) then (16, 0, tl cs) else (8, 1, cs)) else (10, 0, xs)))"

text \<open>The three results are packed into an integer.\<close>

definition get_base_or_zero :: "num_env \<Rightarrow> fmtflags \<Rightarrow> string \<Rightarrow> (nat \<times> string) option" where
  "get_base_or_zero env flags xs =
     (if xs = [] then None
      else let (negative, xs) = get_sign env xs; (base, valid_zero, xs) = get_base env flags xs
           in Some (push_bit 2 base OR push_bit 1 (of_bool negative) OR valid_zero, xs))"

text \<open>The state of the loop.  \<open>sizes\<close> is \<open>__group_sizes\<close> up to \<open>__group_sizes_end\<close>; the array has 64 elements.\<close>

record 'w digits_read =
  ovflow :: bool
  result :: 'w
  got :: nat
  sizes :: "8 word list"
  current :: "8 word"

definition push_size :: "8 word \<Rightarrow> 8 word list \<Rightarrow> 8 word list option" where
  "push_size n ns = (if length ns < 64 then Some (ns @ [n]) else None)"

text \<open>\<open>numeric_limits\<close> of a signed type.\<close>

definition smin :: "'a::len word" where
  "smin = push_bit (LENGTH('a) - 1) 1"

definition smax :: "'a::len word" where
  "smax = smin - 1"

text \<open>The limit \<open>min / base\<close> is a division of C, which rounds towards zero.\<close>

definition add_digit_signed :: "nat \<Rightarrow> nat \<Rightarrow> 'a::len word digits_read \<Rightarrow> 'a word digits_read" where
  "add_digit_signed base n a =
     (let over_base = word_of_int (- (2 ^ (LENGTH('a) - 1) div int base));
          a = a\<lparr>got := got a + 1, current := current a + 1\<rparr> in
      if result a <s over_base then a\<lparr>ovflow := True\<rparr>
      else
        let nxt = of_nat base * result a - of_nat n;
            a = (if result a \<noteq> 0 then a\<lparr>ovflow := (ovflow a \<or> result a \<le>s nxt)\<rparr> else a)
        in a\<lparr>result := nxt\<rparr>)"

definition add_digit_unsigned :: "nat \<Rightarrow> nat \<Rightarrow> 'a::len word digits_read \<Rightarrow> 'a word digits_read" where
  "add_digit_unsigned base n a =
     (let over_base = (- 1) div of_nat base;
          a = a\<lparr>got := got a + 1, current := current a + 1\<rparr> in
      if result a > over_base then a\<lparr>ovflow := True\<rparr>
      else
        let nxt = of_nat base * result a + of_nat n;
            a = (if result a \<noteq> 0 then a\<lparr>ovflow := (ovflow a \<or> nxt \<le> result a)\<rparr> else a)
        in a\<lparr>result := nxt\<rparr>)"

fun digits_loop ::
    "num_env \<Rightarrow> nat \<Rightarrow> (nat \<Rightarrow> 'w digits_read \<Rightarrow> 'w digits_read) \<Rightarrow> string \<Rightarrow> 'w digits_read \<Rightarrow> ('w digits_read \<times> string) option" where
  "digits_loop env base add_digit [] a = Some (a, [])"
| "digits_loop env base add_digit (c # cs) a =
     (if grouping env \<noteq> [] \<and> c = thousands_sep env then
        Option.bind (push_size (current a) (sizes a)) (\<lambda>ns. digits_loop env base add_digit cs (a\<lparr>sizes := ns, current := 0\<rparr>))
      else
        let n = get_digit_from_table env c in
        if n \<ge> base then Some (a, c # cs) else digits_loop env base add_digit cs (add_digit n a))"

definition last_group :: "num_env \<Rightarrow> 'w digits_read \<Rightarrow> 8 word list option" where
  "last_group env a = (if grouping env \<noteq> [] \<and> sizes a \<noteq> [] then push_size (current a) (sizes a) else Some (sizes a))"

text \<open>The two versions of \<open>__get_integer\<close>: whether it succeeded, the value if it was assigned to, what is left.\<close>

definition get_integer_signed ::
    "num_env \<Rightarrow> nat \<Rightarrow> nat \<Rightarrow> bool \<Rightarrow> string \<Rightarrow> (bool \<times> 'a::len word option \<times> string) option" where
  "get_integer_signed env base got0 is_negative xs = do {
     (a, xs) \<leftarrow> digits_loop env base (add_digit_signed base) xs \<lparr>ovflow = False, result = 0, got = got0, sizes = [], current = 0\<rparr>;
     let ovf = (ovflow a \<or> result a = smin \<and> \<not> is_negative);
     ns \<leftarrow> last_group env a;
     let val = (if ovf then (if is_negative then smin else smax) else if is_negative then result a else - result a);
     Some (got a > 0 \<and> \<not> ovf \<and> (grouping env = [] \<or> valid_grouping env ns (grouping env)),
       if got a > 0 then Some val else None, xs)
   }"

definition get_integer_unsigned ::
    "num_env \<Rightarrow> nat \<Rightarrow> nat \<Rightarrow> bool \<Rightarrow> string \<Rightarrow> (bool \<times> 'a::len word option \<times> string) option" where
  "get_integer_unsigned env base got0 is_negative xs = do {
     (a, xs) \<leftarrow> digits_loop env base (add_digit_unsigned base) xs \<lparr>ovflow = False, result = 0, got = got0, sizes = [], current = 0\<rparr>;
     ns \<leftarrow> last_group env a;
     let val = (if ovflow a then - 1 else if is_negative then - result a else result a);
     Some (got a > 0 \<and> \<not> ovflow a \<and> (grouping env = [] \<or> valid_grouping env ns (grouping env)),
       if got a > 0 then Some val else None, xs)
   }"

definition get_decimal_integer :: "num_env \<Rightarrow> string \<Rightarrow> (bool \<times> 'a::len word option \<times> string) option" where
  "get_decimal_integer env xs = get_integer_unsigned (env\<lparr>grouping := []\<rparr>) 10 0 False xs"

text \<open>The value, if it was assigned to, the state to set, what is left.\<close>

definition do_get_integer :: "num_env \<Rightarrow> fmtflags \<Rightarrow> bool \<Rightarrow> string \<Rightarrow> ('a::len word option \<times> iostate \<times> string) option" where
  "do_get_integer env flags is_signed xs = do {
     (base_or_zero, xs) \<leftarrow> get_base_or_zero env flags xs;
     let got0 = base_or_zero AND 1;
     (ok, val, xs) \<leftarrow>
       (if xs = [] then Some (if got0 > 0 then (True, Some 0, xs) else (False, None, xs))
        else
          let negative = (base_or_zero AND 2 \<noteq> 0); base = drop_bit 2 base_or_zero in
          if is_signed then get_integer_signed env base got0 negative xs
          else get_integer_unsigned env base got0 negative xs);
     Some (val, (if ok then {} else {failbit}) \<union> (if xs = [] then {eofbit} else {}), xs)
   }"

section \<open>Reading truth values, pointers and the text of floating point numbers\<close>

text \<open>Indexing a string: behind its characters there is the terminating null character.\<close>

definition char_at :: "string \<Rightarrow> nat \<Rightarrow> char option" where
  "char_at s n = (if n < length s then Some (s ! n) else if n = length s then Some (CHR 0x00) else None)"

definition matches_at :: "bool \<Rightarrow> char \<Rightarrow> string \<Rightarrow> nat \<Rightarrow> bool option" where
  "matches_at ok c s n = (if ok then map_option (\<lambda>d. c = d) (char_at s n) else Some False)"

fun alphabool_loop :: "num_env \<Rightarrow> string \<Rightarrow> bool \<Rightarrow> bool \<Rightarrow> nat \<Rightarrow> (bool \<times> bool \<times> nat \<times> string) option" where
  "alphabool_loop env [] true_ok false_ok n = Some (true_ok, false_ok, n, [])"
| "alphabool_loop env (c # cs) true_ok false_ok n = do {
     t \<leftarrow> matches_at true_ok c (truename env) n;
     f \<leftarrow> matches_at false_ok c (falsename env) n;
     if \<not> t \<and> \<not> f \<or> t \<and> n + 1 \<ge> length (truename env) \<or> f \<and> n + 1 \<ge> length (falsename env)
     then Some (t, f, n + 1, cs)
     else alphabool_loop env cs t f (n + 1)
   }"

definition do_get_alphabool :: "num_env \<Rightarrow> string \<Rightarrow> (bool option \<times> iostate \<times> string) option" where
  "do_get_alphabool env xs = do {
     (t, f, n, xs) \<leftarrow> alphabool_loop env xs True True 0;
     let t = (t \<and> \<not> n < length (truename env));
     let f = (f \<and> \<not> n < length (falsename env));
     Some (if t \<or> f then Some t else None,
       (if t \<or> f then {} else {failbit}) \<union> (if xs = [] then {eofbit} else {}), xs)
   }"

text \<open>\<open>num_get::do_get\<close> for \<open>bool\<close> and for pointers.\<close>

definition do_get_bool :: "num_env \<Rightarrow> fmtflags \<Rightarrow> string \<Rightarrow> (bool option \<times> iostate \<times> string) option" where
  "do_get_bool env flags xs =
     (if Boolalpha \<in> flags then do_get_alphabool env xs
      else do {
        (lx, err, xs) \<leftarrow> (do_get_integer env flags True xs :: (u64 option \<times> iostate \<times> string) option);
        if failbit \<notin> err then
          (if lx = Some 0 then Some (Some False, err, xs)
           else if lx = Some 1 then Some (Some True, err, xs)
           else Some (None, insert failbit err, xs))
        else Some (None, err, xs)
      })"

definition do_get_pointer :: "num_env \<Rightarrow> fmtflags \<Rightarrow> string \<Rightarrow> (u64 option \<times> iostate \<times> string) option" where
  "do_get_pointer env flags xs = do {
     (val, err, xs) \<leftarrow> do_get_integer env flags False xs;
     Some (if failbit \<notin> err then val else None, err, xs)
   }"

text \<open>A floating point number is first copied into a buffer, which \<open>__string_to_float\<close> converts; the routine is not
  among the sources.\<close>

definition get_fdigit :: "char \<Rightarrow> bool" where
  "get_fdigit c = (48 \<le> (of_char c :: nat) \<and> (of_char c :: nat) \<le> 57)"

definition copy_sign :: "string \<Rightarrow> string \<Rightarrow> string \<times> string" where
  "copy_sign xs v = (case xs of [] \<Rightarrow> (xs, v)
     | c # cs \<Rightarrow> if c = CHR ''+'' then (cs, v) else if c = CHR ''-'' then (cs, v @ [CHR ''-'']) else (xs, v))"

fun copy_digits :: "string \<Rightarrow> string \<Rightarrow> bool \<Rightarrow> bool \<times> string \<times> string" where
  "copy_digits [] v ok = (ok, [], v)"
| "copy_digits (c # cs) v ok = (if get_fdigit c then copy_digits cs (v @ [c]) True else (ok, c # cs, v))"

fun grouped_loop :: "char \<Rightarrow> string \<Rightarrow> string \<Rightarrow> bool \<Rightarrow> 8 word list \<Rightarrow> 8 word
    \<Rightarrow> (bool \<times> string \<times> string \<times> 8 word list \<times> 8 word) option" where
  "grouped_loop sep [] v ok ns n = Some (ok, [], v, ns, n)"
| "grouped_loop sep (c # cs) v ok ns n =
     (if c = sep then Option.bind (push_size n ns) (\<lambda>ns. grouped_loop sep cs v ok ns 0)
      else if get_fdigit c then grouped_loop sep cs (v @ [c]) True ns (n + 1)
      else Some (ok, c # cs, v, ns, n))"

definition copy_grouped_digits :: "num_env \<Rightarrow> string \<Rightarrow> string \<Rightarrow> (bool \<times> bool \<times> string \<times> string) option" where
  "copy_grouped_digits env xs v = do {
     (ok, xs, v, ns, n) \<leftarrow> grouped_loop (thousands_sep env) xs v False [] 0;
     ns \<leftarrow> (if ns \<noteq> [] then push_size n ns else Some ns);
     Some (ok, valid_grouping env ns (grouping env), xs, v)
   }"

definition read_float :: "num_env \<Rightarrow> string \<Rightarrow> (bool \<times> string \<times> string) option" where
  "read_float env xs = do {
     let (xs, v) = copy_sign xs [];
     (before, xs, v) \<leftarrow>
       (if grouping env \<noteq> [] then map_option (\<lambda>(ok, _, xs, v). (ok, xs, v)) (copy_grouped_digits env xs v)
        else Some (copy_digits xs v False));
     let (after, xs, v) =
       (if xs \<noteq> [] \<and> hd xs = decimal_point env then copy_digits (tl xs) (v @ [CHR ''.'']) False else (False, xs, v));
     let ok = (before \<or> after);
     if ok \<and> xs \<noteq> [] \<and> (hd xs = CHR ''e'' \<or> hd xs = CHR ''E'') then
       (let (xs, v) = copy_sign (tl xs) (v @ [CHR ''e'']); (ok, xs, v) = copy_digits xs v False in Some (ok, v, xs))
     else Some (ok, v, xs)
   }"

definition do_get_float :: "num_env \<Rightarrow> (string \<Rightarrow> 'f) \<Rightarrow> string \<Rightarrow> ('f option \<times> iostate \<times> string) option" where
  "do_get_float env string_to_float xs = do {
     (ok, buf, xs) \<leftarrow> read_float env xs;
     Some (if ok then Some (string_to_float buf) else None,
       (if ok then {} else {failbit}) \<union> (if xs = [] then {eofbit} else {}), xs)
   }"

section \<open>Writing integers\<close>

text \<open>The digits are written backwards into an array: how much room is left in front of the pointer, and what
  is behind it.\<close>

definition put_back :: "char \<Rightarrow> nat \<times> string \<Rightarrow> (nat \<times> string) option" where
  "put_back c p = (case p of (0, s) \<Rightarrow> None | (Suc n, s) \<Rightarrow> Some (n, c # s))"

partial_function (option) write_digits ::
    "('a::len word \<Rightarrow> char) \<Rightarrow> ('a word \<Rightarrow> 'a word) \<Rightarrow> 'a word \<Rightarrow> nat \<times> string \<Rightarrow> (nat \<times> string) option" where
  "write_digits digit step x p =
     (if x = 0 then Some p else Option.bind (put_back (digit x) p) (\<lambda>p. write_digits digit step (step x) p))"

definition decimal_digit :: "'a::len word \<Rightarrow> char" where
  "decimal_digit x = char_of (unat (x mod 10) + 48)"

definition write_decimal_backward :: "bool \<Rightarrow> fmtflags \<Rightarrow> 'a::len word \<Rightarrow> nat \<times> string \<Rightarrow> (nat \<times> string) option" where
  "write_decimal_backward is_signed flags x p =
     (if is_signed then do {
        let negative = (x <s 0);
        let temp = (scast x :: u64);
        let utemp = (if negative then - temp else temp);
        p \<leftarrow> write_digits decimal_digit (\<lambda>t. t div 10) utemp p;
        if negative then put_back (CHR ''-'') p
        else if Showpos \<in> flags then put_back (CHR ''+'') p
        else Some p
      }
      else do {
        p \<leftarrow> write_digits decimal_digit (\<lambda>t. t div 10) x p;
        if Showpos \<in> flags then put_back (CHR ''+'') p else Some p
      })"

text \<open>\<open>__umax_int_t __temp = __x\<close>, and for types of less than 64 bits the mask.\<close>

definition umax_of :: "bool \<Rightarrow> 'a::len word \<Rightarrow> u64" where
  "umax_of is_signed x =
     (let temp = (if is_signed then scast x else ucast x) in if LENGTH('a) div 8 < 8 then temp AND 0xFFFFFFFF else temp)"

definition octal_digit :: "u64 \<Rightarrow> char" where
  "octal_digit t = char_of (unat ((ucast t :: u32) AND 7) + 48)"

definition hex_digit :: "string \<Rightarrow> u64 \<Rightarrow> char" where
  "hex_digit table t = table ! unat ((ucast t :: u32) AND 15)"

definition write_integer_backward ::
    "num_env \<Rightarrow> bool \<Rightarrow> fmtflags \<Rightarrow> 'a::len word \<Rightarrow> nat \<times> string \<Rightarrow> (nat \<times> string) option" where
  "write_integer_backward env is_signed flags x p =
     (if x = 0 then do {
        p \<leftarrow> put_back (CHR ''0'') p;
        if Showpos \<in> flags \<and> flags \<inter> {Oct, Hex} = {} then put_back (CHR ''+'') p else Some p
      }
      else if flags \<inter> basefield = {Oct} then do {
        p \<leftarrow> write_digits octal_digit (drop_bit 3) (umax_of is_signed x) p;
        if Showbase \<in> flags then put_back (CHR ''0'') p else Some p
      }
      else if flags \<inter> basefield = {Hex} then do {
        let table = (if Uppercase \<in> flags then hex_char_table_hi env else hex_char_table_lo env);
        p \<leftarrow> write_digits (hex_digit table) (drop_bit 4) (umax_of is_signed x) p;
        if Showbase \<in> flags then Option.bind (put_back (table ! 16) p) (put_back (CHR ''0'')) else Some p
      }
      else write_decimal_backward is_signed flags x p)"

text \<open>Padding.  Of the arguments, \<open>width\<close> is what \<open>width(0)\<close> has returned; the caller's width is then 0.\<close>

definition copy_integer_and_fill :: "string \<Rightarrow> fmtflags \<Rightarrow> int \<Rightarrow> char \<Rightarrow> string" where
  "copy_integer_and_fill buf flags wid fill =
     (if int (length buf) \<ge> wid then buf
      else
        let pad = replicate (nat (min (2 ^ 63 - 1) (wid - int (length buf)))) fill; dir = flags \<inter> adjustfield in
        if dir = {Left_adjust} then buf @ pad
        else if dir = {Internal_adjust} \<and> buf \<noteq> [] \<and> (buf ! 0 = CHR ''+'' \<or> buf ! 0 = CHR ''-'') then
          buf ! 0 # pad @ drop 1 buf
        else if dir = {Internal_adjust} \<and> length buf \<ge> 2 \<and> Showbase \<in> flags \<and> flags \<inter> basefield = {Hex} then
          buf ! 0 # buf ! 1 # pad @ drop 2 buf
        else pad @ buf)"

definition put_integer :: "num_env \<Rightarrow> string \<Rightarrow> fmtflags \<Rightarrow> int \<Rightarrow> char \<Rightarrow> string option" where
  "put_integer env buf flags wid fill = do {
     buf \<leftarrow>
       (if grouping env \<noteq> [] then
          let basechars = (if Showbase \<in> flags then
                 (if flags \<inter> basefield = {Hex} then 2 else if flags \<inter> basefield = {Oct} then 1 else 0) else 0);
              grpbuf = insert_grouping env buf (grouping env) (thousands_sep env) basechars
          in if length buf \<le> 64 \<and> length grpbuf \<le> 64 then Some grpbuf else None
        else Some buf);
     Some (copy_integer_and_fill buf flags wid fill)
   }"

definition do_put_integer :: "num_env \<Rightarrow> bool \<Rightarrow> 'a::len word \<Rightarrow> fmtflags \<Rightarrow> int \<Rightarrow> char \<Rightarrow> string option" where
  "do_put_integer env is_signed x flags wid fill = do {
     (n, buf) \<leftarrow> write_integer_backward env is_signed flags x (LENGTH('a) div 8 * 3 + 2, []);
     put_integer env buf flags wid fill
   }"

definition do_put_bool :: "num_env \<Rightarrow> bool \<Rightarrow> fmtflags \<Rightarrow> int \<Rightarrow> char \<Rightarrow> string" where
  "do_put_bool env x flags wid fill =
     (let str = (if x then truename env else falsename env) in
      if length str \<ge> unat (word_of_int wid :: u64) then str
      else
        let pad = replicate (nat (wid - int (length str))) fill in
        if flags \<inter> adjustfield = {Left_adjust} then str @ pad else pad @ str)"

definition put_bool :: "num_env \<Rightarrow> bool \<Rightarrow> fmtflags \<Rightarrow> int \<Rightarrow> char \<Rightarrow> string option" where
  "put_bool env x flags wid fill =
     (if Boolalpha \<notin> flags then do_put_integer env True (of_bool x :: u64) flags wid fill
      else Some (do_put_bool env x flags wid fill))"

text \<open>Pointers, of 64 bits: the flags and the width are set for the call, and the fill character is 0.\<close>

definition put_pointer :: "num_env \<Rightarrow> u64 \<Rightarrow> fmtflags \<Rightarrow> int \<Rightarrow> char \<Rightarrow> string option" where
  "put_pointer env val save_flags wid fill =
     (let flags = (((save_flags - basefield) \<union> {Hex}) \<union> {Showbase}) - adjustfield \<union> {Internal_adjust};
          table = (if Uppercase \<in> save_flags then hex_char_table_hi env else hex_char_table_lo env);
          (prefix, wid) = (if val = 0 then ([CHR ''0'', table ! 16], 64 div 8 * 2) else ([], 64 div 8 * 2 + 2))
      in map_option ((@) prefix) (do_put_integer env False val flags wid (CHR ''0'')))"

section \<open>The operators of the streams\<close>

text \<open>\<open>operator>>\<close>, from a stream with the flags \<open>flags\<close>.  \<open>facet\<close> is the function of the facet; a character is taken
  from the buffer with \<open>sbumpc\<close>, and the last comparison with the end looks at the next one.\<close>

primrec take_chars :: "nat \<Rightarrow> streambuf \<Rightarrow> streambuf" where
  "take_chars 0 b = b"
| "take_chars (Suc n) b = take_chars n (snd (sbumpc b))"

definition get_num :: "(string \<Rightarrow> ('v option \<times> iostate \<times> string) option) \<Rightarrow> istream \<Rightarrow> ('v option \<times> istream) option" where
  "get_num facet s =
     (let s = init_skip s in
      if good s then do {
        (val, err, rest) \<leftarrow> facet (buffered_text (rdbuf s));
        let b = snd (sgetc (take_chars (length (buffered_text (rdbuf s)) - length rest) (rdbuf s)));
        Some (val, setstate err (s\<lparr>rdbuf := b\<rparr>))
      }
      else Some (None, s))"

record out_stream =
  out :: sink
  out_state :: iostate
  out_width :: int
  out_fill :: char
  out_flags :: fmtflags

text \<open>\<open>operator<<\<close>.  \<open>put\<close> is the function of the facet; all its output goes through one iterator, which writes no
  more once a character did not go in.\<close>

definition put_num :: "(fmtflags \<Rightarrow> int \<Rightarrow> char \<Rightarrow> string option) \<Rightarrow> out_stream \<Rightarrow> out_stream option" where
  "put_num put os =
     (if out_state os = {} then do {
        text \<leftarrow> put (out_flags os) (out_width os) (out_fill os);
        let (n, d) = sputn text (out os);
        Some (os\<lparr>out := d, out_width := 0, out_state := (if n = length text then {} else {badbit})\<rparr>)
      }
      else Some (os\<lparr>out_state := insert badbit (out_state os)\<rparr>))"

definition insert_long :: "num_env \<Rightarrow> u64 \<Rightarrow> out_stream \<Rightarrow> out_stream option" where
  "insert_long env x os = put_num (do_put_integer env True x) os"

definition insert_unsigned_long :: "num_env \<Rightarrow> u64 \<Rightarrow> out_stream \<Rightarrow> out_stream option" where
  "insert_unsigned_long env x os = put_num (do_put_integer env False x) os"

text \<open>\<open>short\<close>, \<open>int\<close> and their unsigned versions go through \<open>long\<close>.\<close>

definition insert_short :: "num_env \<Rightarrow> 16 word \<Rightarrow> out_stream \<Rightarrow> out_stream option" where
  "insert_short env x os = insert_long env (if out_flags os \<inter> basefield \<noteq> {Dec} then ucast x else scast x) os"

definition insert_int :: "num_env \<Rightarrow> u32 \<Rightarrow> out_stream \<Rightarrow> out_stream option" where
  "insert_int env x os = insert_long env (if out_flags os \<inter> basefield \<noteq> {Dec} then ucast x else scast x) os"

definition insert_unsigned_short :: "num_env \<Rightarrow> 16 word \<Rightarrow> out_stream \<Rightarrow> out_stream option" where
  "insert_unsigned_short env x os = insert_unsigned_long env (ucast x) os"

definition insert_unsigned_int :: "num_env \<Rightarrow> u32 \<Rightarrow> out_stream \<Rightarrow> out_stream option" where
  "insert_unsigned_int env x os = insert_unsigned_long env (ucast x) os"

definition insert_bool :: "num_env \<Rightarrow> bool \<Rightarrow> out_stream \<Rightarrow> out_stream option" where
  "insert_bool env x os = put_num (put_bool env x) os"

definition insert_pointer :: "num_env \<Rightarrow> u64 \<Rightarrow> out_stream \<Rightarrow> out_stream option" where
  "insert_pointer env x os = put_num (put_pointer env x) os"

end
