(* ===== verification/StlNumberProps.thy ===== *)
theory StlNumberProps
  imports StlNumbers StlStreamProps
begin

text \<open>
  What reading and writing numbers comes to.  The references are over the natural numbers: \<open>numeral_value\<close> is what
  digits stand for, \<open>numeral_text\<close> the digits of a number.  The code's tests for overflow, made after each
  digit on words that wrap around, are shown to decide exactly whether the number fits.
\<close>

section \<open>The tables of the library\<close>

definition digit_of :: "char \<Rightarrow> nat" where
  "digit_of c = (let n = of_char c :: nat in
     if 48 \<le> n \<and> n \<le> 57 then n - 48
     else if 65 \<le> n \<and> n \<le> 70 then n - 55
     else if 97 \<le> n \<and> n \<le> 102 then n - 87
     else 255)"

text \<open>What is documented of the tables: the values of the digits, and the characters.\<close>

definition std_tables :: "num_env \<Rightarrow> bool" where
  "std_tables env \<longleftrightarrow> (\<forall>c. (of_char c :: nat) \<le> 127 \<longrightarrow> digit_val_table env (of_char c) = digit_of c)
     \<and> narrow_atoms env = ''+-0xX'' \<and> hex_char_table_lo env = ''0123456789abcdefx''
     \<and> hex_char_table_hi env = ''0123456789ABCDEFX''"

definition c_env :: num_env where
  "c_env = \<lparr>digit_val_table = (\<lambda>n. digit_of (char_of n)), narrow_atoms = ''+-0xX'',
     hex_char_table_lo = ''0123456789abcdefx'', hex_char_table_hi = ''0123456789ABCDEFX'',
     valid_grouping = (\<lambda>_ _. True), insert_grouping = (\<lambda>s _ _ _. s), thousands_sep = CHR '','',
     decimal_point = CHR ''.'', grouping = [], truename = ''true'', falsename = ''false''\<rparr>"

lemma c_env_tables [simp]: "std_tables c_env" "grouping c_env = []"
  by (simp_all add: std_tables_def c_env_def)

lemma get_digit_std: "std_tables env \<Longrightarrow> get_digit_from_table env c = digit_of c"
  by (auto simp: get_digit_from_table_def std_tables_def digit_of_def Let_def)

section \<open>Digits and their value\<close>

definition numeral_value :: "nat \<Rightarrow> nat \<Rightarrow> string \<Rightarrow> nat" where
  "numeral_value base v ds = foldl (\<lambda>v c. v * base + digit_of c) v ds"

lemma numeral_value_simps [simp]:
  "numeral_value base v [] = v"
  "numeral_value base v (c # cs) = numeral_value base (v * base + digit_of c) cs"
  "numeral_value base v (xs @ ys) = numeral_value base (numeral_value base v xs) ys"
  by (simp_all add: numeral_value_def)

lemma numeral_value_ge: "0 < base \<Longrightarrow> v \<le> numeral_value base v ds"
proof (induction ds arbitrary: v)
  case (Cons c ds)
  have "v \<le> v * base + digit_of c" using Cons.prems by (simp add: trans_le_add1)
  also have "\<dots> \<le> numeral_value base (v * base + digit_of c) ds" by (rule Cons.IH [OF Cons.prems])
  finally show ?case by simp
qed simp

text \<open>The bases that occur.\<close>

definition std_base :: "nat \<Rightarrow> bool" where
  "std_base b \<longleftrightarrow> b = 8 \<or> b = 10 \<or> b = 16"

section \<open>Signed integers\<close>

lemma power_at_least: "8 \<le> LENGTH('a::len) \<Longrightarrow> (128 :: int) \<le> 2 ^ (LENGTH('a) - 1)"
  using power_increasing [of 7 "LENGTH('a) - 1" "2 :: int"] by simp

lemma power_double: "(2 :: int) ^ LENGTH('a::len) = 2 * 2 ^ (LENGTH('a) - 1)"
  by (metis One_nat_def Suc_pred len_gt_0 power_Suc)

lemma sint_exact:
  "- (2 ^ (LENGTH('a) - 1)) \<le> i \<Longrightarrow> i < 2 ^ (LENGTH('a) - 1) \<Longrightarrow> sint (word_of_int i :: 'a::len word) = i"
  by (simp add: sint_sbintrunc' signed_take_bit_int_eq_self)

lemma word_of_int_wrap: "(word_of_int (i + 2 ^ LENGTH('a)) :: 'a::len word) = word_of_int i"
  by (simp add: word_of_int_eq_iff take_bit_eq_mod)

lemma sint_wrapped:
  assumes "- (2 * 2 ^ (LENGTH('a) - 1)) \<le> i" "i < - (2 ^ (LENGTH('a) - 1))"
  shows "sint (word_of_int i :: 'a::len word) = i + 2 * 2 ^ (LENGTH('a) - 1)"
proof -
  have "sint (word_of_int (i + 2 ^ LENGTH('a)) :: 'a word) = i + 2 ^ LENGTH('a)"
    using assms by (intro sint_exact) (simp_all add: power_double)
  then show ?thesis unfolding word_of_int_wrap by (simp add: power_double)
qed

lemma smin_minus: "(smin :: 'a::len word) = word_of_int (- (2 ^ (LENGTH('a) - 1)))"
proof -
  have e: "- (2 ^ (LENGTH('a) - 1)) + 2 ^ LENGTH('a) = (2 :: int) ^ (LENGTH('a) - 1)" using power_double [where 'a = 'a] by linarith
  have "word_of_int (- (2 ^ (LENGTH('a) - 1))) = (word_of_int (- (2 ^ (LENGTH('a) - 1)) + 2 ^ LENGTH('a)) :: 'a word)"
    by (rule word_of_int_wrap [symmetric])
  also have "\<dots> = word_of_int (2 ^ (LENGTH('a) - 1))" unfolding e ..
  finally show ?thesis unfolding smin_def push_bit_eq_mult by simp
qed

lemma sint_smin [simp]: "sint (smin :: 'a::len word) = - (2 ^ (LENGTH('a) - 1))"
  unfolding smin_minus by (rule sint_exact) simp_all

text \<open>After digits that stand for \<open>v\<close>: either \<open>- v\<close> has been accumulated, or \<open>v\<close> is too large and this has been noted.\<close>

definition signed_inv :: "nat \<Rightarrow> 'a::len word digits_read \<Rightarrow> bool" where
  "signed_inv v a \<longleftrightarrow> (ovflow a \<longleftrightarrow> 2 ^ (LENGTH('a) - 1) < int v) \<and> (\<not> ovflow a \<longrightarrow> result a = word_of_int (- int v))"

lemma signed_step:
  fixes a :: "'a::len word digits_read"
  assumes i: "signed_inv v a" and b: "std_base base" and n: "n < base" and w: "8 \<le> LENGTH('a)"
  shows "signed_inv (v * base + n) (add_digit_signed base n a)"
proof -
  define M :: int where "M = 2 ^ (LENGTH('a) - Suc 0)"
  have M: "128 \<le> M" using power_at_least [OF w] by (simp add: M_def)
  have sM: "sint (word_of_int i :: 'a word) = i" if "- M \<le> i" "i < M" for i using that sint_exact [where 'a = 'a, of i] by (simp add: M_def)
  have sW: "sint (word_of_int i :: 'a word) = i + 2 * M" if "- (2 * M) \<le> i" "i < - M" for i
    using that sint_wrapped [where 'a = 'a, of i] by (simp add: M_def)
  have big: "M < int (v * base + n)" if "M < int v" using that b n by (auto simp: std_base_def)
  show ?thesis
  proof (cases "ovflow a")
    case True
    with i have "M < int v" by (simp add: signed_inv_def M_def)
    moreover have "ovflow (add_digit_signed base n a)" using True by (simp add: add_digit_signed_def Let_def)
    ultimately show ?thesis using big by (simp add: signed_inv_def flip: M_def)
  next
    case False
    then have v: "int v \<le> M" and r: "result a = word_of_int (- int v)" using i by (auto simp: signed_inv_def M_def)
    have over: "sint (word_of_int (- (M div int base)) :: 'a word) = - (M div int base)"
      by (rule sM) (use M b in \<open>auto simp: std_base_def\<close>)
    have sr: "sint (result a) = - int v" unfolding r by (rule sM) (use v M in auto)
    have less: "result a <s word_of_int (- (M div int base)) \<longleftrightarrow> M div int base < int v"
      unfolding word_sless_alt sr over by simp
    show ?thesis
    proof (cases "M div int base < int v")
      case True
      then have "M < int (v * base + n)" using b n by (auto simp: std_base_def)
      moreover have "add_digit_signed base n a = a\<lparr>got := got a + 1, current := current a + 1, ovflow := True\<rparr>"
        using True less by (simp add: add_digit_signed_def Let_def flip: M_def)
      ultimately show ?thesis by (simp add: signed_inv_def flip: M_def)
    next
      case False
      define nxt :: "'a word" where "nxt = of_nat base * result a - of_nat n"
      have nxt: "nxt = word_of_int (- int (v * base + n))" by (simp add: nxt_def r algebra_simps)
      have vb: "int (v * base) \<le> M" using False b by (auto simp: std_base_def)
      have step: "add_digit_signed base n a = a\<lparr>got := got a + 1, current := current a + 1,
          ovflow := result a \<noteq> 0 \<and> result a \<le>s nxt, result := nxt\<rparr>"
        using False less \<open>\<not> ovflow a\<close> by (simp add: add_digit_signed_def Let_def nxt_def flip: M_def)
      have r0: "result a = 0 \<longleftrightarrow> v = 0" using sr by (metis of_nat_0 of_nat_eq_0_iff neg_equal_0_iff_equal signed_eq_0_iff)
      show ?thesis
      proof (cases "int (v * base + n) \<le> M")
        case True
        have "sint nxt = - int (v * base + n)" unfolding nxt by (rule sM) (use True M of_nat_0_le_iff [of "v * base + n"] in linarith)+
        then have "\<not> (result a \<noteq> 0 \<and> result a \<le>s nxt)" unfolding word_sle_eq sr r0 using b by (auto simp: std_base_def)
        then show ?thesis using True step nxt by (simp add: signed_inv_def flip: M_def)
      next
        case False
        have "sint nxt = - int (v * base + n) + 2 * M" unfolding nxt
          by (rule sW) (use False vb n b M in \<open>auto simp: std_base_def\<close>)
        moreover have "v \<noteq> 0" using False n b M by (auto simp: std_base_def)
        ultimately have "result a \<noteq> 0 \<and> result a \<le>s nxt" unfolding word_sle_eq sr r0
          using vb n b M by (auto simp: std_base_def)
        then show ?thesis using False step by (simp add: signed_inv_def flip: M_def)
      qed
    qed
  qed
qed

lemma got_signed [simp]: "got (add_digit_signed base n a) = got a + 1" "sizes (add_digit_signed base n a) = sizes a"
  by (simp_all add: add_digit_signed_def Let_def)

section \<open>Unsigned integers\<close>

definition unsigned_inv :: "nat \<Rightarrow> 'a::len word digits_read \<Rightarrow> bool" where
  "unsigned_inv v a \<longleftrightarrow> (ovflow a \<longleftrightarrow> 2 ^ LENGTH('a) \<le> v) \<and> (\<not> ovflow a \<longrightarrow> result a = of_nat v)"

lemma got_unsigned [simp]: "got (add_digit_unsigned base n a) = got a + 1" "sizes (add_digit_unsigned base n a) = sizes a"
  by (simp_all add: add_digit_unsigned_def Let_def)

lemma unsigned_step:
  fixes a :: "'a::len word digits_read"
  assumes i: "unsigned_inv v a" and b: "std_base base" and n: "n < base" and w: "8 \<le> LENGTH('a)"
  shows "unsigned_inv (v * base + n) (add_digit_unsigned base n a)"
proof -
  define N :: nat where "N = 2 ^ LENGTH('a)"
  have N: "256 \<le> N" using power_increasing [OF w, of "2 :: nat"] by (simp add: N_def)
  have uN: "unat (of_nat k :: 'a word) = k" if "k < N" for k using that by (simp add: N_def unat_of_nat_small)
  have uW: "unat (of_nat k :: 'a word) = k - N" if "N \<le> k" "k < 2 * N" for k
    using that by (simp add: N_def unat_of_nat take_bit_nat_def mod_if)
  have big: "N \<le> v * base + n" if "N \<le> v" using that b n by (auto simp: std_base_def)
  show ?thesis
  proof (cases "ovflow a")
    case True
    with i have "N \<le> v" by (simp add: unsigned_inv_def N_def)
    moreover have "ovflow (add_digit_unsigned base n a)" using True by (simp add: add_digit_unsigned_def Let_def)
    ultimately show ?thesis using big by (simp add: unsigned_inv_def flip: N_def)
  next
    case False
    then have v: "v < N" and r: "result a = of_nat v" using i by (auto simp: unsigned_inv_def N_def)
    have ur: "unat (result a) = v" unfolding r by (rule uN [OF v])
    have m1: "unat (- 1 :: 'a word) = N - 1" by (simp add: N_def unsigned_minus_1_eq_mask mask_eq_exp_minus_1)
    have "unat (- 1 div of_nat base :: 'a word) = (N - 1) div base"
      using b N uN [of base] m1 by (auto simp: unat_div_distrib std_base_def)
    then have less: "- 1 div of_nat base < result a \<longleftrightarrow> (N - 1) div base < v" by (simp add: word_less_nat_alt ur)
    show ?thesis
    proof (cases "(N - 1) div base < v")
      case True
      then have "N \<le> v * base + n" using b n by (auto simp: std_base_def)
      moreover have "add_digit_unsigned base n a = a\<lparr>got := got a + 1, current := current a + 1, ovflow := True\<rparr>"
        using True less by (simp add: add_digit_unsigned_def Let_def)
      ultimately show ?thesis by (simp add: unsigned_inv_def flip: N_def)
    next
      case False
      define nxt :: "'a word" where "nxt = of_nat base * result a + of_nat n"
      have nxt: "nxt = of_nat (v * base + n)" by (simp add: nxt_def r algebra_simps)
      have vb: "v * base < N" using False b N by (auto simp: std_base_def)
      have step: "add_digit_unsigned base n a = a\<lparr>got := got a + 1, current := current a + 1,
          ovflow := result a \<noteq> 0 \<and> nxt \<le> result a, result := nxt\<rparr>"
        using False less \<open>\<not> ovflow a\<close> by (simp add: add_digit_unsigned_def Let_def nxt_def)
      have r0: "result a = 0 \<longleftrightarrow> v = 0" using ur by (metis unat_0 unat_eq_zero)
      show ?thesis
      proof (cases "v * base + n < N")
        case True
        have "unat nxt = v * base + n" unfolding nxt by (rule uN [OF True])
        then have "\<not> (result a \<noteq> 0 \<and> nxt \<le> result a)" unfolding word_le_nat_alt ur r0 using b by (auto simp: std_base_def)
        then show ?thesis using True step nxt by (simp add: unsigned_inv_def flip: N_def)
      next
        case False
        have "unat nxt = v * base + n - N" unfolding nxt by (rule uW) (use False vb n b N in \<open>auto simp: std_base_def\<close>)
        moreover have "v \<noteq> 0" using False n b N by (auto simp: std_base_def)
        ultimately have "result a \<noteq> 0 \<and> nxt \<le> result a" unfolding word_le_nat_alt ur r0
          using vb n b N False by (auto simp: std_base_def)
        then show ?thesis using False step by (simp add: unsigned_inv_def flip: N_def)
      qed
    qed
  qed
qed

section \<open>The loop over the digits\<close>

definition digits_in :: "nat \<Rightarrow> string \<Rightarrow> string" where
  "digits_in base xs = takeWhile (\<lambda>c. digit_of c < base) xs"

definition behind_digits :: "nat \<Rightarrow> string \<Rightarrow> string" where
  "behind_digits base xs = dropWhile (\<lambda>c. digit_of c < base) xs"

lemma digits_loop_outcome:
  assumes env: "std_tables env" "grouping env = []"
    and step: "\<And>v n a. I v a \<Longrightarrow> n < base \<Longrightarrow> I (v * base + n) (f n a)"
    and keep: "\<And>n a. got (f n a) = got a + 1" "\<And>n a. sizes (f n a) = sizes a"
    and init: "I v a"
  shows "\<exists>b. digits_loop env base f xs a = Some (b, behind_digits base xs) \<and> I (numeral_value base v (digits_in base xs)) b
    \<and> got b = got a + length (digits_in base xs) \<and> sizes b = sizes a"
  using init
proof (induction xs arbitrary: v a)
  case (Cons c xs)
  show ?case
  proof (cases "digit_of c < base")
    case True
    from Cons.IH [OF step [OF Cons.prems True]] show ?thesis
      using True env by (auto simp: digits_in_def behind_digits_def get_digit_std keep)
  next
    case False
    then show ?thesis using Cons.prems env by (auto simp: digits_in_def behind_digits_def get_digit_std)
  qed
qed (simp add: digits_in_def behind_digits_def)

text \<open>What reading has to deliver: \<open>v\<close>, or the nearest number there is.\<close>

definition clamp :: "int \<Rightarrow> int \<Rightarrow> int \<Rightarrow> int" where
  "clamp lo hi v = max lo (min hi v)"

lemma get_integer_signed_eq:
  fixes xs :: string and neg :: bool
  assumes env: "std_tables env" "grouping env = []" and b: "std_base base" and w: "8 \<le> LENGTH('a::len)"
  defines "ds \<equiv> digits_in base xs" and "M \<equiv> (2 :: int) ^ (LENGTH('a) - 1)"
  defines "v \<equiv> (if neg then - int (numeral_value base 0 ds) else int (numeral_value base 0 ds))"
  shows "get_integer_signed env base got0 neg xs =
    Some (0 < got0 + length ds \<and> - M \<le> v \<and> v < M,
      if 0 < got0 + length ds then Some (word_of_int (clamp (- M) (M - 1) v) :: 'a word) else None, behind_digits base xs)"
proof -
  let ?a0 = "\<lparr>ovflow = False, result = 0, got = got0, sizes = [], current = 0\<rparr> :: 'a word digits_read"
  have "signed_inv 0 ?a0" by (simp add: signed_inv_def)
  from digits_loop_outcome [where f = "add_digit_signed base" and I = signed_inv, OF env signed_step [OF _ b _ w] got_signed this, of xs]
  obtain a where a: "digits_loop env base (add_digit_signed base) xs ?a0 = Some (a, behind_digits base xs)"
      "signed_inv (numeral_value base 0 ds) a" "got a = got0 + length ds" "sizes a = []"
    unfolding ds_def by auto
  define V where "V = int (numeral_value base 0 ds)"
  have M: "128 \<le> M" using power_at_least [OF w] by (simp add: M_def)
  have inv: "ovflow a \<longleftrightarrow> M < V" "\<not> ovflow a \<Longrightarrow> result a = word_of_int (- V)" using a(2) by (simp_all add: signed_inv_def M_def V_def)
  have V: "0 \<le> V" by (simp add: V_def)
  have rm: "result a = smin \<longleftrightarrow> V = M" if "\<not> ovflow a"
  proof -
    have s: "sint (word_of_int (- V) :: 'a word) = - V" by (rule sint_exact) (use that inv(1) V M in \<open>auto simp: M_def\<close>)
    have "result a = smin \<longleftrightarrow> sint (result a) = sint (smin :: 'a word)" by (rule word_eq_iff_signed)
    then show ?thesis unfolding inv(2) [OF that] s sint_smin by (simp add: M_def)
  qed
  have smax: "(smax :: 'a word) = word_of_int (M - 1)"
  proof -
    have "(smin :: 'a word) = word_of_int M" by (simp add: smin_def M_def)
    then show ?thesis by (simp add: smax_def)
  qed
  have smin: "(smin :: 'a word) = word_of_int (- M)" by (simp add: smin_minus M_def)
  have v: "v = (if neg then - V else V)" by (simp add: v_def V_def)
  let ?ovf = "ovflow a \<or> result a = smin \<and> \<not> neg"
  have ovf: "?ovf \<longleftrightarrow> \<not> (- M \<le> v \<and> v < M)"
    using inv(1) rm V M unfolding v by (cases "ovflow a"; cases neg) auto
  have val: "(if ?ovf then (if neg then smin else smax) else if neg then result a else - result a) = word_of_int (clamp (- M) (M - 1) v)"
  proof (cases ?ovf)
    case True
    with ovf have c: "clamp (- M) (M - 1) v = (if neg then - M else M - 1)" using V M unfolding v by (auto simp: clamp_def)
    from True have "(if ?ovf then (if neg then smin else smax) else if neg then result a else - result a) = (if neg then smin else smax)"
      by (rule if_P)
    then show ?thesis unfolding c smin smax by simp
  next
    case False
    with ovf have c: "clamp (- M) (M - 1) v = v" by (auto simp: clamp_def)
    from False have "(if ?ovf then (if neg then smin else smax) else if neg then result a else - result a) = (if neg then result a else - result a)"
      by (rule if_not_P)
    also have "(if neg then result a else - result a) = word_of_int v"
      using inv(2) False unfolding v by (cases neg) auto
    finally show ?thesis unfolding c .
  qed
  show ?thesis
    unfolding get_integer_signed_def a(1) Option.bind.simps prod.case last_group_def a(3,4) Let_def val unfolding ovf
    by (simp add: env)
qed

lemma get_integer_unsigned_eq:
  fixes xs :: string
  assumes env: "std_tables env" "grouping env = []" and b: "std_base base" and w: "8 \<le> LENGTH('a::len)"
  defines "ds \<equiv> digits_in base xs"
  defines "v \<equiv> numeral_value base 0 ds"
  shows "get_integer_unsigned env base got0 neg xs =
    Some (0 < got0 + length ds \<and> v < 2 ^ LENGTH('a),
      if 0 < got0 + length ds then
        Some (if v < 2 ^ LENGTH('a) then word_of_int (if neg then - int v else int v) else - 1 :: 'a word) else None,
      behind_digits base xs)"
proof -
  let ?a0 = "\<lparr>ovflow = False, result = 0, got = got0, sizes = [], current = 0\<rparr> :: 'a word digits_read"
  have "unsigned_inv 0 ?a0" by (simp add: unsigned_inv_def)
  from digits_loop_outcome [where f = "add_digit_unsigned base" and I = unsigned_inv, OF env unsigned_step [OF _ b _ w] got_unsigned this, of xs]
  obtain a where a: "digits_loop env base (add_digit_unsigned base) xs ?a0 = Some (a, behind_digits base xs)"
      "unsigned_inv v a" "got a = got0 + length ds" "sizes a = []"
    unfolding ds_def v_def by auto
  then have inv: "ovflow a \<longleftrightarrow> \<not> v < 2 ^ LENGTH('a)" "\<not> ovflow a \<Longrightarrow> result a = of_nat v" by (auto simp: unsigned_inv_def)
  show ?thesis
    unfolding get_integer_unsigned_def a(1) Option.bind.simps prod.case last_group_def a(3,4) Let_def
    using inv by (cases "ovflow a") (auto simp: env)
qed

section \<open>Sign, prefix and digits\<close>

lemma get_base_std: "get_base env flags xs = (base, valid_zero, rest) \<Longrightarrow> std_base base \<and> (valid_zero = 0 \<or> valid_zero = 1)"
  by (auto simp: get_base_def std_base_def Let_def split: if_splits)

lemma unpacked:
  assumes "std_base base" "vz = 0 \<or> vz = (1 :: nat)"
  shows "(push_bit 2 base OR push_bit 1 (of_bool neg) OR vz) AND 1 = vz"
    and "(push_bit 2 base OR push_bit 1 (of_bool neg) OR vz) AND 2 \<noteq> 0 \<longleftrightarrow> neg"
    and "drop_bit 2 (push_bit 2 base OR push_bit 1 (of_bool neg) OR vz) = base"
  using assms by (cases neg; auto simp: std_base_def push_bit_eq_mult drop_bit_eq_div)+

text \<open>What is in front of the reader: whether there is a number, its sign, its absolute value, and what is behind it.\<close>

definition number_ahead :: "num_env \<Rightarrow> fmtflags \<Rightarrow> string \<Rightarrow> bool \<times> bool \<times> nat \<times> string" where
  "number_ahead env flags xs =
     (let (neg, xs) = get_sign env xs; (base, valid_zero, xs) = get_base env flags xs; ds = digits_in base xs
      in (valid_zero > 0 \<or> ds \<noteq> [], neg, numeral_value base 0 ds, behind_digits base xs))"

definition signed_outcome :: "bool \<times> bool \<times> nat \<times> string \<Rightarrow> 'a::len word option \<times> iostate \<times> string" where
  "signed_outcome p = (case p of (found, neg, v, rest) \<Rightarrow>
     let i = (if neg then - int v else int v); lo = - (2 ^ (LENGTH('a) - 1)); hi = 2 ^ (LENGTH('a) - 1) - 1 in
     (if found then Some (word_of_int (clamp lo hi i)) else None,
      (if found \<and> lo \<le> i \<and> i \<le> hi then {} else {failbit}) \<union> (if rest = [] then {eofbit} else {}), rest))"

definition unsigned_outcome :: "bool \<times> bool \<times> nat \<times> string \<Rightarrow> 'a::len word option \<times> iostate \<times> string" where
  "unsigned_outcome p = (case p of (found, neg, v, rest) \<Rightarrow>
     (if found then Some (if v < 2 ^ LENGTH('a) then word_of_int (if neg then - int v else int v) else - 1) else None,
      (if found \<and> v < 2 ^ LENGTH('a) then {} else {failbit}) \<union> (if rest = [] then {eofbit} else {}), rest))"

lemma do_get_integer_eq:
  assumes env: "std_tables env" "grouping env = []" and w: "8 \<le> LENGTH('a::len)" and xs: "xs \<noteq> []"
  shows "do_get_integer env flags is_signed xs = Some
    (if is_signed then signed_outcome (number_ahead env flags xs) else unsigned_outcome (number_ahead env flags xs)
       :: 'a word option \<times> iostate \<times> string)"
proof -
  obtain neg xs1 where s: "get_sign env xs = (neg, xs1)" by fastforce
  obtain base vz xs2 where g: "get_base env flags xs1 = (base, vz, xs2)" by (metis prod_cases3)
  note b = get_base_std [OF g]
  define ds where "ds = digits_in base xs2"
  define v where "v = numeral_value base 0 ds"
  define e where "e = push_bit 2 base OR push_bit 1 (of_bool neg) OR vz"
  have e: "e AND 1 = vz" "e AND 2 \<noteq> 0 \<longleftrightarrow> neg" "drop_bit 2 e = base" using unpacked [of base vz neg] b by (simp_all add: e_def)
  have ahead: "number_ahead env flags xs = (0 < vz + length ds, neg, v, behind_digits base xs2)"
    by (simp add: number_ahead_def s g v_def Let_def flip: ds_def)
  have e1: "e mod 2 = vz" using e(1) by (simp add: and_one_eq)
  have e2: "0 < e AND 2 \<longleftrightarrow> neg" using e(2) by simp
  have boz: "get_base_or_zero env flags xs = Some (e, xs2)" using xs by (simp add: get_base_or_zero_def s g e_def)
  have M: "0 < (2 :: int) ^ (LENGTH('a) - 1)" "(2 :: int) ^ (LENGTH('a) - 1) \<ge> 1" by simp_all
  show ?thesis
  proof (cases "xs2 = []")
    case True
    then have "ds = []" "v = 0" "behind_digits base xs2 = []" by (simp_all add: ds_def v_def digits_in_def behind_digits_def)
    with True show ?thesis using M b
      by (auto simp: do_get_integer_def boz e e1 e2 ahead signed_outcome_def unsigned_outcome_def clamp_def Let_def)
  next
    case False
    have sg: "get_integer_signed env base vz neg xs2 = Some (0 < vz + length ds \<and> - (2 ^ (LENGTH('a) - 1)) \<le> (if neg then - int v else int v)
          \<and> (if neg then - int v else int v) < 2 ^ (LENGTH('a) - 1),
        if 0 < vz + length ds then Some (word_of_int (clamp (- (2 ^ (LENGTH('a) - 1))) (2 ^ (LENGTH('a) - 1) - 1) (if neg then - int v else int v)) :: 'a word) else None,
        behind_digits base xs2)"
      unfolding ds_def v_def by (rule get_integer_signed_eq [OF env _ w]) (use b in simp)
    have us: "get_integer_unsigned env base vz neg xs2 = Some (0 < vz + length ds \<and> v < 2 ^ LENGTH('a),
        if 0 < vz + length ds then Some (if v < 2 ^ LENGTH('a) then word_of_int (if neg then - int v else int v) else - 1 :: 'a word) else None,
        behind_digits base xs2)"
      unfolding ds_def v_def by (rule get_integer_unsigned_eq [OF env _ w]) (use b in simp)
    from False show ?thesis
      by (cases is_signed) (simp_all add: do_get_integer_def boz e e1 e2 sg us ahead signed_outcome_def unsigned_outcome_def Let_def)
  qed
qed

section \<open>Writing digits\<close>

text \<open>The digits of a number, with the digit for each value below the base.  Zero has none.\<close>

fun numeral_text :: "(nat \<Rightarrow> char) \<Rightarrow> nat \<Rightarrow> nat \<Rightarrow> string" where
  "numeral_text dig b v = (if b \<le> 1 \<or> v = 0 then [] else numeral_text dig b (v div b) @ [dig (v mod b)])"

declare numeral_text.simps [simp del]

lemma numeral_text_0 [simp]: "numeral_text dig b 0 = []"
  by (simp add: numeral_text.simps)

lemma numeral_text_pos: "1 < b \<Longrightarrow> 0 < v \<Longrightarrow> numeral_text dig b v = numeral_text dig b (v div b) @ [dig (v mod b)]"
  by (subst numeral_text.simps) simp

lemma length_numeral_text: "1 < b \<Longrightarrow> v < b ^ k \<Longrightarrow> length (numeral_text dig b v) \<le> k"
proof (induction k arbitrary: v)
  case (Suc k)
  show ?case
  proof (cases "v = 0")
    case False
    have "v div b < b ^ k" using Suc.prems by (simp add: less_mult_imp_div_less mult.commute)
    with Suc False show ?thesis by (simp add: numeral_text_pos)
  qed simp
qed simp

lemma set_numeral_text: "1 < b \<Longrightarrow> c \<in> set (numeral_text dig b v) \<Longrightarrow> \<exists>d < b. c = dig d"
proof (induction dig b v rule: numeral_text.induct)
  case (1 dig b v)
  show ?case
  proof (cases "v = 0")
    case False
    have "\<exists>d < b. dig (v mod b) = dig d" by (rule exI [of _ "v mod b"]) (use 1 in simp)
    with 1 False show ?thesis by (auto simp: numeral_text_pos)
  qed (use 1 in simp)
qed

lemma numeral_value_text:
  "1 < b \<Longrightarrow> (\<And>d. d < b \<Longrightarrow> digit_of (dig d) = d) \<Longrightarrow> numeral_value b 0 (numeral_text dig b v) = v"
proof (induction dig b v rule: numeral_text.induct)
  case (1 dig b v)
  show ?case
  proof (cases "v = 0")
    case False
    with 1 show ?thesis by (simp add: numeral_text_pos)
  qed simp
qed

lemma numeral_text_nonempty: "1 < b \<Longrightarrow> 0 < v \<Longrightarrow> numeral_text dig b v \<noteq> []"
  by (simp add: numeral_text_pos)

text \<open>The first digit is not 0.\<close>

lemma hd_numeral_text:
  "1 < b \<Longrightarrow> 0 < v \<Longrightarrow> \<exists>d. 0 < d \<and> d < b \<and> hd (numeral_text dig b v) = dig d"
proof (induction dig b v rule: numeral_text.induct)
  case (1 dig b v)
  show ?case
  proof (cases "v < b")
    case True
    with 1 show ?thesis by (auto simp: numeral_text_pos)
  next
    case False
    then have "0 < v div b" using 1 by (simp add: div_greater_zero_iff)
    then have "hd (numeral_text dig b v) = hd (numeral_text dig b (v div b))"
      using 1 False numeral_text_nonempty [of b "v div b" dig] by (subst numeral_text_pos) auto
    with 1 \<open>0 < v div b\<close> show ?thesis by simp
  qed
qed

lemma write_digits_eq:
  fixes x :: "'a::len word"
  assumes d: "\<And>x :: 'a word. digit x = dig (unat x mod b)" and s: "\<And>x :: 'a word. unat (step x) = unat x div b" and b: "1 < b"
    and room: "length (numeral_text dig b (unat x)) \<le> n"
  shows "write_digits digit step x (n, s) =
    Some (n - length (numeral_text dig b (unat x)), numeral_text dig b (unat x) @ s)"
  using room
proof (induction "unat x" arbitrary: x n s rule: less_induct)
  case less
  show ?case
  proof (cases "x = 0")
    case True
    then show ?thesis by (subst write_digits.simps) simp
  next
    case False
    then have x: "0 < unat x" by (simp add: unat_gt_0)
    then have t: "numeral_text dig b (unat x) = numeral_text dig b (unat (step x)) @ [dig (unat x mod b)]"
      using b s by (simp add: numeral_text_pos)
    with less.prems obtain m where n: "n = Suc m" by (cases n) auto
    have "write_digits digit step (step x) (m, digit x # s) =
        Some (m - length (numeral_text dig b (unat (step x))), numeral_text dig b (unat (step x)) @ digit x # s)"
      by (rule less.hyps) (use x b s less.prems t n in auto)
    with False show ?thesis by (subst write_digits.simps) (simp add: put_back_def n t d)
  qed
qed

section \<open>The text of an integer\<close>

definition decimal_char :: "nat \<Rightarrow> char" where
  "decimal_char d = char_of (d + 48)"

lemma decimal_digit_eq: "10 < (2 :: nat) ^ LENGTH('a::len) \<Longrightarrow> decimal_digit (x :: 'a word) = decimal_char (unat x mod 10)"
  by (simp add: decimal_digit_def decimal_char_def unat_mod_distrib unat_of_nat_small [where i = 10, simplified])

lemma unat_div_10: "10 < (2 :: nat) ^ LENGTH('a::len) \<Longrightarrow> unat (x div 10 :: 'a word) = unat x div 10"
  by (simp add: unat_div_distrib unat_of_nat_small [where i = 10, simplified])

lemma unat_low_bits: "k \<le> 32 \<Longrightarrow> unat (take_bit k (ucast (t :: u64) :: u32)) = unat t mod 2 ^ k"
  by (simp add: unsigned_take_bit_eq unsigned_ucast_eq min_def flip: take_bit_eq_mod)

lemma octal_digit_eq: "octal_digit t = decimal_char (unat t mod 8)"
proof -
  have "((ucast t :: u32) AND 7) = take_bit 3 (ucast t)" unfolding take_bit_eq_mask by (simp add: mask_eq_exp_minus_1)
  then show ?thesis using unat_low_bits [of 3 t] unfolding octal_digit_def decimal_char_def by simp
qed

lemma hex_digit_eq: "hex_digit table t = table ! (unat t mod 16)"
proof -
  have "((ucast t :: u32) AND 15) = take_bit 4 (ucast t)" unfolding take_bit_eq_mask by (simp add: mask_eq_exp_minus_1)
  then show ?thesis using unat_low_bits [of 4 t] unfolding hex_digit_def by simp
qed

lemma unat_drop_bit_div: "unat (drop_bit k (t :: 'a::len word)) = unat t div 2 ^ k"
  unfolding unsigned_drop_bit_eq by (simp add: drop_bit_eq_div take_bit_nat_eq_self)

text \<open>The text of an integer, by its value and the flags.\<close>

definition int_text :: "num_env \<Rightarrow> bool \<Rightarrow> fmtflags \<Rightarrow> 'a::len word \<Rightarrow> string" where
  "int_text env is_signed flags x =
     (let table = (if Uppercase \<in> flags then hex_char_table_hi env else hex_char_table_lo env) in
      if x = 0 then (if Showpos \<in> flags \<and> flags \<inter> {Oct, Hex} = {} then ''+0'' else ''0'')
      else if flags \<inter> basefield = {Oct} then
        (if Showbase \<in> flags then ''0'' else []) @ numeral_text decimal_char 8 (unat x)
      else if flags \<inter> basefield = {Hex} then
        (if Showbase \<in> flags then [CHR ''0'', table ! 16] else []) @ numeral_text (\<lambda>d. table ! d) 16 (unat x)
      else
        (if is_signed \<and> sint x < 0 then ''-'' else if Showpos \<in> flags then ''+'' else [])
          @ numeral_text decimal_char 10 (if is_signed then nat \<bar>sint x\<bar> else unat x))"

text \<open>\<open>long\<close> has 64 bits, or 32 in the tools for the smaller processor.\<close>

lemma umax_of_64: "unat (umax_of is_signed (x :: u64)) = unat x"
  by (simp add: umax_of_def)

lemma umax_of_32: "unat (umax_of is_signed (x :: u32)) = unat x"
proof -
  have "(scast x AND 0xFFFFFFFF :: u64) = ucast x" for x :: u32
  proof -
    have "(scast x AND 0xFFFFFFFF :: u64) = take_bit 32 (scast x)" unfolding take_bit_eq_mask by (simp add: mask_eq_exp_minus_1)
    also have "\<dots> = ucast x" by transfer (simp add: take_bit_signed_take_bit)
    finally show ?thesis .
  qed
  moreover have "(ucast x AND 0xFFFFFFFF :: u64) = ucast x" for x :: u32
  proof -
    have "(ucast x AND 0xFFFFFFFF :: u64) = take_bit 32 (ucast x)" unfolding take_bit_eq_mask by (simp add: mask_eq_exp_minus_1)
    also have "\<dots> = ucast x" by (rule bit_word_eqI) (auto simp: bit_take_bit_iff bit_unsigned_iff dest: bit_imp_le_length)
    finally show ?thesis .
  qed
  moreover have "unat x < 2 ^ 64" by (rule less_trans [OF unsigned_less]) simp
  ultimately show ?thesis
    by (simp add: umax_of_def unsigned_ucast_eq take_bit_nat_eq_self_iff)
qed

text \<open>The absolute value, in 64 bits, also of the smallest number, whose negation wraps around.\<close>

lemma unat_magnitude:
  fixes x :: "'a::len word"
  assumes "LENGTH('a) \<le> 64"
  shows "unat (if x <s 0 then - scast x else scast x :: u64) = nat \<bar>sint x\<bar>"
proof -
  have r: "- (2 ^ 63) \<le> sint x" "sint x < 2 ^ 63"
  proof -
    have p: "(2 :: int) ^ (LENGTH('a) - 1) \<le> 2 ^ 63" by (rule power_increasing) (use assms in auto)
    show "- (2 ^ 63) \<le> sint x" using sint_ge [of x] p by linarith
    show "sint x < 2 ^ 63" using sint_lt [of x] p by linarith
  qed
  have u: "unat (word_of_int i :: u64) = nat i" if "0 \<le> i" "i \<le> 2 ^ 63" for i
    using that by (simp add: unat_eq_nat_uint uint_word_of_int)
  show ?thesis
  proof (cases "sint x < 0")
    case True
    have e: "(- scast x :: u64) = word_of_int (- sint x)" by simp
    have "unat (- scast x :: u64) = nat (- sint x)" unfolding e by (rule u) (use True r in linarith)+
    moreover have "x <s 0" using True by (simp add: word_sless_alt)
    ultimately show ?thesis using True by simp
  next
    case False
    then have "\<not> x <s 0" by (simp add: word_sless_alt)
    with False r u [of "sint x"] show ?thesis by simp
  qed
qed

lemma put_back_eq: "put_back c (n, s) = (if n = 0 then None else Some (n - 1, c # s))"
  by (cases n) (simp_all add: put_back_def)

lemma write_integer_eq:
  fixes x :: "'a::len word"
  assumes u: "unat (umax_of is_signed x) = unat x" and w: "LENGTH('a) \<le> 64" "10 < (2 :: nat) ^ LENGTH('a)"
    and r: "2 \<le> sz" "unat x < 8 ^ (sz - 1)" "unat x < 10 ^ (sz - 1)" "unat x < 16 ^ (sz - 2)" "nat \<bar>sint x\<bar> < 10 ^ (sz - 1)"
  shows "write_integer_backward env is_signed flags x (sz, []) =
    Some (sz - length (int_text env is_signed flags x), int_text env is_signed flags x)"
proof -
  obtain m where sz: "sz = Suc (Suc m)" using r(1) by (metis Suc_le_D numeral_2_eq_2 Suc_le_mono)
  let ?table = "if Uppercase \<in> flags then hex_char_table_hi env else hex_char_table_lo env"
  have oct: "length (numeral_text decimal_char 8 (unat x)) \<le> sz - 1" by (rule length_numeral_text) (use r in auto)
  have hex: "length (numeral_text (\<lambda>d. ?table ! d) 16 (unat x)) \<le> sz - 2" by (rule length_numeral_text) (use r in auto)
  have dec: "length (numeral_text decimal_char 10 (unat x)) \<le> sz - 1" by (rule length_numeral_text) (use r in auto)
  have sdec: "length (numeral_text decimal_char 10 (nat \<bar>sint x\<bar>)) \<le> sz - 1" by (rule length_numeral_text) (use r in auto)
  have wo: "write_digits octal_digit (drop_bit 3) (umax_of is_signed x) (sz, []) =
      Some (sz - length (numeral_text decimal_char 8 (unat x)), numeral_text decimal_char 8 (unat x))"
    using write_digits_eq [of octal_digit decimal_char 8 "drop_bit 3" "umax_of is_signed x" sz "[]"] oct u
    by (simp add: octal_digit_eq unat_drop_bit_div)
  have wh: "write_digits (hex_digit ?table) (drop_bit 4) (umax_of is_signed x) (sz, []) =
      Some (sz - length (numeral_text (\<lambda>d. ?table ! d) 16 (unat x)), numeral_text (\<lambda>d. ?table ! d) 16 (unat x))"
    using write_digits_eq [of "hex_digit ?table" "\<lambda>d. ?table ! d" 16 "drop_bit 4" "umax_of is_signed x" sz "[]"] hex u
    by (simp add: hex_digit_eq unat_drop_bit_div)
  have wd: "write_digits decimal_digit (\<lambda>t. t div 10) x (sz, []) =
      Some (sz - length (numeral_text decimal_char 10 (unat x)), numeral_text decimal_char 10 (unat x))"
    using write_digits_eq [of decimal_digit decimal_char 10 "\<lambda>t. t div 10" x sz "[]"] dec w(2)
    by (simp add: decimal_digit_eq unat_div_10)
  have ws: "write_digits decimal_digit (\<lambda>t. t div 10) (if x <s 0 then - scast x else scast x :: u64) (sz, []) =
      Some (sz - length (numeral_text decimal_char 10 (nat \<bar>sint x\<bar>)), numeral_text decimal_char 10 (nat \<bar>sint x\<bar>))"
    using write_digits_eq [of decimal_digit decimal_char 10 "\<lambda>t. t div 10" "if x <s 0 then - scast x else scast x :: u64" sz "[]"]
      sdec unat_magnitude [OF w(1), of x] by (simp add: decimal_digit_eq unat_div_10)
  have neg: "x <s 0 \<longleftrightarrow> sint x < 0" by (simp add: word_sless_alt)
  consider "x = 0" | "x \<noteq> 0" "flags \<inter> basefield = {Oct}" | "x \<noteq> 0" "flags \<inter> basefield = {Hex}"
    | "x \<noteq> 0" "flags \<inter> basefield \<noteq> {Oct}" "flags \<inter> basefield \<noteq> {Hex}" by blast
  then show ?thesis
  proof cases
    case 1
    then show ?thesis by (simp add: write_integer_backward_def int_text_def put_back_def sz Let_def)
  next
    case 2
    define t where "t = numeral_text decimal_char 8 (unat x)"
    have "write_integer_backward env is_signed flags x (sz, []) =
        (if Showbase \<in> flags then put_back (CHR ''0'') (sz - length t, t) else Some (sz - length t, t))"
      using 2 wo unfolding write_integer_backward_def by (simp add: t_def)
    moreover have "int_text env is_signed flags x = (if Showbase \<in> flags then ''0'' else []) @ t"
      using 2 by (simp add: int_text_def t_def Let_def)
    moreover have "length t \<le> sz - 1" using oct by (simp add: t_def)
    ultimately show ?thesis using sz by (simp add: put_back_eq)
  next
    case 3
    define t where "t = numeral_text (\<lambda>d. ?table ! d) 16 (unat x)"
    have f: "flags \<inter> basefield \<noteq> {Oct}" using 3 by simp
    have "write_integer_backward env is_signed flags x (sz, []) =
        (if Showbase \<in> flags then Option.bind (put_back (?table ! 16) (sz - length t, t)) (put_back (CHR ''0'')) else Some (sz - length t, t))"
      using 3 f wh unfolding write_integer_backward_def by (simp add: t_def Let_def)
    moreover have "int_text env is_signed flags x = (if Showbase \<in> flags then [CHR ''0'', ?table ! 16] else []) @ t"
      using 3 f by (simp add: int_text_def t_def Let_def)
    moreover have "length t \<le> sz - 2" using hex by (simp add: t_def)
    ultimately show ?thesis using sz by (simp add: put_back_eq)
  next
    case 4
    define t where "t = numeral_text decimal_char 10 (if is_signed then nat \<bar>sint x\<bar> else unat x)"
    have t: "length t \<le> sz - 1" using sdec dec by (simp add: t_def)
    have "write_integer_backward env is_signed flags x (sz, []) =
        (if is_signed \<and> sint x < 0 then put_back (CHR ''-'') (sz - length t, t)
         else if Showpos \<in> flags then put_back (CHR ''+'') (sz - length t, t) else Some (sz - length t, t))"
    proof (cases is_signed)
      case True
      with 4 ws show ?thesis unfolding write_integer_backward_def write_decimal_backward_def by (simp add: Let_def neg t_def)
    next
      case False
      with 4 wd show ?thesis unfolding write_integer_backward_def write_decimal_backward_def by (simp add: t_def)
    qed
    moreover have "int_text env is_signed flags x = (if is_signed \<and> sint x < 0 then ''-'' else if Showpos \<in> flags then ''+'' else []) @ t"
      using 4 by (simp add: int_text_def t_def Let_def)
    ultimately show ?thesis using t sz by (simp add: put_back_eq)
  qed
qed

lemma int_text_written:
  assumes "grouping env = []"
  shows "do_put_integer env is_signed (x :: u64) flags wid fill = Some (copy_integer_and_fill (int_text env is_signed flags x) flags wid fill)"
    and "do_put_integer env is_signed (y :: u32) flags wid fill = Some (copy_integer_and_fill (int_text env is_signed flags y) flags wid fill)"
proof -
  have x: "unat x < 2 ^ 64" and y: "unat y < 2 ^ 32" using unsigned_less [of x] unsigned_less [of y] by simp_all
  have sx: "nat \<bar>sint x\<bar> \<le> 2 ^ 63" using sint_ge [of x] sint_lt [of x] by simp
  have sy: "nat \<bar>sint y\<bar> \<le> 2 ^ 31" using sint_ge [of y] sint_lt [of y] by simp
  have "write_integer_backward env is_signed flags x (26, []) = Some (26 - length (int_text env is_signed flags x), int_text env is_signed flags x)"
    by (rule write_integer_eq [OF umax_of_64]) (use x sx in auto)
  then show "do_put_integer env is_signed x flags wid fill = Some (copy_integer_and_fill (int_text env is_signed flags x) flags wid fill)"
    using assms by (simp add: do_put_integer_def put_integer_def)
  have "write_integer_backward env is_signed flags y (14, []) = Some (14 - length (int_text env is_signed flags y), int_text env is_signed flags y)"
    by (rule write_integer_eq [OF umax_of_32]) (use y sy in auto)
  then show "do_put_integer env is_signed y flags wid fill = Some (copy_integer_and_fill (int_text env is_signed flags y) flags wid fill)"
    using assms by (simp add: do_put_integer_def put_integer_def)
qed

lemma padding_inserted:
  assumes "wid < 2 ^ 63"
  shows "\<exists>a b. s = a @ b \<and> copy_integer_and_fill s flags wid fill = a @ replicate (nat wid - length s) fill @ b"
proof (cases "int (length s) \<ge> wid")
  case True
  then show ?thesis by (intro exI [of _ s] exI [of _ "[]"]) (simp add: copy_integer_and_fill_def)
next
  case False
  let ?p = "replicate (nat wid - length s) fill"
  have p: "replicate (nat (min (2 ^ 63 - 1) (wid - int (length s)))) fill = ?p" using assms False by (simp add: nat_diff_distrib')
  have "copy_integer_and_fill s flags wid fill \<in> {s @ ?p, ?p @ s} \<or> s \<noteq> [] \<and> copy_integer_and_fill s flags wid fill = s ! 0 # ?p @ drop 1 s
      \<or> 2 \<le> length s \<and> copy_integer_and_fill s flags wid fill = s ! 0 # s ! 1 # ?p @ drop 2 s"
    using False unfolding copy_integer_and_fill_def p Let_def by simp
  then consider "copy_integer_and_fill s flags wid fill = s @ ?p" | "copy_integer_and_fill s flags wid fill = ?p @ s"
    | "s \<noteq> []" "copy_integer_and_fill s flags wid fill = s ! 0 # ?p @ drop 1 s"
    | "2 \<le> length s" "copy_integer_and_fill s flags wid fill = s ! 0 # s ! 1 # ?p @ drop 2 s" by blast
  then show ?thesis
  proof cases
    case 1
    then show ?thesis by (intro exI [of _ s] exI [of _ "[]"]) simp
  next
    case 2
    then show ?thesis by (intro exI [of _ "[]"] exI [of _ s]) simp
  next
    case 3
    then obtain c t where "s = c # t" by (cases s) auto
    with 3 show ?thesis by (intro exI [of _ "[c]"] exI [of _ t]) simp
  next
    case 4
    then obtain c d t where "s = c # d # t" by (cases s; cases "tl s") auto
    with 4 show ?thesis by (intro exI [of _ "[c, d]"] exI [of _ t]) simp
  qed
qed

section \<open>Reading what has been written\<close>

lemma digit_of_decimal [simp]: "d < 10 \<Longrightarrow> digit_of (decimal_char d) = d"
  by (simp add: digit_of_def decimal_char_def)

lemma digit_of_0 [simp]: "digit_of (CHR ''0'') = 0"
  by (simp add: digit_of_def)

lemma digit_of_hex:
  assumes "std_tables env" "d < 16"
  shows "digit_of ((if b then hex_char_table_hi env else hex_char_table_lo env) ! d) = d"
proof -
  have "d = 0 \<or> d = 1 \<or> d = 2 \<or> d = 3 \<or> d = 4 \<or> d = 5 \<or> d = 6 \<or> d = 7 \<or> d = 8 \<or> d = 9 \<or> d = 10 \<or> d = 11
      \<or> d = 12 \<or> d = 13 \<or> d = 14 \<or> d = 15" using assms(2) by presburger
  then show ?thesis using assms(1) by (auto simp: std_tables_def digit_of_def)
qed

lemma digit_of_space: "is_space c \<Longrightarrow> digit_of c = 255"
  by (auto simp: is_space_def digit_of_def Let_def)

text \<open>A digit is neither a sign nor an x, and only 0 has the value 0.\<close>

lemma atoms_std:
  assumes "std_tables env"
  shows "narrow_atoms env ! 0 = CHR ''+''" "narrow_atoms env ! Suc 0 = CHR ''-''" "narrow_atoms env ! 2 = CHR ''0''"
    "narrow_atoms env ! 3 = CHR ''x''" "narrow_atoms env ! 4 = CHR ''X''"
    "hex_char_table_lo env ! 16 = CHR ''x''" "hex_char_table_hi env ! 16 = CHR ''X''"
  using assms by (simp_all add: std_tables_def)

lemma digit_not: "digit_of c < 16 \<Longrightarrow> c \<noteq> CHR ''+'' \<and> c \<noteq> CHR ''-'' \<and> c \<noteq> CHR ''x'' \<and> c \<noteq> CHR ''X''"
  by (auto simp: digit_of_def)

lemma space_not: "is_space c \<Longrightarrow> c \<noteq> CHR ''0'' \<and> c \<noteq> CHR ''x'' \<and> c \<noteq> CHR ''X''"
  by (auto simp: is_space_def)

lemma digit_zero: "digit_of c = 0 \<longleftrightarrow> c = CHR ''0''"
proof
  assume "digit_of c = 0"
  then have "(of_char c :: nat) = of_char (CHR ''0'')" by (auto simp: digit_of_def Let_def split: if_splits)
  then show "c = CHR ''0''" by (simp only: of_char_eq_iff)
qed (simp add: digit_of_def)

text \<open>A number ends at the end of the text or at white space.\<close>

definition ends_number :: "string \<Rightarrow> bool" where
  "ends_number rest \<longleftrightarrow> rest = [] \<or> is_space (hd rest)"

lemma digits_in_append:
  assumes "\<And>c. c \<in> set ds \<Longrightarrow> digit_of c < base" "ends_number rest" "base \<le> 16"
  shows "digits_in base (ds @ rest) = ds" "behind_digits base (ds @ rest) = rest"
proof -
  have "takeWhile (\<lambda>c. digit_of c < base) rest = []" "dropWhile (\<lambda>c. digit_of c < base) rest = rest"
    using assms(2,3) by (cases rest; auto simp: ends_number_def digit_of_space)+
  with assms(1) show "digits_in base (ds @ rest) = ds" "behind_digits base (ds @ rest) = rest"
    by (simp_all add: digits_in_def behind_digits_def takeWhile_append dropWhile_append)
qed

lemma digits_of_text:
  assumes "1 < b" "b \<le> 16" "\<And>d. d < b \<Longrightarrow> digit_of (dig d) = d" "ends_number rest"
  shows "digits_in b (numeral_text dig b v @ rest) = numeral_text dig b v" "behind_digits b (numeral_text dig b v @ rest) = rest"
proof -
  have "digit_of c < b" if "c \<in> set (numeral_text dig b v)" for c
    using set_numeral_text [OF assms(1) that] assms(3) by auto
  from digits_in_append [OF this assms(4,2)] show "digits_in b (numeral_text dig b v @ rest) = numeral_text dig b v"
    "behind_digits b (numeral_text dig b v @ rest) = rest" by blast+
qed

lemma first_digit:
  assumes "1 < b" "b \<le> 16" "\<And>d. d < b \<Longrightarrow> digit_of (dig d) = d" "0 < v"
  obtains c t where "numeral_text dig b v = c # t" "digit_of c < 16" "c \<noteq> CHR ''0''"
proof -
  obtain d where d: "0 < d" "d < b" "hd (numeral_text dig b v) = dig d" using hd_numeral_text [OF assms(1,4), of dig] by blast
  obtain c t where t: "numeral_text dig b v = c # t" using numeral_text_nonempty [OF assms(1,4)] by (metis neq_Nil_conv)
  with d have "digit_of c = d" using assms(3) by simp
  then have "digit_of c < 16" "c \<noteq> CHR ''0''" using d assms(2) digit_zero [of c] by auto
  with t show ?thesis by (rule that)
qed

lemma get_sign_digit: "std_tables env \<Longrightarrow> digit_of c < 16 \<Longrightarrow> get_sign env (c # t) = (False, c # t)"
  using digit_not [of c] by (simp add: get_sign_def atoms_std)

text \<open>Whatever the flags, the same flags read the number back, except that the octal and hexadecimal digits of
  a negative number are those of its remainder modulo the width.\<close>

lemma zero_ahead:
  assumes env: "std_tables env" and rest: "ends_number rest"
  shows "number_ahead env flags (int_text env is_signed flags (0 :: 'a::len word) @ rest) = (True, False, 0, rest)"
proof -
  have z: "digit_of (CHR ''0'') = 0" by (simp add: digit_of_def)
  have r: "digits_in b rest = []" "behind_digits b rest = rest" if "b \<le> 16" for b
    using digits_in_append [of "[]" b rest] rest that by simp_all
  have d: "digits_in b (CHR ''0'' # rest) = ''0''" "behind_digits b (CHR ''0'' # rest) = rest" if "0 < b" "b \<le> 16" for b
    using digits_in_append [of "''0''" b rest] rest that z by simp_all
  have x: "\<not> (rest \<noteq> [] \<and> is_x env (hd rest))" using rest space_not [of "hd rest"] by (auto simp: ends_number_def is_x_def atoms_std [OF env])
  obtain xs0 where g: "get_sign env (int_text env is_signed flags (0 :: 'a word) @ rest) = (False, CHR ''0'' # rest)"
    using get_sign_digit [OF env, of "CHR ''0''"] z by (simp add: int_text_def get_sign_def atoms_std [OF env])
  show ?thesis
    using x r d z by (auto simp: number_ahead_def g get_base_def atoms_std [OF env] Let_def)
qed

lemma uint_eq_sint:
  fixes x :: "'a::len word"
  assumes "0 \<le> sint x"
  shows "uint x = sint x"
proof -
  have "uint x = uint (word_of_int (sint x) :: 'a word)" by simp
  also have "\<dots> = sint x mod 2 ^ LENGTH('a)" by (simp only: uint_word_of_int)
  also have "\<dots> = sint x" using assms sint_lt [of x] power_double [where 'a = 'a] by (intro mod_pos_pos_trivial) simp_all
  finally show ?thesis .
qed

lemma number_ahead_text:
  fixes x :: "'a::len word"
  assumes env: "std_tables env" and rest: "ends_number rest"
    and f: "is_signed \<and> sint x < 0 \<longrightarrow> flags \<inter> basefield \<noteq> {Oct} \<and> flags \<inter> basefield \<noteq> {Hex}"
  shows "number_ahead env flags (int_text env is_signed flags x @ rest) =
    (True, is_signed \<and> sint x < 0, if is_signed then nat \<bar>sint x\<bar> else unat x, rest)"
proof (cases "x = 0")
  case True
  then show ?thesis using zero_ahead [OF env rest, of flags is_signed, where 'a = 'a] by simp
next
  case False
  then have x: "0 < unat x" "0 < nat \<bar>sint x\<bar>" using signed_eq_0_iff [of x, where 'a = int] by (simp_all add: unat_gt_0)
  have pos: "(if is_signed then nat \<bar>sint x\<bar> else unat x) = unat x" if "\<not> (is_signed \<and> sint x < 0)"
  proof (cases is_signed)
    case True
    then have "0 \<le> sint x" using that by simp
    then have "uint x = sint x" "nat \<bar>sint x\<bar> = nat (sint x)" by (simp_all add: uint_eq_sint)
    then show ?thesis using True by (simp add: unat_eq_nat_uint)
  qed simp
  let ?table = "if Uppercase \<in> flags then hex_char_table_hi env else hex_char_table_lo env"
  have table: "digit_of (?table ! d) = d" if "d < 16" for d by (rule digit_of_hex [OF env that])
  consider (oct) "flags \<inter> basefield = {Oct}" | (hex) "flags \<inter> basefield = {Hex}"
    | (dec) "flags \<inter> basefield \<noteq> {Oct}" "flags \<inter> basefield \<noteq> {Hex}" by blast
  then show ?thesis
  proof cases
    case oct
    define t where "t = (if Showbase \<in> flags then ''0'' else []) @ numeral_text decimal_char 8 (unat x)"
    have ds: "digits_in 8 (t @ rest) = t" "behind_digits 8 (t @ rest) = rest"
    proof -
      have "digit_of c < 8" if "c \<in> set t" for c
        using that set_numeral_text [of 8 c decimal_char "unat x"] by (auto simp: t_def split: if_splits)
      from digits_in_append [OF this rest] show "digits_in 8 (t @ rest) = t" "behind_digits 8 (t @ rest) = rest" by simp_all
    qed
    have v: "numeral_value 8 0 t = unat x"
      by (simp add: t_def numeral_value_text)
    obtain c u where c: "numeral_text decimal_char 8 (unat x) = c # u" "digit_of c < 16" by (rule first_digit [of 8 decimal_char "unat x"]) (use x in auto)
    then have "\<exists>c u. t = c # u \<and> digit_of c < 16" by (simp add: t_def)
    then obtain c u where t0: "t = c # u" "digit_of c < 16" by blast
    then have "get_sign env (t @ rest) = (False, t @ rest)" using get_sign_digit [OF env t0(2)] by simp
    moreover have "int_text env is_signed flags x = t" using oct False by (simp add: int_text_def t_def Let_def)
    moreover have "get_base env flags (t @ rest) = (8, 0, t @ rest)" using oct by (simp add: get_base_def)
    moreover have "\<not> (is_signed \<and> sint x < 0)" using oct f by blast
    ultimately show ?thesis using t0(1) ds v pos by (simp add: number_ahead_def)
  next
    case hex
    define t where "t = numeral_text (\<lambda>d. ?table ! d) 16 (unat x)"
    have ds: "digits_in 16 (t @ rest) = t" "behind_digits 16 (t @ rest) = rest" unfolding t_def
      by (rule digits_of_text; use table rest in auto)+
    have v: "numeral_value 16 0 t = unat x" unfolding t_def by (rule numeral_value_text) (use table in auto)
    obtain c u where c: "t = c # u" "digit_of c < 16" "c \<noteq> CHR ''0''"
      unfolding t_def by (rule first_digit [of 16 "\<lambda>d. ?table ! d" "unat x"]) (use x table in auto)
    have h: "flags \<inter> basefield \<noteq> {Oct}" "flags \<inter> basefield \<noteq> {Dec}" using hex by auto
    have z: "digit_of (CHR ''0'') < 16" by (simp add: digit_of_def)
    have xx: "is_x env (?table ! 16)" by (simp add: is_x_def atoms_std [OF env])
    have "int_text env is_signed flags x = (if Showbase \<in> flags then [CHR ''0'', ?table ! 16] else []) @ t"
      using hex h False by (simp add: int_text_def t_def Let_def)
    moreover have "get_sign env ((if Showbase \<in> flags then [CHR ''0'', ?table ! 16] else []) @ t @ rest) =
        (False, (if Showbase \<in> flags then [CHR ''0'', ?table ! 16] else []) @ t @ rest)"
      using c get_sign_digit [OF env c(2)] get_sign_digit [OF env z] by simp
    moreover have "get_base env flags ((if Showbase \<in> flags then [CHR ''0'', ?table ! 16] else []) @ t @ rest) = (16, 0, t @ rest)"
      using hex h c xx by (simp add: get_base_def atoms_std [OF env])
    moreover have "\<not> (is_signed \<and> sint x < 0)" using hex f by blast
    ultimately show ?thesis using c(1) ds v pos by (simp add: number_ahead_def)
  next
    case dec
    define v where "v = (if is_signed then nat \<bar>sint x\<bar> else unat x)"
    define t where "t = numeral_text decimal_char 10 v"
    have ds: "digits_in 10 (t @ rest) = t" "behind_digits 10 (t @ rest) = rest" unfolding t_def
      by (rule digits_of_text; use rest in auto)+
    have val: "numeral_value 10 0 t = v" unfolding t_def by (rule numeral_value_text) auto
    obtain c u where c: "t = c # u" "digit_of c < 16" "c \<noteq> CHR ''0''"
      unfolding t_def by (rule first_digit [of 10 decimal_char v]) (use x in \<open>auto simp: v_def\<close>)
    have "int_text env is_signed flags x = (if is_signed \<and> sint x < 0 then ''-'' else if Showpos \<in> flags then ''+'' else []) @ t"
      using dec False by (simp add: int_text_def t_def v_def Let_def)
    then have "get_sign env (int_text env is_signed flags x @ rest) = (is_signed \<and> sint x < 0, t @ rest)"
      using c get_sign_digit [OF env c(2)] by (auto simp: get_sign_def atoms_std [OF env])
    moreover have "get_base env flags (t @ rest) = (10, 0, t @ rest)"
      using dec c by (simp add: get_base_def atoms_std [OF env] Let_def)
    ultimately show ?thesis using c ds val by (simp add: number_ahead_def v_def Let_def)
  qed
qed

text \<open>The text starts with a digit or a sign.\<close>

lemma int_text_first:
  assumes env: "std_tables env"
  shows "int_text env is_signed flags x \<noteq> []" "\<not> is_space (hd (int_text env is_signed flags x))"
proof -
  let ?table = "if Uppercase \<in> flags then hex_char_table_hi env else hex_char_table_lo env"
  have table: "digit_of (?table ! d) = d" if "d < 16" for d by (rule digit_of_hex [OF env that])
  have dig: "ds \<noteq> [] \<and> \<not> is_space (hd ds)" if h: "ds = numeral_text dig b v" "1 < b" "b \<le> 16" "\<And>d. d < b \<Longrightarrow> digit_of (dig d) = d" "0 < v"
    for ds dig b v
  proof -
    obtain c t where "ds = c # t" "digit_of c < 16" using first_digit [OF h(2-5)] h(1) by metis
    then show ?thesis using digit_of_space [of c] by auto
  qed
  have "int_text env is_signed flags x \<noteq> [] \<and> \<not> is_space (hd (int_text env is_signed flags x))"
  proof (cases "x = 0")
    case True
    then show ?thesis by (simp add: int_text_def is_space_def Let_def)
  next
    case False
    then have x: "0 < unat x" "0 < nat \<bar>sint x\<bar>" using signed_eq_0_iff [of x, where 'a = int] by (simp_all add: unat_gt_0)
    have "numeral_text decimal_char 8 (unat x) \<noteq> [] \<and> \<not> is_space (hd (numeral_text decimal_char 8 (unat x)))"
      by (rule dig [OF refl]) (use x in auto)
    moreover have "numeral_text (\<lambda>d. ?table ! d) 16 (unat x) \<noteq> [] \<and> \<not> is_space (hd (numeral_text (\<lambda>d. ?table ! d) 16 (unat x)))"
      by (rule dig [OF refl]) (use x table in auto)
    moreover have "numeral_text decimal_char 10 v \<noteq> [] \<and> \<not> is_space (hd (numeral_text decimal_char 10 v))" if "0 < v" for v
      by (rule dig [OF refl]) (use that in auto)
    ultimately show ?thesis using False x by (auto simp: int_text_def is_space_def Let_def)
  qed
  then show "int_text env is_signed flags x \<noteq> []" "\<not> is_space (hd (int_text env is_signed flags x))" by blast+
qed

lemma text_read_back:
  fixes x :: "'a::len word"
  assumes env: "std_tables env" "grouping env = []" and w: "8 \<le> LENGTH('a)" and rest: "ends_number rest"
    and f: "is_signed \<and> sint x < 0 \<longrightarrow> flags \<inter> basefield \<noteq> {Oct} \<and> flags \<inter> basefield \<noteq> {Hex}"
  shows "do_get_integer env flags is_signed (int_text env is_signed flags x @ rest) =
      Some (Some x, if rest = [] then {eofbit} else {}, rest)"
    and "int_text env is_signed flags x @ rest \<noteq> []"
proof -
  note ahead = number_ahead_text [OF env(1) rest f]
  show ne: "int_text env is_signed flags x @ rest \<noteq> []"
  proof
    assume "int_text env is_signed flags x @ rest = []"
    with ahead have "number_ahead env flags [] = (True, is_signed \<and> sint x < 0, if is_signed then nat \<bar>sint x\<bar> else unat x, rest)" by simp
    then show False by (auto simp: number_ahead_def get_sign_def get_base_def digits_in_def Let_def split: if_splits)
  qed
  have r: "- (2 ^ (LENGTH('a) - 1)) \<le> sint x" "sint x \<le> 2 ^ (LENGTH('a) - 1) - 1" using sint_ge [of x] sint_lt [of x] by simp_all
  show "do_get_integer env flags is_signed (int_text env is_signed flags x @ rest) = Some (Some x, if rest = [] then {eofbit} else {}, rest)"
  proof (cases is_signed)
    case True
    have i: "(if sint x < 0 then - int (nat \<bar>sint x\<bar>) else int (nat \<bar>sint x\<bar>)) = sint x" by simp
    have "clamp (- (2 ^ (LENGTH('a) - 1))) (2 ^ (LENGTH('a) - 1) - 1) (sint x) = sint x" using r by (simp add: clamp_def)
    then have "signed_outcome (True, sint x < 0, nat \<bar>sint x\<bar>, rest) = (Some x, if rest = [] then {eofbit} else {}, rest)"
      using r unfolding signed_outcome_def prod.case i Let_def by simp
    then show ?thesis unfolding do_get_integer_eq [OF env w ne] ahead using True by simp
  next
    case False
    have "unat x < 2 ^ LENGTH('a)" by (rule unsigned_less)
    then have "unsigned_outcome (True, False, unat x, rest) = (Some x, if rest = [] then {eofbit} else {}, rest)"
      by (simp add: unsigned_outcome_def)
    then show ?thesis unfolding do_get_integer_eq [OF env w ne] ahead using False by simp
  qed
qed

section \<open>Through the streams\<close>

lemma take_chars_text: "ok_buf b \<Longrightarrow> buffered_text (take_chars n b) = drop n (buffered_text b) \<and> ok_buf (take_chars n b)"
proof (induction n arbitrary: b)
  case (Suc n)
  from Suc.prems show ?case by (cases rule: sbumpc_cases) (use Suc.IH in auto)
qed simp

lemma get_num_text:
  assumes s: "ok_stream s" "good s" and t: "dropWhile is_space (unread (view s)) = u @ rest" "u \<noteq> []"
    and facet: "facet (u @ rest) = Some (val, err, rest)"
  shows "\<exists>s'. get_num facet s = Some (val, s') \<and> unread (view s') = rest \<and> rdstate s' = err \<and> ok_stream s'"
proof -
  note i = init_skip_fields [OF s]
  have g: "good (init_skip s)" "rdstate (init_skip s) = {}" unfolding good_def i(2) t(1) using t(2) by simp_all
  have b: "buffered_text (rdbuf (init_skip s)) = u @ rest" "ok_buf (rdbuf (init_skip s))" using i(1,5) t by (simp_all add: ok_stream_def)
  define b' where "b' = take_chars (length u) (rdbuf (init_skip s))"
  have b': "buffered_text b' = rest" "ok_buf b'" using take_chars_text [OF b(2), of "length u"] b(1) by (simp_all add: b'_def)
  from b'(2) have "buffered_text (snd (sgetc b')) = rest \<and> ok_buf (snd (sgetc b'))" by (cases rule: sgetc_cases) (use b'(1) in auto)
  then show ?thesis using g b facet by (simp add: get_num_def Let_def ok_stream_def flip: b'_def)
qed


definition demo_out :: "fmtflags \<Rightarrow> out_stream" where
  "demo_out flags = \<lparr>out = \<lparr>written = [], room = 40\<rparr>, out_state = {}, out_width = 8, out_fill = CHR '' '', out_flags = flags\<rparr>"


section \<open>What cannot be read back, or not be written\<close>

text \<open>a pointer is written as 0x and hexadecimal digits, and it is read with the flags of the stream.  With
  the flags of a new stream, which say decimal, what is read back from any pointer is a null pointer, without
  any error, and the rest of it stays in the stream.\<close>

theorem pointer_read_as_null:
  assumes "std_tables env" "grouping env = []" "flags \<inter> basefield = {Dec}"
  shows "\<exists>c t. put_pointer env p oflags wid fill = Some (CHR ''0'' # c # t) \<and> (c = CHR ''x'' \<or> c = CHR ''X'')
    \<and> do_get_pointer env flags (CHR ''0'' # c # t) = Some (Some 0, {}, c # t)"
proof -
  let ?c = "(if Uppercase \<in> oflags then hex_char_table_hi env else hex_char_table_lo env) ! 16"
  have c: "?c = CHR ''x'' \<or> ?c = CHR ''X''" by (simp add: atoms_std [OF assms(1)])
  define fl where "fl = (oflags - basefield \<union> {Hex} \<union> {Showbase}) - adjustfield \<union> {Internal_adjust}"
  have fl: "fl \<inter> basefield = {Hex}" "Uppercase \<in> fl \<longleftrightarrow> Uppercase \<in> oflags" "Showbase \<in> fl" "fl \<inter> adjustfield = {Internal_adjust}"
    by (auto simp: fl_def basefield_def adjustfield_def)
  have "\<exists>t. put_pointer env p oflags wid fill = Some (CHR ''0'' # ?c # t)"
  proof (cases "p = 0")
    case True
    then show ?thesis using int_text_written(1) [OF assms(2)] by (simp add: put_pointer_def Let_def)
  next
    case False
    obtain u where u: "int_text env False fl p = CHR ''0'' # ?c # u"
      using False fl by (simp add: int_text_def Let_def)
    have "put_pointer env p oflags wid fill = Some (copy_integer_and_fill (CHR ''0'' # ?c # u) fl 18 (CHR ''0''))"
      using False int_text_written(1) [OF assms(2)] u by (simp add: put_pointer_def Let_def fl_def)
    moreover have "\<exists>t. copy_integer_and_fill (CHR ''0'' # ?c # u) fl 18 (CHR ''0'') = CHR ''0'' # ?c # t"
      using fl by (simp add: copy_integer_and_fill_def Let_def)
    ultimately show ?thesis by simp
  qed
  then obtain t where t: "put_pointer env p oflags wid fill = Some (CHR ''0'' # ?c # t)" by blast
  have "digit_of ?c = 255" using c by (auto simp: digit_of_def)
  then have "number_ahead env flags (CHR ''0'' # ?c # t) = (True, False, 0, ?c # t)"
    using assms(3) get_sign_digit [OF assms(1), of "CHR ''0''"]
    by (simp add: number_ahead_def get_base_def digits_in_def behind_digits_def Let_def)
  then have "do_get_integer env flags False (CHR ''0'' # ?c # t) = Some (Some (0 :: u64), {}, ?c # t)"
    using do_get_integer_eq [OF assms(1,2), where 'a = 64, of "CHR ''0'' # ?c # t" flags False] by (simp add: unsigned_outcome_def)
  with t c show ?thesis by (intro exI [of _ ?c] exI [of _ t]) (auto simp: do_get_pointer_def)
qed

theorem pointer_read_as_null_witness:
  "\<exists>c t. put_pointer c_env 0x7ffe {Dec} 0 (CHR '' '') = Some (CHR ''0'' # c # t) \<and> (c = CHR ''x'' \<or> c = CHR ''X'')
    \<and> do_get_pointer c_env {Dec} (CHR ''0'' # c # t) = Some (Some 0, {}, c # t)"
  by (rule pointer_read_as_null) (simp_all add: basefield_def)



text \<open>\<open>long\<close> numbers of 64 and of 32 bits always fit into the array in which their digits are written from behind,
  with sign and prefix, the smallest number included, whose negation wraps around.  The padding goes in at one place,
  and makes the text as long as the width asks for.\<close>

theorem integers_written:
  assumes "grouping env = []" "wid < 2 ^ 63"
  shows "(\<exists>a b s. do_put_integer env is_signed (x :: u64) flags wid fill = Some s \<and> a @ b = int_text env is_signed flags x
      \<and> s = a @ replicate (nat wid - length (a @ b)) fill @ b \<and> length s = max (length (a @ b)) (nat wid))
    \<and> (\<exists>a b s. do_put_integer env is_signed (y :: u32) flags wid fill = Some s \<and> a @ b = int_text env is_signed flags y
      \<and> s = a @ replicate (nat wid - length (a @ b)) fill @ b \<and> length s = max (length (a @ b)) (nat wid))"
proof -
  have fits: "\<exists>a b s. p = Some s \<and> a @ b = t \<and> s = a @ replicate (nat wid - length (a @ b)) fill @ b \<and> length s = max (length (a @ b)) (nat wid)"
    if p: "p = Some (copy_integer_and_fill t flags wid fill)" for p t
  proof -
    obtain a b where "t = a @ b" "copy_integer_and_fill t flags wid fill = a @ replicate (nat wid - length t) fill @ b"
      using padding_inserted [OF assms(2), of t flags fill] by blast
    with p have "p = Some (a @ replicate (nat wid - length (a @ b)) fill @ b) \<and> a @ b = t" by simp
    then have "p = Some (a @ replicate (nat wid - length (a @ b)) fill @ b) \<and> a @ b = t
        \<and> a @ replicate (nat wid - length (a @ b)) fill @ b = a @ replicate (nat wid - length (a @ b)) fill @ b
        \<and> length (a @ replicate (nat wid - length (a @ b)) fill @ b) = max (length (a @ b)) (nat wid)" by (auto simp: max_def)
    then show ?thesis by blast
  qed
  show ?thesis
    by (rule conjI [OF fits [OF int_text_written(1) [OF assms(1)]] fits [OF int_text_written(2) [OF assms(1)]]])
qed

theorem integers_written_witness:
  "\<exists>a b s. do_put_integer c_env True (- (2 ^ 63) :: u64) {Dec, Internal_adjust} 24 (CHR ''*'') = Some s
    \<and> a @ b = int_text c_env True {Dec, Internal_adjust} (- (2 ^ 63) :: u64)
    \<and> s = a @ replicate (nat 24 - length (a @ b)) (CHR ''*'') @ b \<and> length s = max (length (a @ b)) (nat 24)"
  by (rule integers_written [THEN conjunct1]) simp_all

text \<open>\<open>operator<<\<close> for \<open>int\<close> first takes the number modulo \<open>2 ^ 32\<close> unless the flags say decimal.  With no base at
  all in the flags it is written in decimal, and negative numbers come out as large positive ones.\<close>

theorem negative_int_without_base:
  assumes "grouping env = []" "out_state os = {}" "out_flags os \<inter> basefield = {}" "Showpos \<notin> out_flags os"
    "out_width os \<le> 0" "10 \<le> room (out os)" "sint x < 0"
  shows "\<exists>os'. insert_int env x os = Some os' \<and> out_state os' = {}
    \<and> written (out os') = written (out os) @ numeral_text decimal_char 10 (nat (2 ^ 32 + sint x))"
proof -
  let ?u = "ucast x :: u64"
  have ux: "uint x = 2 ^ 32 + sint x"
  proof -
    have "uint x = uint (word_of_int (sint x) :: u32)" by simp
    also have "\<dots> = sint x mod 2 ^ 32" unfolding uint_word_of_int by simp
    also have "\<dots> = (2 ^ 32 + sint x) mod 2 ^ 32" by (simp only: mod_add_self1)
    also have "\<dots> = 2 ^ 32 + sint x" using assms(7) sint_ge [of x] by (intro mod_pos_pos_trivial) simp_all
    finally show ?thesis .
  qed
  have lt: "uint x < 2 ^ 32" using uint_lt2p [of x] by simp
  have "sint ?u = uint x"
  proof -
    have "?u = word_of_int (uint x)" by simp
    also have "sint \<dots> = uint x" by (rule sint_exact) (use lt order_trans [OF _ uint_ge_0 [of x], of "- (2 ^ 63)"] in auto)
    finally show ?thesis .
  qed
  moreover have "0 \<le> 2 ^ 32 + sint x" using uint_ge_0 [of x] unfolding ux .
  ultimately have su: "nat \<bar>sint ?u\<bar> = nat (2 ^ 32 + sint x)" "\<not> sint ?u < 0" using ux by simp_all
  have nz: "?u \<noteq> 0" using assms(7) ux lt \<open>sint ?u = uint x\<close> sint_ge [of x] by auto
  have f: "out_flags os \<inter> basefield \<noteq> {Oct}" "out_flags os \<inter> basefield \<noteq> {Hex}" "out_flags os \<inter> basefield \<noteq> {Dec}" using assms(3) by auto
  define t where "t = numeral_text decimal_char 10 (nat (2 ^ 32 + sint x))"
  have it: "int_text env True (out_flags os) ?u = t" using nz f su assms(4) unfolding int_text_def Let_def t_def by simp
  have "length t \<le> 10" unfolding t_def by (rule length_numeral_text) (use ux lt in auto)
  moreover have "do_put_integer env True ?u (out_flags os) (out_width os) (out_fill os) = Some t"
    using int_text_written(1) [OF assms(1)] it assms(5) by (simp add: copy_integer_and_fill_def)
  ultimately show ?thesis using assms(2,6) f(3) unfolding insert_int_def insert_long_def put_num_def t_def [symmetric]
    by (simp add: sputn_def Let_def min_def)
qed

theorem negative_int_without_base_witness:
  "\<exists>os'. insert_int c_env (- 1) (demo_out {} \<lparr>out_width := 0\<rparr>) = Some os' \<and> out_state os' = {}
    \<and> written (out os') = written (out (demo_out {} \<lparr>out_width := 0\<rparr>)) @ numeral_text decimal_char 10 (nat (2 ^ 32 + sint (- 1 :: u32)))"
  by (rule negative_int_without_base) (simp_all add: demo_out_def)

text \<open>the sizes of the groups are noted in an array of 64 characters without looking at its end: where the locale
  has groups, a text with more than 64 separators in a row makes the reader write behind it.\<close>

theorem group_sizes_overrun:
  assumes "std_tables env" "grouping env \<noteq> []" "thousands_sep env \<notin> {CHR ''+'', CHR ''-'', CHR ''0''}" "64 < n" 
  shows "(do_get_integer env flags is_signed (replicate n (thousands_sep env) @ t) :: ('a::len word option \<times> iostate \<times> string) option) = None"
proof -
  let ?s = "thousands_sep env"
  have loop: "digits_loop env base f (replicate m ?s @ t) a = None" if "64 < length (sizes a) + m" "length (sizes a) \<le> 64"
    for base f m and a :: "'a word digits_read"
    using that
  proof (induction m arbitrary: a)
    case (Suc m)
    show ?case
    proof (cases "length (sizes a) < 64")
      case True
      then show ?thesis using Suc assms(2) by (simp add: push_size_def)
    qed (use assms(2) in \<open>simp add: push_size_def\<close>)
  qed simp
  obtain m where n: "n = Suc m" using assms(4) by (cases n) auto
  have g: "get_sign env (replicate n ?s @ t) = (False, replicate n ?s @ t)"
    using assms(3) by (simp add: n get_sign_def atoms_std [OF assms(1)])
  define base :: nat where "base = (if flags \<inter> basefield = {Oct} then 8 else if flags \<inter> basefield = {Hex} then 16 else 10)"
  have b: "get_base env flags (replicate n ?s @ t) = (base, 0, replicate n ?s @ t)"
    using assms(3) by (simp add: n get_base_def base_def atoms_std [OF assms(1)] Let_def)
  have "replicate n ?s @ t \<noteq> []" by (simp add: n)
  then show ?thesis using loop [of "\<lparr>ovflow = False, result = 0, got = _, sizes = [], current = 0\<rparr>" n] assms(4)
    unfolding do_get_integer_def get_base_or_zero_def by (simp add: g b Let_def get_integer_signed_def get_integer_unsigned_def)
qed

theorem group_sizes_overrun_witness:
  "(do_get_integer (c_env\<lparr>grouping := [CHR 0x03]\<rparr>) {Dec} True (replicate 65 (CHR '','') @ ''1'') :: (u64 option \<times> iostate \<times> string) option) = None"
  using group_sizes_overrun [of "c_env\<lparr>grouping := [CHR 0x03]\<rparr>" 65 "{Dec}" True "''1''", where 'a = 64]
  by (simp add: std_tables_def c_env_def)

end
