(* ===== verification/StlOutput.thy ===== *)
theory StlOutput
  imports StlNumberProps
begin

text \<open>
  The output streams of the C++ library (\<open>stl/_ostream.c\<close>): characters, texts and whole stream buffers.  The stream
  is the record of \<open>StlNumbers\<close>; a stream to write to always has a buffer and none is tied to it, as in
  \<open>StlStreams\<close>.
\<close>

section \<open>Characters and texts\<close>

text \<open>\<open>_M_sputnc\<close> writes a character a number of times, \<open>sputc\<close> one; the sentry is true exactly when the stream is good.\<close>

definition sputnc :: "char \<Rightarrow> nat \<Rightarrow> sink \<Rightarrow> nat \<times> sink" where
  "sputnc c n d = sputn (replicate n c) d"

definition M_put_char :: "char \<Rightarrow> out_stream \<Rightarrow> out_stream" where
  "M_put_char c os =
     (if out_state os \<noteq> {} then os
      else
        let npad = (if out_width os > 0 then nat (out_width os - 1) else 0);
            (ok, d) =
              (if npad = 0 then sputc c (out os)
               else if out_flags os \<inter> adjustfield = {Left_adjust} then
                 (case sputc c (out os) of (False, d) \<Rightarrow> (False, d)
                  | (True, d) \<Rightarrow> (case sputnc (out_fill os) npad d of (k, d) \<Rightarrow> (k = npad, d)))
               else
                 (case sputnc (out_fill os) npad (out os) of (k, d) \<Rightarrow> if k \<noteq> npad then (False, d) else sputc c d))
        in os\<lparr>out := d, out_width := 0, out_state := (if ok then {} else {badbit})\<rparr>)"

definition M_put_nowiden :: "string \<Rightarrow> out_stream \<Rightarrow> out_stream" where
  "M_put_nowiden s os =
     (if out_state os \<noteq> {} then os
      else
        let n = length s; npad = (if out_width os > int n then nat (out_width os - int n) else 0);
            (ok, d) =
              (if npad = 0 then (case sputn s (out os) of (k, d) \<Rightarrow> (k = n, d))
               else if out_flags os \<inter> adjustfield = {Left_adjust} then
                 (case sputn s (out os) of (k, d) \<Rightarrow>
                    if k \<noteq> n then (False, d) else (case sputnc (out_fill os) npad d of (k, d) \<Rightarrow> (k = npad, d)))
               else
                 (case sputnc (out_fill os) npad (out os) of (k, d) \<Rightarrow>
                    if k \<noteq> npad then (False, d) else (case sputn s d of (k, d) \<Rightarrow> (k = n, d))))
        in os\<lparr>out := d, out_width := 0, out_state := (if ok then {} else {failbit})\<rparr>)"

text \<open>Unformatted output.\<close>

definition out_put :: "char \<Rightarrow> out_stream \<Rightarrow> out_stream" where
  "out_put c os =
     (let (ok, d) = (if out_state os = {} then sputc c (out os) else (False, out os))
      in os\<lparr>out := d, out_state := (if ok then out_state os else insert badbit (out_state os))\<rparr>)"

definition out_write :: "string \<Rightarrow> out_stream \<Rightarrow> out_stream" where
  "out_write s os =
     (let (ok, d) = (if out_state os = {} then (case sputn s (out os) of (k, d) \<Rightarrow> (k = length s, d)) else (False, out os))
      in os\<lparr>out := d, out_state := (if ok then out_state os else insert badbit (out_state os))\<rparr>)"

section \<open>Whole stream buffers\<close>

function copy_out_unbuffered :: "bool \<Rightarrow> streambuf \<Rightarrow> sink \<Rightarrow> bool \<times> streambuf \<times> sink" where
  "copy_out_unbuffered any_inserted src dest =
     (case sbumpc src of
        (None, src') \<Rightarrow> (any_inserted, src', dest)
      | (Some c, src') \<Rightarrow>
          (case sputc c dest of
             (False, dest') \<Rightarrow> (any_inserted, sputbackc c src', dest')
           | (True, dest') \<Rightarrow> copy_out_unbuffered True src' dest'))"
  by pat_completeness auto
termination
  by (relation "measure (\<lambda>(_, src, _). length (buffered_text src))") (auto dest: length_sbumpc [OF sym])

function copy_out_buffered :: "bool \<Rightarrow> streambuf \<Rightarrow> sink \<Rightarrow> bool \<times> streambuf \<times> sink" where
  "copy_out_buffered any_inserted src dest =
     (if get_area src \<noteq> [] then
        (let avail = length (get_area src); (nwritten, dest') = sputn (get_area src) dest; src1 = gbump nwritten src in
         if nwritten = avail then
           (case sgetc src1 of (None, src2) \<Rightarrow> (True, src2, dest')
            | (Some _, src2) \<Rightarrow> copy_out_buffered True src2 dest')
         else if nwritten \<noteq> 0 then (True, src1, dest')
         else (any_inserted, src1, dest'))
      else if any_inserted then (True, src, dest)
      else copy_out_unbuffered False src dest)"
  by pat_completeness auto
termination
  by (relation "measure (\<lambda>(_, src, _). areas_left src)") (auto dest: areas_left_sgetc [OF sym])

declare copy_out_unbuffered.simps [simp del]
declare copy_out_buffered.simps [simp del]

definition insert_streambuf :: "streambuf \<Rightarrow> out_stream \<Rightarrow> out_stream \<times> streambuf" where
  "insert_streambuf src os =
     (if out_state os = {} then
        (let (any_inserted, src', d) =
           (if get_area src \<noteq> [] then copy_out_buffered False src (out os) else copy_out_unbuffered False src (out os))
         in (os\<lparr>out := d, out_state := (if any_inserted then {} else {failbit})\<rparr>, src'))
      else (os, src))"

section \<open>What is written\<close>

lemma copy_out_unbuffered_text:
  assumes "ok_buf src"
  shows "case copy_out_unbuffered any_inserted src dest of (i, src', dest') \<Rightarrow>
    (let n = min (room dest) (length (buffered_text src)) in
     i = (any_inserted \<or> 0 < n) \<and> written dest' = written dest @ take n (buffered_text src) \<and> room dest' = room dest - n
     \<and> buffered_text src' = drop n (buffered_text src))"
  using assms
proof (induction any_inserted src dest rule: copy_out_unbuffered.induct)
  case (1 any_inserted src dest)
  from "1.prems" show ?case
  proof (cases rule: sbumpc_cases)
    case eof
    then show ?thesis by (simp add: copy_out_unbuffered.simps)
  next
    case (char c cs b')
    show ?thesis
    proof (cases "room dest")
      case 0
      have "buffered_text (sputbackc c b') = c # cs" using char(3) by (simp add: buffered_text_def sputbackc_def)
      with char 0 show ?thesis by (simp add: copy_out_unbuffered.simps sputc_def)
    next
      case (Suc r)
      have "sputc c dest = (True, \<lparr>written = written dest @ [c], room = r\<rparr>)" using Suc by (simp add: sputc_def)
      with "1.IH" [OF char(2)[symmetric] refl this [symmetric] refl char(4)] char Suc show ?thesis
        by (subst copy_out_unbuffered.simps) (auto simp: Let_def split: prod.splits)
    qed
  qed
qed

text \<open>What the buffered copy takes: the characters of the get area and of those behind it, but not what comes
  without a buffer.\<close>

definition in_areas :: "streambuf \<Rightarrow> string" where
  "in_areas b = get_area b @ concat (refills b)"

lemma in_areas_text: "buffered_text b = in_areas b @ source b"
  by (simp add: in_areas_def buffered_text_def)

lemma sgetc_areas: "sgetc b = (c, b') \<Longrightarrow> in_areas b' = in_areas b \<and> source b' = source b"
  by (auto simp: sgetc_def in_areas_def underflow_def Let_def split: if_splits list.splits)

lemma sgetc_exhausted: "ok_buf b \<Longrightarrow> sgetc b = (c, b') \<Longrightarrow> ok_buf b' \<and> (get_area b' = [] \<longrightarrow> in_areas b' = []) \<and> (c = None \<longrightarrow> in_areas b' = [])"
  by (auto simp: sgetc_def in_areas_def underflow_def ok_buf_def Let_def split: if_splits list.splits)

lemma copy_out_buffered_text:
  assumes "ok_buf src" "any_inserted \<or> get_area src \<noteq> []" "get_area src = [] \<longrightarrow> in_areas src = []"
  shows "case copy_out_buffered any_inserted src dest of (i, src', dest') \<Rightarrow>
    (let n = min (room dest) (length (in_areas src)) in
     i = (any_inserted \<or> 0 < n) \<and> written dest' = written dest @ take n (in_areas src) \<and> room dest' = room dest - n
     \<and> buffered_text src' = drop n (buffered_text src))"
  using assms
proof (induction any_inserted src dest rule: copy_out_buffered.induct)
  case (1 any_inserted src dest)
  show ?case
  proof (cases "get_area src = []")
    case True
    with "1.prems" show ?thesis by (simp add: copy_out_buffered.simps)
  next
    case False
    define n where "n = min (length (get_area src)) (room dest)"
    define d where "d = \<lparr>written = written dest @ take n (get_area src), room = room dest - n\<rparr>"
    have put: "sputn (get_area src) dest = (n, d)" by (simp add: sputn_def n_def d_def Let_def)
    have bumped: "in_areas (gbump n src) = drop n (in_areas src)" "buffered_text (gbump n src) = drop n (buffered_text src)"
      by (simp_all add: in_areas_def buffered_text_def n_def)
    show ?thesis
    proof (cases "n = length (get_area src)")
      case False
      then have "n = room dest" "n < length (get_area src)" by (simp_all add: n_def)
      moreover have "length (get_area src) \<le> length (in_areas src)" by (simp add: in_areas_def)
      ultimately show ?thesis using put bumped \<open>get_area src \<noteq> []\<close>
        by (subst copy_out_buffered.simps) (auto simp: d_def in_areas_def Let_def)
    next
      case n: True
      then have full: "length (get_area src) \<le> room dest" by (simp add: n_def)
      obtain c src2 where g: "sgetc (gbump n src) = (c, src2)" by fastforce
      have areas: "in_areas src = get_area src @ in_areas src2" "source src2 = source src"
        using sgetc_areas [OF g] n by (simp_all add: bumped(1)) (simp add: in_areas_def)
      have ok: "ok_buf src2" "get_area src2 = [] \<longrightarrow> in_areas src2 = []" "c = None \<longrightarrow> in_areas src2 = []"
        using sgetc_exhausted [OF _ g] "1.prems"(1) by simp_all
      have text2: "buffered_text src = get_area src @ buffered_text src2" using areas by (simp add: in_areas_text)
      show ?thesis
      proof (cases c)
        case None
        with ok(3) areas have "in_areas src = get_area src" by simp
        with None put g n text2 full \<open>get_area src \<noteq> []\<close> show ?thesis
          by (subst copy_out_buffered.simps) (auto simp: d_def Let_def min_def)
      next
        case (Some c')
        have "case copy_out_buffered True src2 d of (i, src', dest') \<Rightarrow>
          (let k = min (room d) (length (in_areas src2)) in
           i = (True \<or> 0 < k) \<and> written dest' = written d @ take k (in_areas src2) \<and> room dest' = room d - k
           \<and> buffered_text src' = drop k (buffered_text src2))"
          by (rule "1.IH" [OF False refl put [symmetric] refl refl n g [symmetric] Some ok(1) _ ok(2)]) simp
        moreover have "copy_out_buffered any_inserted src dest = copy_out_buffered True src2 d"
          using False put g n Some by (subst copy_out_buffered.simps) simp
        ultimately show ?thesis using n full areas(1) text2 \<open>get_area src \<noteq> []\<close>
          by (auto simp: d_def Let_def min_def split: prod.splits if_splits)
      qed
    qed
  qed
qed

text \<open>\<open>operator<<\<close> for a stream buffer writes, as far as there is room, what the buffer holds, leaves the rest in it, and sets
  \<open>failbit\<close> exactly when nothing could be written.  But what it takes to be all depends on how it starts: if the get area
  is not empty it ends where the buffer turns to unbuffered input, without any error, though there is more.\<close>

theorem streambuf_output:
  assumes "ok_buf src" "out_state os = {}"
  shows "case insert_streambuf src os of (os', src') \<Rightarrow>
    (let all = (if get_area src \<noteq> [] then get_area src @ concat (refills src) else buffered_text src);
         n = min (room (out os)) (length all) in
     written (out os') = written (out os) @ take n all \<and> buffered_text src' = drop n (buffered_text src)
     \<and> out_state os' = (if n = 0 then {failbit} else {}))"
proof (cases "get_area src = []")
  case True
  obtain i b d where c: "copy_out_unbuffered False src (out os) = (i, b, d)" by (metis prod_cases3)
  with copy_out_unbuffered_text [OF assms(1), of "out os" False] True assms(2) show ?thesis
    by (simp add: insert_streambuf_def Let_def min_def)
next
  case False
  obtain i b d where c: "copy_out_buffered False src (out os) = (i, b, d)" by (metis prod_cases3)
  with copy_out_buffered_text [OF assms(1), of False "out os"] False assms(2) show ?thesis
    by (simp add: insert_streambuf_def in_areas_def Let_def min_def)
qed

theorem streambuf_output_witness:
  "case insert_streambuf \<lparr>get_area = ''ab'', refills = [''c''], source = ''d''\<rparr> (demo_out {}) of (os', src') \<Rightarrow>
    written (out os') = ''abc'' \<and> buffered_text src' = ''d'' \<and> out_state os' = {}"
  using streambuf_output [of "\<lparr>get_area = ''ab'', refills = [''c''], source = ''d''\<rparr>" "demo_out {}"]
  by (auto simp: ok_buf_def demo_out_def buffered_text_def Let_def numeral_eq_Suc split: prod.splits)

end
