(* ===== verification/Spec2Isabelle.thy ===== *)
theory Spec2Isabelle
  imports EndToEnd InstrumentationLaws FilePacket Mmap Network LauncherProps OtherTools
    StlSearchProps StlSearchN StlStreamProps StlStringProps StlSortProps StlMergeProps StlOutput
begin

text \<open>
  The emulator side of Tejas.  An application runs under the Pin tool
  \<open>src/Tejas/src/emulator/pin/causalityTool.cpp\<close>, which turns what it does into packets (instruction
  pointer, encoding, address) and hands them, thread by thread, to a transport.  The transport in use is
  shared memory (\<open>communication/shm/shmem.cc\<close>): each thread has a local queue, and a ring in a System V
  segment, protected by Peterson's lock.  The simulator, a Java program, polls the rings through the JNI
  library \<open>JNIShm.c\<close>.  The tool is started by the launcher of the Pin kit and compiled against the kit's
  C++ library, STLport.

  \<^bold>\<open>Theories.\<close>
  \<^item> \<open>Prelude\<close>: machine integers, rings as lists.  \<open>Prog\<close>: programs that may end the process or never
    return.  \<open>Decimal\<close>: numerals, lines and words of text.
  \<^item> \<open>Encoding\<close>: \<open>encoding.h\<close>, the packet of \<open>common.h\<close>.
  \<^item> \<open>Shm\<close>, \<open>ShmQueue\<close>: \<open>shmem.h\<close> and \<open>shmem.cc\<close>, every operation; what they do to two lists, the packets
    in the local queue and those in the ring (\<open>chan\<close>, \<open>chan_inv\<close>).
  \<^item> \<open>JNIShm\<close>: \<open>JNIShm.c\<close> and \<open>fetchManyPackets\<close> of \<open>SharedMem.java\<close>.  \<open>Channel\<close>: both ends together, any
    sequence of operations of all threads.  \<open>ShmLimits\<close>: completeness at the end of a thread, the counters,
    and the ways packets get lost.
  \<^item> \<open>Peterson\<close>: \<open>get_lock\<close>, \<open>release_lock\<close> and the queue operations between them, one memory access per
    step (relations \<open>pstep\<close> and \<open>cstep\<close>), interleaved in any order.  \<open>LockRefinement\<close>: these steps, over a
    ring of packets, refine the channel of \<open>Channel\<close>, in which an operation is one step.
  \<^item> \<open>IPCBase\<close>: the virtual class between tools and transports as a record of methods, its contract as the
    locales \<open>packet_channel\<close> and \<open>live_channel\<close>; \<open>ShmIPC\<close> and \<open>FilePacket\<close> (\<open>filePacket.cc\<close>, the trace
    files) interpret them.  \<open>Mmap\<close>: the transport over a mapped file (\<open>mmap.cc\<close>); \<open>Network\<close>: the stub
    of a transport over a socket (\<open>network.cc\<close>).  No tool constructs either.
  \<^item> \<open>Causality\<close>: the globals and the analysis callbacks of \<open>causalityTool.cpp\<close>; \<open>Instrumentation\<close>: its
    \<open>main\<close>, its file of simulation points, the calls it asks Pin for.  \<open>CausalityLaws\<close> proves what they do
    from the contract alone, \<open>CausalityProps\<close> instantiates that with the shared-memory transport,
    \<open>InstrumentationLaws\<close> has the properties of the instrumentation.  \<open>EndToEnd\<close> joins the tool, its transport
    and the simulator's end: what the two programs count is the same.
  \<^item> \<open>OtherTools\<close>: \<open>PgmInstrumentor.cpp\<close>, \<open>prelimcausalityTool.cpp\<close>, \<open>printingTool.cpp\<close>.
  \<^item> \<open>Launcher\<close>, \<open>LauncherProps\<close>: \<open>source/launcher/\<close> of the Pin kit.
  \<^item> \<open>StlSearch\<close>, \<open>StlSearchProps\<close>: the searching algorithms of \<open>stl/_algobase.c\<close> and the searching members
    of \<open>basic_string\<close> (\<open>stl/_string.c\<close>).  \<open>StlStreams\<close>, \<open>StlStreamProps\<close>: input streams over their
    buffers (\<open>stl/_istream.c\<close>, \<open>stl/_string_io.c\<close>); the locale \<open>delimiter\<close> is the contract between the two
    function objects each routine takes.
  \<^item> \<open>StlString\<close>, \<open>StlStringLaws\<close>, \<open>StlStringProps\<close>: the members of \<open>basic_string\<close> that change a string
    (\<open>stl/_string_base.h\<close>, \<open>stl/_string.h\<close>, \<open>stl/_string.c\<close>) as reads and writes of the block it owns; what
    each does to the list of characters in it (\<open>holds\<close>).
  \<^item> \<open>StlSearchN\<close>: \<open>search_n\<close> (\<open>stl/_algo.c\<close>).  \<open>StlHeap\<close>, \<open>StlSort\<close>: the heap and sorting algorithms
    (\<open>stl/_heap.c\<close>, \<open>stl/_algo.c\<close>) as reads and writes of a block that stop with \<open>None\<close> outside of it;
    \<open>StlHeapLaws\<close> and \<open>StlSortLaws\<close> prove what they do from the laws of a comparison, the locale
    \<open>strict_weak\<close>, which \<open>StlSortProps\<close> interprets on the orders of bytes and strings.  \<open>StlMerge\<close>,
    \<open>StlMergeProps\<close>: the algorithms on sorted ranges.
  \<^item> \<open>StlNumbers\<close>, \<open>StlNumberProps\<close>: numbers in streams (\<open>stl/_num_get.c\<close>, \<open>stl/_num_put.c\<close>) with their
    loops on wrapping words; \<open>StlOutput\<close>: output streams (\<open>stl/_ostream.c\<close>).
\<close>

text \<open>
  \<^bold>\<open>What is shown.\<close>  The channel delivers every thread's packets in order, each once (\<open>channel_fifo\<close>); its
  operations refine sending to and taking from a list (\<open>send_refines_channel\<close>, \<open>fetch_refines_channel\<close>);
  a finished thread's packets all arrive (\<open>finished_thread_delivered\<close>); the tool's busy loops end
  (\<open>busy_loop_sends_once\<close>).  The lock excludes, does not block and does not starve, and the queue size
  stays right under every interleaving, so that the channel with one step per operation is a sound
  abstraction of it (\<open>lock_refines_channel\<close>).  The tool's table of threads, its checksum, the packets of each
  callback and the window of simulated instructions are right.  What it counts is what the simulator
  receives (\<open>simulator_checks_sum\<close>).  Trace files and the file of simulation points can be read back.  The
  launcher runs the right binary with the right arguments and environment.  The optimised routines of the
  C++ library (unrolled, reversed, bitmap, chunked, jumping) agree with the plain ones, its strings are lists
  whatever aliases are passed (\<open>strings_refine_lists\<close>), and through its streams \<open>main\<close> reads the simulation
  points as modelled (\<open>pinpoints_through_streams\<close>, below).  Its sort, heaps and set operations do what the
  standard says for every strict weak ordering (\<open>sort_sorts\<close>, \<open>heap_operations\<close>,
  \<open>set_operations_by_class\<close>); numbers are read with the right overflows (\<open>integers_read\<close>), and what is
  written is read back (\<open>integer_output_input_roundtrip\<close>).
  Where the code does not keep what it promises the theorem says what it does instead:
  \<open>thread_start_breaks_exclusion\<close>, \<open>slot_reuse_loses_packets\<close>,
  \<open>uninitialised_write_index_loses_packets\<close>, \<open>fini_never_ends\<close>, \<open>subset_end_never_returns\<close>,
  \<open>timer_spacing_ineffective\<close>, \<open>append_path_outcome\<close>, \<open>mapped_file_too_short\<close>,
  \<open>reused_slot_loses_packet\<close>, \<open>getline_array_depends_on_buffering\<close>, \<open>own_terminator_inserted_wrong\<close>,
  \<open>full_string_overruns\<close>, \<open>pointer_read_as_null\<close>, \<open>negative_int_without_base\<close>, \<open>group_sizes_overrun\<close>,
  \<open>streambuf_output\<close>, \<open>reflexive_comparison_runs_out\<close>.

  \<^bold>\<open>Bounds and fuel.\<close>  The ring has \<open>COUNT\<close> cells and a local queue \<open>locQ\<close>, as in the source.  Machine
  integers are words of the source's width where they can wrap (queue sizes, indices, counters,
  checksums); lengths of strings are natural numbers, with the source's limits (\<open>PATH_MAX_SIZE\<close>) written
  out; a string that would grow to exactly \<open>max_size()\<close> is excluded by \<open>below_limit\<close>, because there the
  library writes behind its block.  A loop that may not end is a \<open>partial_function\<close> whose value \<open>None\<close> is
  not returning; fuel occurs only in \<open>stream_lines\<close>, where the number of lines is enough.

  \<^bold>\<open>Parameters.\<close>  Pin (which thread runs, what an instruction is, \<open>PIN_Yield\<close>), the operating system
  (segments, files, \<open>/proc\<close>, the environment), the clock, uninitialised memory, the locale of a stream.

  \<^bold>\<open>Not modelled.\<close>  The Java simulator behind \<open>fetchManyPackets\<close>; output that is only printed; weak memory
  (the code has a fence around each access); signals; the Windows branches; the rest of the vendored Pin
  kit: XED's tables, sample tools, and of STLport the containers, the sorting algorithms that use a
  buffer, rotations and permutations, the output of floating-point numbers, the monetary and time facets,
  the tables of the locales (they are parameters), wide characters, and streams that throw.
\<close>

section \<open>The file of simulation points, through the library\<close>

text \<open>The two passes of \<open>main\<close> over the opened file, with the library's stream and \<open>getline\<close>: the first sizes
  the array, the second fills it.  Opening the file again gives a fresh stream over the same text, which
  need not arrive in the same pieces.  \<open>fuel\<close> bounds the calls of \<open>getline\<close>.\<close>

definition read_pinpoints_streams ::
    "(nat \<Rightarrow> u64) \<Rightarrow> nat \<Rightarrow> nat \<Rightarrow> istream \<Rightarrow> istream \<Rightarrow> (stop + u64 list) option" where
  "read_pinpoints_streams junk max_size fuel first second =
     Option.bind (stream_lines max_size fuel first []) (\<lambda>counted.
     Option.bind (stream_lines max_size fuel second []) (\<lambda>ls.
       Some (read_slices ls 0 (map junk [0..<length counted - 1]))))"

text \<open>C25: reading the simulation points through STLport's streams, line by line and twice, always ends, and
  gives what \<open>read_pinpoints\<close> says of the file's text, whatever the sizes of the buffers the text arrives
  in and whatever the outcome, an exception or a store behind the array included.\<close>
theorem pinpoints_through_streams:
  assumes "ok_stream first" "good first" "ok_stream second" "good second"
    and "unread (view first) = text" "unread (view second) = text"
    and "Suc (length text) < max_size" "length (getlines text) \<le> fuel"
  shows "read_pinpoints_streams junk max_size fuel first second = Some (read_pinpoints junk (Some text))"
  using stream_lines_eq [OF assms(1,2), of max_size fuel "[]"] stream_lines_eq [OF assms(3,4), of max_size fuel "[]"]
    assms(5-8)
  by (simp add: read_pinpoints_streams_def read_pinpoints_def)

theorem pinpoints_through_streams_witness:
  "read_pinpoints_streams (\<lambda>_. 0) 100 5
      (demo_stream \<lparr>get_area = ''7 a'', refills = [[CHR 0x0A], ''9 b'' @ [CHR 0x0A]], source = []\<rparr>)
      (demo_stream \<lparr>get_area = [], refills = [], source = ''7 a'' @ [CHR 0x0A] @ ''9 b'' @ [CHR 0x0A]\<rparr>) =
    Some (Inr [7, 9])"
proof -
  let ?t = "''7 a'' @ [CHR 0x0A] @ ''9 b'' @ [CHR 0x0A]"
  let ?a = "demo_stream \<lparr>get_area = ''7 a'', refills = [[CHR 0x0A], ''9 b'' @ [CHR 0x0A]], source = []\<rparr>"
  let ?b = "demo_stream \<lparr>get_area = [], refills = [], source = ?t\<rparr>"
  have "ok_stream ?a" "good ?a" "ok_stream ?b" "good ?b" "unread (view ?a) = ?t" "unread (view ?b) = ?t"
    by (simp_all add: demo_stream_def ok_stream_def ok_buf_def good_def buffered_text_def)
  moreover have "Suc (length ?t) < 100" "length (getlines ?t) \<le> 5" by (simp_all add: getlines_def)
  ultimately have "read_pinpoints_streams (\<lambda>_. 0) 100 5 ?a ?b = Some (read_pinpoints (\<lambda>_. 0) (Some ?t))"
    by (rule pinpoints_through_streams)
  also have "read_pinpoints (\<lambda>_. 0) (Some ?t) = Inr [7, 9]"
    by (simp add: read_pinpoints_def getlines_def strtol_def is_space_def is_digit_def digit_value_def numeral_eq_Suc)
  finally show ?thesis .
qed

end
